(* ===== verification/Gateway_Prelude.thy ===== *)
theory Gateway_Prelude
  imports Main "HOL-Library.Sublist" "HOL-Library.List_Lexorder" "HOL-Library.Char_ord"
begin

text \<open>
  Shared vocabulary of the development: the error values of the gateway's packages, the
  result type of a Go function that returns \<open>(value, error)\<close>, the list and map lemmas the
  component theories rest on, and the locale of inductive invariants.

  A Go string or byte slice is a \<^typ>\<open>string\<close> (a list of 8-bit characters), ordered
  lexicographically by bytes as Go and bbolt order them.
\<close>

section \<open>Errors and results\<close>

text \<open>
  Go's \<open>error\<close> is an open interface. The datatype lists the sentinel values of the
  packages \<open>store\<close> and \<open>object\<close>, one constructor with a text per outside source of
  errors (bbolt, encoding/json, the operating system, the 0G SDK), the absent-file error that
  \<open>os.IsNotExist\<close> recognises, \<open>ErrMsg\<close> for \<open>errors.New\<close> and \<open>fmt.Errorf\<close> without
  \<open>%w\<close>, and \<open>Wrapped\<close> for \<open>fmt.Errorf("...: %w", err)\<close>. \<open>ErrPanic\<close> is a run-time
  panic of the called function, which does not return.
\<close>

datatype err =
    ErrExists
  | ErrBucketExists
  | ErrBucketNotFound
  | ErrBucketNotEmpty
  | ErrEmpty
  | ErrTooLarge
  | ErrNotFound
  | ErrBolt string
  | ErrJSON string
  | ErrOS string
  | ErrNotExist
  | ErrSDK string
  | ErrMsg string
  | Wrapped string err
  | ErrPanic

text \<open>bbolt's \<open>ErrDatabaseNotOpen\<close>.\<close>

abbreviation ErrDatabaseNotOpen :: err where
  "ErrDatabaseNotOpen \<equiv> ErrBolt ''database not open''"

text \<open>\<open>err.Error()\<close>.\<close>

fun err_text :: "err \<Rightarrow> string" where
  "err_text ErrExists = ''object already exists''"
| "err_text ErrBucketExists = ''bucket already exists''"
| "err_text ErrBucketNotFound = ''bucket not found''"
| "err_text ErrBucketNotEmpty = ''bucket not empty''"
| "err_text ErrEmpty = ''empty object rejected (0G cannot address zero-byte files)''"
| "err_text ErrTooLarge = ''object exceeds the configured size limit''"
| "err_text ErrNotFound = ''object not found''"
| "err_text (ErrBolt t) = t"
| "err_text (ErrJSON t) = t"
| "err_text (ErrOS t) = t"
| "err_text ErrNotExist = ''file does not exist''"
| "err_text (ErrSDK t) = t"
| "err_text (ErrMsg t) = t"
| "err_text (Wrapped p e) = p @ '': '' @ err_text e"
| "err_text ErrPanic = ''panic''"

type_synonym 'a result = "err + 'a"

text \<open>\<open>errors.Is\<close>: the error itself or one it wraps.\<close>

fun errors_is :: "err \<Rightarrow> err \<Rightarrow> bool" where
  "errors_is (Wrapped s e) t = (Wrapped s e = t \<or> errors_is e t)"
| "errors_is e t = (e = t)"

section \<open>Collections of facts\<close>

named_theorems store_simps \<open>what the store operations do to the five lookup views\<close>
named_theorems inv_intros \<open>preservation of the component invariants\<close>

section \<open>Lists and maps\<close>

lemma sorted_strict_distinct:
  fixes xs :: "'a::linorder list"
  shows "sorted_wrt (<) xs \<Longrightarrow> distinct xs"
  by (induction xs) auto

lemma subseq_set: "subseq xs ys \<Longrightarrow> set xs \<subseteq> set ys"
  by (induction rule: list_emb.induct) auto

lemma subseq_distinct: "subseq xs ys \<Longrightarrow> distinct ys \<Longrightarrow> distinct xs"
  by (induction rule: list_emb.induct) (auto dest: subseq_set)

lemma map_of_sorted_iff:
  fixes es :: "(('k::linorder) \<times> 'v) list"
  assumes "sorted_wrt (<) (map fst es)"
  shows "map_of es k = Some v \<longleftrightarrow> (k, v) \<in> set es"
  using sorted_strict_distinct [OF assms] by (simp add: map_of_eq_Some_iff)

lemma dropWhile_eq_filter_sorted:
  fixes es :: "(('k::linorder) \<times> 'v) list"
  assumes "sorted_wrt (<) (map fst es)"
  shows "dropWhile (\<lambda>e. fst e < p) es = filter (\<lambda>e. p \<le> fst e) es"
  using assms
proof (induction es)
  case (Cons e es)
  show ?case
  proof (cases "fst e < p")
    case False
    then have "\<forall>x \<in> set es. p \<le> fst x"
      using Cons.prems by (force simp: less_imp_le)
    with False show ?thesis by simp
  qed (use Cons in simp)
qed simp

text \<open>
  In byte order the keys with a given prefix form an interval that starts at the prefix: a
  key at or after the prefix that does not have it is larger than every key that does.
\<close>

lemma prefix_le: "prefix p k \<Longrightarrow> p \<le> (k :: string)"
proof (induction p arbitrary: k)
  case (Cons c p)
  then obtain k' where "k = c # k'" "prefix p k'"
    by (cases k) auto
  with Cons.IH show ?case by simp
qed simp

lemma prefix_interval:
  fixes p j k :: string
  assumes "prefix p k" and "p \<le> j" and "j \<le> k"
  shows "prefix p j"
  using assms
proof (induction p arbitrary: j k)
  case (Cons c p)
  then obtain k' where k: "k = c # k'" "prefix p k'" by (cases k) auto
  from Cons.prems(2,3) k obtain j' where j: "j = c # j'"
    by (cases j) (auto simp: Cons_le_Cons)
  from Cons.prems(2,3) j k have "p \<le> j'" "j' \<le> k'" by auto
  with Cons.IH k j show ?case by auto
qed simp

text \<open>
  A cursor that seeks to a prefix and advances while the key has the prefix visits exactly
  the entries with the prefix, in order.
\<close>

lemma prefix_scan_eq_filter:
  fixes es :: "(string \<times> 'v) list"
  assumes "sorted_wrt (<) (map fst es)"
  shows "takeWhile (\<lambda>e. prefix p (fst e)) (dropWhile (\<lambda>e. fst e < p) es)
         = filter (\<lambda>e. prefix p (fst e)) es"
  using assms
proof (induction es)
  case (Cons e es)
  have srt: "sorted_wrt (<) (map fst es)" and above: "\<forall>x \<in> set es. fst e < fst x"
    using Cons.prems by auto
  show ?case
  proof (cases "fst e < p")
    case True
    then have "\<not> prefix p (fst e)" using prefix_le by (fastforce simp: not_le)
    with True Cons.IH [OF srt] show ?thesis by simp
  next
    case False
    have tail: "dropWhile (\<lambda>e. fst e < p) es = es"
      using False above by (cases es) auto
    show ?thesis
    proof (cases "prefix p (fst e)")
      case True
      with False Cons.IH [OF srt] tail show ?thesis by simp
    next
      case no: False
      have "\<forall>x \<in> set es. \<not> prefix p (fst x)"
        using no False above prefix_interval by (metis less_imp_le not_less)
      with no False show ?thesis by (simp add: filter_empty_conv)
    qed
  qed
qed simp

section \<open>Inductive invariants\<close>

text \<open>
  A predicate that holds initially and is kept by every step holds in every state that a run
  reaches. The step relations of the components interpret this locale.
\<close>

locale invariant_system =
  fixes start :: "'s \<Rightarrow> bool"
    and step :: "'s \<Rightarrow> 's \<Rightarrow> bool"
    and inv :: "'s \<Rightarrow> bool"
  assumes inv_start: "start s \<Longrightarrow> inv s"
    and inv_step: "step s t \<Longrightarrow> inv s \<Longrightarrow> inv t"
begin

lemma inv_run: "step\<^sup>*\<^sup>* s t \<Longrightarrow> inv s \<Longrightarrow> inv t"
  by (induction rule: rtranclp_induct) (auto intro: inv_step)

lemma inv_reachable: "start s \<Longrightarrow> step\<^sup>*\<^sup>* s t \<Longrightarrow> inv t"
  using inv_run inv_start by blast

end

end
