(* ===== verification/Bolt.thy ===== *)
theory Bolt
  imports Gateway_Prelude
begin

text \<open>
  The interface to bbolt (\<open>go.etcd.io/bbolt\<close>), the embedded key/value database that the
  store is written against. Its code is not part of the repository, so it is a parameter: a
  record of the operations the store calls, on an arbitrary type \<open>'b\<close> of bucket contents
  and an arbitrary type \<open>'v\<close> of byte values, with the documented behaviour as the laws of
  the locale \<open>bolt\<close>.
\<close>

section \<open>Operations\<close>

text \<open>
  \<open>bget\<close> is \<open>Bucket.Get\<close> (\<open>None\<close> for nil), \<open>bput\<close> and \<open>bdelete\<close> are \<open>Put\<close> and
  \<open>Delete\<close>, \<open>bentries\<close> is what \<open>ForEach\<close>, or a cursor from \<open>First\<close> by \<open>Next\<close>,
  delivers from an unmodified bucket. \<open>bnext_mod\<close> is what a cursor delivers by \<open>Next\<close>
  when the bucket was modified under it: given the modified bucket and what was left before,
  the documentation promises nothing. \<open>commit_err\<close> says whether the commit of the n-th
  write transaction fails (an I/O error, a full disk) and \<open>bfits\<close> whether a value is
  within bbolt's size limit.
\<close>

record ('b, 'v) bolt =
  bempty :: 'b
  bget :: "'b \<Rightarrow> string \<Rightarrow> 'v option"
  bput :: "'b \<Rightarrow> string \<Rightarrow> 'v \<Rightarrow> 'b result"
  bdelete :: "'b \<Rightarrow> string \<Rightarrow> 'b result"
  bentries :: "'b \<Rightarrow> (string \<times> 'v) list"
  bnext_mod :: "'b \<Rightarrow> (string \<times> 'v) list \<Rightarrow> (string \<times> 'v) list"
  bfits :: "'v \<Rightarrow> bool"
  commit_err :: "nat \<Rightarrow> err option"

text \<open>\<open>bbolt.MaxKeySize\<close>.\<close>

definition max_key_size :: nat where
  "max_key_size = 32768"

definition key_ok :: "string \<Rightarrow> bool" where
  "key_ok k \<longleftrightarrow> k \<noteq> [] \<and> length k \<le> max_key_size"

section \<open>Documented behaviour\<close>

locale bolt =
  fixes B :: "('b, 'v, 'z) bolt_scheme"
  assumes get_empty: "bget B (bempty B) = Map.empty"
    and get_put: "bput B b k v = Inr b' \<Longrightarrow> bget B b' = (bget B b)(k \<mapsto> v)"
    and get_delete: "bdelete B b k = Inr b' \<Longrightarrow> bget B b' = (bget B b)(k := None)"
    and put_succeeds: "key_ok k \<Longrightarrow> bfits B v \<Longrightarrow> \<exists>b'. bput B b k v = Inr b'"
    and put_key: "bput B b k v = Inr b' \<Longrightarrow> key_ok k"
    and delete_succeeds: "\<exists>b'. bdelete B b k = Inr b'"
    and entries_sorted: "sorted_wrt (<) (map fst (bentries B b))"
    and entries_get: "map_of (bentries B b) = bget B b"
begin

lemma entries_mem: "(k, v) \<in> set (bentries B b) \<longleftrightarrow> bget B b k = Some v"
  using map_of_sorted_iff [OF entries_sorted] by (metis entries_get)

lemma entries_keys: "fst ` set (bentries B b) = dom (bget B b)"
  by (simp add: entries_get [symmetric] dom_map_of_conv_image_fst)

lemma entries_distinct: "distinct (map fst (bentries B b))"
  by (rule sorted_strict_distinct [OF entries_sorted])

text \<open>A prefix scan of the cursor, as a filter of the entries.\<close>

lemma scan_mem:
  "(k, v) \<in> set (takeWhile (\<lambda>e. prefix p (fst e)) (dropWhile (\<lambda>e. fst e < p) (bentries B b)))
   \<longleftrightarrow> bget B b k = Some v \<and> prefix p k"
  by (auto simp: prefix_scan_eq_filter [OF entries_sorted] entries_mem)

end

text \<open>
  A cursor that keeps its place when keys it has passed are deleted through the bucket. The
  documentation does not promise it; the operation that needs it says so.
\<close>

locale bolt_stable_cursor = bolt +
  assumes next_mod_stable: "bnext_mod B b rest = rest"

section \<open>A reference instance\<close>

text \<open>
  Association lists satisfy the laws: the first pair of a key counts, and the entries are
  read out in key order.
\<close>

definition alist_put :: "(string \<times> 'v) list \<Rightarrow> string \<Rightarrow> 'v \<Rightarrow> (string \<times> 'v) list result" where
  "alist_put b k v =
     (if k = [] then Inl (ErrBolt ''key required'')
      else if max_key_size < length k then Inl (ErrBolt ''key too large'')
      else Inr ((k, v) # b))"

definition alist_entries :: "(string \<times> 'v) list \<Rightarrow> (string \<times> 'v) list" where
  "alist_entries b = map (\<lambda>k. (k, the (map_of b k))) (sort (remdups (map fst b)))"

definition alist_bolt :: "((string \<times> 'v) list, 'v) bolt" where
  "alist_bolt =
     \<lparr>bempty = [], bget = map_of, bput = alist_put,
      bdelete = (\<lambda>b k. Inr (filter (\<lambda>e. fst e \<noteq> k) b)),
      bentries = alist_entries, bnext_mod = (\<lambda>_ rest. rest),
      bfits = (\<lambda>_. True), commit_err = (\<lambda>_. None)\<rparr>"

lemma map_of_filter_neq: "map_of (filter (\<lambda>e. fst e \<noteq> k) b) = (map_of b)(k := None)"
  by (induction b) (auto simp: fun_eq_iff)

lemma alist_entries_sorted: "sorted_wrt (<) (map fst (alist_entries b))"
  by (simp add: alist_entries_def comp_def strict_sorted_iff)

lemma alist_entries_get: "map_of (alist_entries b) = map_of b"
proof
  fix k
  show "map_of (alist_entries b) k = map_of b k"
  proof (cases "map_of b k")
    case None
    then have "k \<notin> fst ` set b" by (simp add: map_of_eq_None_iff)
    with None show ?thesis
      by (simp add: alist_entries_def map_of_map_restrict restrict_map_def)
  next
    case (Some v)
    then have "k \<in> fst ` set b" by (force dest: map_of_SomeD)
    with Some show ?thesis
      by (simp add: alist_entries_def map_of_map_restrict restrict_map_def)
  qed
qed

text \<open>
  The laws hold for every record that extends the reference instance by further fields, such
  as the store's host record.
\<close>

lemma alist_bolt_laws:
  assumes "bempty B = []" and "bget B = map_of" and "bput B = alist_put"
    and "bdelete B = (\<lambda>b k. Inr (filter (\<lambda>e. fst e \<noteq> k) b))"
    and "bentries B = alist_entries" and "bnext_mod B = (\<lambda>_ rest. rest)"
  shows "bolt_stable_cursor B"
  by unfold_locales
    (auto simp: assms alist_put_def key_ok_def map_of_filter_neq alist_entries_get
      alist_entries_sorted split: if_splits)

interpretation alist: bolt_stable_cursor alist_bolt
  by (rule alist_bolt_laws) (simp_all add: alist_bolt_def)

end
