(* ===== verification/Go_Std.thy ===== *)
theory Go_Std
  imports Gateway_Prelude
begin

text \<open>
  The parts of Go's standard library that the gateway uses and whose exact result matters:
  UTF-8 coercion by \<open>encoding/json\<close>, the \<open>strings\<close> functions of the path and header
  parsers, and 64-bit integer wrap-around.
\<close>

section \<open>UTF-8 and encoding/json\<close>

text \<open>
  \<open>utf8.DecodeRune\<close> accepts the well-formed byte sequences of the Unicode standard:
  \<open>rune_len s\<close> is the length of the rune at the head of \<open>s\<close>, 0 where it is malformed.
\<close>

abbreviation byte_of :: "char \<Rightarrow> nat" where
  "byte_of c \<equiv> of_char c"

definition cont_in :: "nat \<Rightarrow> nat \<Rightarrow> char \<Rightarrow> bool" where
  "cont_in lo hi c \<longleftrightarrow> lo \<le> byte_of c \<and> byte_of c \<le> hi"

definition low_bound :: "nat \<Rightarrow> nat" where
  "low_bound b = (if b = 224 then 160 else if b = 240 then 144 else 128)"

definition high_bound :: "nat \<Rightarrow> nat" where
  "high_bound b = (if b = 237 then 159 else if b = 244 then 143 else 191)"

fun conts :: "nat \<Rightarrow> string \<Rightarrow> bool" where
  "conts 0 s = True"
| "conts (Suc n) [] = False"
| "conts (Suc n) (c # s) = (cont_in 128 191 c \<and> conts n s)"

fun first_cont :: "nat \<Rightarrow> string \<Rightarrow> bool" where
  "first_cont b [] = False"
| "first_cont b (c # s) = cont_in (low_bound b) (high_bound b) c"

definition rune_need :: "nat \<Rightarrow> nat" where
  "rune_need b =
     (if b < 128 then 1 else if b < 194 then 0 else if b < 224 then 2
      else if b < 240 then 3 else if b < 245 then 4 else 0)"

fun rune_len :: "string \<Rightarrow> nat" where
  "rune_len [] = 0"
| "rune_len (c # s) =
     (let n = rune_need (byte_of c)
      in if n \<le> 1 then n
         else if first_cont (byte_of c) s \<and> conts (n - 1) s then n else 0)"

text \<open>
  A string that \<open>json.Marshal\<close> writes and \<open>json.Unmarshal\<close> reads back: every malformed
  byte has become U+FFFD, whose UTF-8 form is EF BF BD; well-formed runes are unchanged.
\<close>

definition replacement_rune :: string where
  "replacement_rune = [CHR 0xEF, CHR 0xBF, CHR 0xBD]"

function json_string :: "string \<Rightarrow> string" where
  "json_string [] = []"
| "json_string (c # s) =
     (let n = rune_len (c # s)
      in if n = 0 then replacement_rune @ json_string s
         else take n (c # s) @ json_string (drop n (c # s)))"
  by pat_completeness auto
termination
  by (relation "measure length") auto

declare json_string.simps(2) [simp del]

lemma json_string_step:
  "0 < rune_len s \<Longrightarrow> json_string s = take (rune_len s) s @ json_string (drop (rune_len s) s)"
  by (cases s) (simp_all add: json_string.simps(2) Let_def del: rune_len.simps(2))

lemma json_string_bad:
  "rune_len (c # s) = 0 \<Longrightarrow> json_string (c # s) = replacement_rune @ json_string s"
  by (simp add: json_string.simps(2) del: rune_len.simps(2))

definition ascii :: "string \<Rightarrow> bool" where
  "ascii s \<longleftrightarrow> (\<forall>c \<in> set s. byte_of c < 128)"

lemma ascii_simps [simp]:
  "ascii []"
  "ascii (c # s) \<longleftrightarrow> byte_of c < 128 \<and> ascii s"
  "ascii (s @ t) \<longleftrightarrow> ascii s \<and> ascii t"
  by (auto simp: ascii_def)

lemma json_string_ascii [simp]: "ascii s \<Longrightarrow> json_string s = s"
  by (induction s) (auto simp: json_string.simps(2) rune_need_def)

lemma conts_append: "conts n s \<Longrightarrow> conts n (s @ t)"
  by (induction n s rule: conts.induct) auto

lemma first_cont_append: "first_cont b s \<Longrightarrow> first_cont b (s @ t)"
  by (cases s) auto

lemma conts_length: "conts n s \<Longrightarrow> n \<le> length s"
  by (induction n s rule: conts.induct) auto

lemma conts_take: "conts n s \<Longrightarrow> conts n (take n s)"
  by (induction n s rule: conts.induct) auto

lemma first_cont_take: "first_cont b s \<Longrightarrow> 0 < n \<Longrightarrow> first_cont b (take n s)"
  by (cases s; cases n) auto

text \<open>The length of a rune depends on its own bytes only.\<close>

lemma rune_len_local:
  assumes "rune_len s = n" and "0 < n"
  shows "rune_len (take n s @ t) = n"
proof -
  obtain c r where s: "s = c # r" using assms by (cases s) auto
  define k where "k = rune_need (byte_of c)"
  show ?thesis
  proof (cases "k \<le> 1")
    case True
    then have "n = 1" "k = 1" using assms s by (auto simp: k_def Let_def)
    then show ?thesis using s by (simp add: k_def)
  next
    case False
    then have n: "n = k" and f: "first_cont (byte_of c) r" and cs: "conts (k - 1) r"
      using assms s by (auto simp: k_def Let_def split: if_splits)
    have "take n s @ t = c # (take (k - 1) r @ t)"
      using n False s by (cases k) auto
    moreover have "first_cont (byte_of c) (take (k - 1) r @ t)"
      using first_cont_append first_cont_take f False by simp
    moreover have "conts (k - 1) (take (k - 1) r @ t)"
      using conts_append conts_take cs by blast
    ultimately show ?thesis using False n by (simp add: k_def Let_def)
  qed
qed

lemma rune_len_le: "rune_len s \<le> length s"
proof (cases s)
  case (Cons c r)
  then show ?thesis using conts_length by (fastforce simp: Let_def)
qed simp

lemma json_string_rune:
  assumes "rune_len s = n" and "0 < n"
  shows "json_string (take n s @ t) = take n s @ json_string t"
proof -
  have "length (take n s) = n" using rune_len_le [of s] assms by simp
  then show ?thesis
    using json_string_step [of "take n s @ t"] rune_len_local [OF assms, of t] assms(2)
    by (simp del: rune_len.simps(2))
qed

lemma replacement_rune_len: "rune_len replacement_rune = 3"
  by (simp add: replacement_rune_def rune_need_def cont_in_def low_bound_def high_bound_def
      numeral_3_eq_3 eval_nat_numeral Let_def)

lemma json_string_replacement:
  "json_string (replacement_rune @ t) = replacement_rune @ json_string t"
  using json_string_rune [OF replacement_rune_len, of t] by (simp add: replacement_rune_def)

text \<open>Coercion is idempotent: a record that has been through JSON once is stable.\<close>

lemma json_string_idem [simp]: "json_string (json_string s) = json_string s"
proof (induction s rule: json_string.induct)
  case (2 c s)
  define n where "n = rune_len (c # s)"
  show ?case
  proof (cases "n = 0")
    case True
    then show ?thesis
      using 2(1) [OF n_def] by (simp add: n_def json_string_bad json_string_replacement
          del: rune_len.simps(2))
  next
    case False
    then have "json_string (c # s) = take n (c # s) @ json_string (drop n (c # s))"
      using json_string_step [of "c # s"] by (simp add: n_def del: rune_len.simps(2))
    then show ?thesis
      using json_string_rune [of "c # s" n] 2(2) [OF n_def] False
      by (simp add: n_def del: rune_len.simps(2))
  qed
qed simp

end
