(* ===== verification/Store.thy ===== *)
theory Store
  imports Bolt Go_Std
begin

text \<open>
  \<open>internal/store/store.go\<close>: object metadata, the two task queues, the bucket registry and
  the bucket/key index, each in its own bbolt bucket. Every exported operation of the Go
  package is a definition of the same name; a write operation takes the store and returns the
  new store with the result, a read returns the result. The theorems are in
  \<open>Store_Facts\<close> and \<open>Store_Inv\<close>.
\<close>

section \<open>Data\<close>

text \<open>\<open>StatusNone\<close> is the empty string, the zero value of the Go type.\<close>

datatype status =
    StatusNone
  | StatusPending
  | StatusSubmitted
  | StatusOnchain
  | StatusFinalized
  | StatusFailed

record bucket_record =
  BName :: string
  BCreatedAt :: int

text \<open>A time is the number of nanoseconds since the Unix epoch, in UTC.\<close>

record object_meta =
  Root :: string
  SHA256 :: string
  MD5 :: string
  Size :: int
  Filename :: string
  ContentType :: string
  Status :: status
  TxHash :: string
  FailReason :: string
  Retries :: int
  SkipTx :: bool
  CreatedAt :: int
  UpdatedAt :: int
  LastAccess :: int

record s3_object =
  ObjKey :: string
  ObjMeta :: object_meta

record cache_entry =
  CERoot :: string
  CESize :: int
  CELastAccess :: int

text \<open>Go's zero \<open>time.Time\<close> is the first of January of the year 1.\<close>

definition zero_time :: int where
  "zero_time = - 62135596800 * 1000000000"

definition zero_meta :: object_meta where
  "zero_meta =
     \<lparr>Root = [], SHA256 = [], MD5 = [], Size = 0, Filename = [], ContentType = [],
      Status = StatusNone, TxHash = [], FailReason = [], Retries = 0, SkipTx = False,
      CreatedAt = zero_time, UpdatedAt = zero_time, LastAccess = zero_time\<rparr>"

section \<open>The host of the store\<close>

text \<open>
  Beside bbolt, the store relies on \<open>encoding/json\<close> (a record to bytes and back), on the
  conversions between strings and byte slices, and on the clock: \<open>clock H n\<close> is what
  \<open>time.Now()\<close> returns inside the n-th write transaction.
\<close>

record ('b, 'v) host = "('b, 'v) bolt" +
  marshalMeta :: "object_meta \<Rightarrow> 'v result"
  unmarshalMeta :: "'v \<Rightarrow> object_meta result"
  marshalBucket :: "bucket_record \<Rightarrow> 'v result"
  unmarshalBucket :: "'v \<Rightarrow> bucket_record result"
  to_bytes :: "string \<Rightarrow> 'v"
  of_bytes :: "'v \<Rightarrow> string"
  clock :: "nat \<Rightarrow> int"

text \<open>
  What a record looks like after one round through JSON: its strings are coerced to valid
  UTF-8, everything else is unchanged. \<open>Marshal\<close> refuses a time outside the years 0 to 9999.
\<close>

definition json_meta :: "object_meta \<Rightarrow> object_meta" where
  "json_meta m =
     m\<lparr>Root := json_string (Root m), SHA256 := json_string (SHA256 m),
       MD5 := json_string (MD5 m), Filename := json_string (Filename m),
       ContentType := json_string (ContentType m), TxHash := json_string (TxHash m),
       FailReason := json_string (FailReason m)\<rparr>"

definition json_bucket :: "bucket_record \<Rightarrow> bucket_record" where
  "json_bucket r = r\<lparr>BName := json_string (BName r)\<rparr>"

definition json_time :: "int \<Rightarrow> bool" where
  "json_time t \<longleftrightarrow> - 62167219200 * 1000000000 \<le> t \<and> t < 253402300800 * 1000000000"

definition meta_times_ok :: "object_meta \<Rightarrow> bool" where
  "meta_times_ok m \<longleftrightarrow> json_time (CreatedAt m) \<and> json_time (UpdatedAt m) \<and> json_time (LastAccess m)"

section \<open>State and transactions\<close>

text \<open>
  The six bbolt buckets under the Go names, the number of write transactions begun so far
  (the index of the clock and of the commit errors), and whether \<open>Close\<close> was called.
\<close>

record 'b store =
  objects :: 'b
  sha_index :: 'b
  q_upload :: 'b
  q_finalize :: 'b
  s3_buckets :: 'b
  s3_keys :: 'b
  txn :: nat
  closed :: bool

text \<open>What a database file holds: a new file has none of the buckets.\<close>

record 'b db_file =
  f_objects :: "'b option"
  f_sha :: "'b option"
  f_upload :: "'b option"
  f_finalize :: "'b option"
  f_buckets :: "'b option"
  f_keys :: "'b option"

definition create_if_not_exists :: "('b, 'v, 'z) host_scheme \<Rightarrow> 'b option \<Rightarrow> 'b" where
  "create_if_not_exists H f = (case f of None \<Rightarrow> bempty H | Some b \<Rightarrow> b)"

text \<open>\<open>open_err\<close> is the error of \<open>bolt.Open\<close> itself (a locked or unreadable file).\<close>

definition Open_store ::
  "('b, 'v, 'z) host_scheme \<Rightarrow> err option \<Rightarrow> 'b db_file \<Rightarrow> 'b store result" where
  "Open_store H open_err f =
     (case open_err of
        Some e \<Rightarrow> Inl e
      | None \<Rightarrow>
          (case commit_err H 0 of
             Some e \<Rightarrow> Inl e
           | None \<Rightarrow>
               Inr \<lparr>objects = create_if_not_exists H (f_objects f),
                    sha_index = create_if_not_exists H (f_sha f),
                    q_upload = create_if_not_exists H (f_upload f),
                    q_finalize = create_if_not_exists H (f_finalize f),
                    s3_buckets = create_if_not_exists H (f_buckets f),
                    s3_keys = create_if_not_exists H (f_keys f),
                    txn = 1, closed = False\<rparr>))"

definition Close_store :: "'b store \<Rightarrow> 'b store" where
  "Close_store s = s\<lparr>closed := True\<rparr>"

text \<open>
  \<open>db.View\<close> runs its function on the current state. \<open>db.Update\<close> runs it on a copy and
  commits: an error of the function or of the commit leaves the buckets as they were.
\<close>

definition db_view :: "'b store \<Rightarrow> ('b store \<Rightarrow> 'a result) \<Rightarrow> 'a result" where
  "db_view s f = (if closed s then Inl ErrDatabaseNotOpen else f s)"

definition db_update ::
  "('b, 'v, 'z) host_scheme \<Rightarrow> 'b store \<Rightarrow> (int \<Rightarrow> 'b store \<Rightarrow> err + 'b store \<times> 'a)
     \<Rightarrow> 'b store \<times> 'a result" where
  "db_update H s f =
     (if closed s then (s, Inl ErrDatabaseNotOpen)
      else let s1 = s\<lparr>txn := Suc (txn s)\<rparr> in
        (case f (clock H (txn s)) s1 of
           Inl e \<Rightarrow> (s1, Inl e)
         | Inr (s2, a) \<Rightarrow>
             (case commit_err H (txn s) of
                Some e \<Rightarrow> (s1, Inl e)
              | None \<Rightarrow> (s2, Inr a))))"

section \<open>Object metadata and the queues\<close>

definition putMeta ::
  "('b, 'v, 'z) host_scheme \<Rightarrow> 'b store \<Rightarrow> object_meta \<Rightarrow> 'b store result" where
  "putMeta H s m =
     (case marshalMeta H m of
        Inl e \<Rightarrow> Inl e
      | Inr raw \<Rightarrow>
          (case bput H (objects s) (Root m) raw of
             Inl e \<Rightarrow> Inl e
           | Inr b \<Rightarrow> Inr (s\<lparr>objects := b\<rparr>)))"

text \<open>\<open>None\<close> is the Go result \<open>(ObjectMeta{}, false, nil)\<close>.\<close>

definition getMeta ::
  "('b, 'v, 'z) host_scheme \<Rightarrow> 'b store \<Rightarrow> string \<Rightarrow> object_meta option result" where
  "getMeta H s root =
     (case bget H (objects s) root of
        None \<Rightarrow> Inr None
      | Some raw \<Rightarrow>
          (case unmarshalMeta H raw of
             Inl e \<Rightarrow> Inl e
           | Inr m \<Rightarrow> Inr (Some m)))"

definition requeue ::
  "('b, 'v, 'z) host_scheme \<Rightarrow> 'b store \<Rightarrow> object_meta \<Rightarrow> 'b store result" where
  "requeue H s m =
     (case bdelete H (q_upload s) (Root m) of
        Inl e \<Rightarrow> Inl e
      | Inr u \<Rightarrow>
          (case bdelete H (q_finalize s) (Root m) of
             Inl e \<Rightarrow> Inl e
           | Inr f \<Rightarrow>
               (let s' = s\<lparr>q_upload := u, q_finalize := f\<rparr> in
                if Status m = StatusPending \<or> Status m = StatusSubmitted then
                  (case bput H u (Root m) (to_bytes H []) of
                     Inl e \<Rightarrow> Inl e
                   | Inr u' \<Rightarrow> Inr (s'\<lparr>q_upload := u'\<rparr>))
                else if Status m = StatusOnchain then
                  (case bput H f (Root m) (to_bytes H []) of
                     Inl e \<Rightarrow> Inl e
                   | Inr f' \<Rightarrow> Inr (s'\<lparr>q_finalize := f'\<rparr>))
                else Inr s')))"

definition CreateObject ::
  "('b, 'v, 'z) host_scheme \<Rightarrow> 'b store \<Rightarrow> object_meta \<Rightarrow> 'b store \<times> unit result" where
  "CreateObject H s m =
     db_update H s (\<lambda>now s1.
       if bget H (objects s1) (Root m) \<noteq> None then Inl ErrExists
       else
         (let m' = m\<lparr>CreatedAt := now, UpdatedAt := now, LastAccess := now\<rparr> in
          (case putMeta H s1 m' of
             Inl e \<Rightarrow> Inl e
           | Inr s2 \<Rightarrow>
               (case bput H (sha_index s2) (SHA256 m') (to_bytes H (Root m')) of
                  Inl e \<Rightarrow> Inl e
                | Inr b \<Rightarrow>
                    (case requeue H (s2\<lparr>sha_index := b\<rparr>) m' of
                       Inl e \<Rightarrow> Inl e
                     | Inr s3 \<Rightarrow> Inr (s3, ()))))))"

definition Get :: "('b, 'v, 'z) host_scheme \<Rightarrow> 'b store \<Rightarrow> string \<Rightarrow> object_meta option result" where
  "Get H s root = db_view s (\<lambda>s1. getMeta H s1 root)"

definition BySHA256 ::
  "('b, 'v, 'z) host_scheme \<Rightarrow> 'b store \<Rightarrow> string \<Rightarrow> object_meta option result" where
  "BySHA256 H s sha =
     db_view s (\<lambda>s1.
       case bget H (sha_index s1) sha of
         None \<Rightarrow> Inr None
       | Some root \<Rightarrow> getMeta H s1 (of_bytes H root))"

definition mutate ::
  "('b, 'v, 'z) host_scheme \<Rightarrow> 'b store \<Rightarrow> string \<Rightarrow> (object_meta \<Rightarrow> object_meta)
     \<Rightarrow> 'b store \<times> object_meta result" where
  "mutate H s root fn =
     db_update H s (\<lambda>now s1.
       case getMeta H s1 root of
         Inl e \<Rightarrow> Inl e
       | Inr None \<Rightarrow> Inl (ErrMsg (''unknown object '' @ root))
       | Inr (Some m) \<Rightarrow>
           (let m' = (fn m)\<lparr>UpdatedAt := now\<rparr> in
            (case putMeta H s1 m' of
               Inl e \<Rightarrow> Inl e
             | Inr s2 \<Rightarrow>
                 (case requeue H s2 m' of
                    Inl e \<Rightarrow> Inl e
                  | Inr s3 \<Rightarrow> Inr (s3, m')))))"

definition void :: "'b store \<times> 'a result \<Rightarrow> 'b store \<times> unit result" where
  "void r = (fst r, map_sum id (\<lambda>_. ()) (snd r))"

definition set_status_fn :: "status \<Rightarrow> string \<Rightarrow> string \<Rightarrow> object_meta \<Rightarrow> object_meta" where
  "set_status_fn st txHash failReason m =
     (let m1 = m\<lparr>Status := st\<rparr>;
          m2 = (if txHash \<noteq> [] then m1\<lparr>TxHash := txHash\<rparr> else m1)
      in if failReason \<noteq> [] then m2\<lparr>FailReason := failReason\<rparr> else m2)"

definition SetStatus ::
  "('b, 'v, 'z) host_scheme \<Rightarrow> 'b store \<Rightarrow> string \<Rightarrow> status \<Rightarrow> string \<Rightarrow> string
     \<Rightarrow> 'b store \<times> unit result" where
  "SetStatus H s root st txHash failReason =
     void (mutate H s root (set_status_fn st txHash failReason))"

definition reenqueue_fn :: "object_meta \<Rightarrow> object_meta" where
  "reenqueue_fn m = m\<lparr>Status := StatusPending, Retries := 0, FailReason := []\<rparr>"

definition Reenqueue ::
  "('b, 'v, 'z) host_scheme \<Rightarrow> 'b store \<Rightarrow> string \<Rightarrow> 'b store \<times> unit result" where
  "Reenqueue H s root = void (mutate H s root reenqueue_fn)"

definition inc_retries_fn :: "object_meta \<Rightarrow> object_meta" where
  "inc_retries_fn m = m\<lparr>Retries := Retries m + 1\<rparr>"

definition IncRetries ::
  "('b, 'v, 'z) host_scheme \<Rightarrow> 'b store \<Rightarrow> string \<Rightarrow> 'b store \<times> int result" where
  "IncRetries H s root =
     (case mutate H s root inc_retries_fn of (s', r) \<Rightarrow> (s', map_sum id Retries r))"

definition set_skip_fn :: "bool \<Rightarrow> object_meta \<Rightarrow> object_meta" where
  "set_skip_fn v m = m\<lparr>SkipTx := v\<rparr>"

definition SetSkipTx ::
  "('b, 'v, 'z) host_scheme \<Rightarrow> 'b store \<Rightarrow> string \<Rightarrow> bool \<Rightarrow> 'b store \<times> unit result" where
  "SetSkipTx H s root v = void (mutate H s root (set_skip_fn v))"

definition Touch ::
  "('b, 'v, 'z) host_scheme \<Rightarrow> 'b store \<Rightarrow> string \<Rightarrow> int \<Rightarrow> 'b store \<times> unit result" where
  "Touch H s root at =
     db_update H s (\<lambda>_ s1.
       case getMeta H s1 root of
         Inl e \<Rightarrow> Inl e
       | Inr None \<Rightarrow> Inr (s1, ())
       | Inr (Some m) \<Rightarrow>
           (case putMeta H s1 (m\<lparr>LastAccess := at\<rparr>) of
              Inl e \<Rightarrow> Inl e
            | Inr s2 \<Rightarrow> Inr (s2, ())))"

fun cache_entries_loop ::
  "('b, 'v, 'z) host_scheme \<Rightarrow> (string \<times> 'v) list \<Rightarrow> cache_entry list \<Rightarrow> cache_entry list result" where
  "cache_entries_loop H [] out = Inr out"
| "cache_entries_loop H ((k, v) # rest) out =
     (case unmarshalMeta H v of
        Inl e \<Rightarrow> Inl e
      | Inr m \<Rightarrow>
          cache_entries_loop H rest
            (if Status m = StatusFinalized
             then out @ [\<lparr>CERoot = Root m, CESize = Size m, CELastAccess = LastAccess m\<rparr>]
             else out))"

definition FinalizedCacheEntries ::
  "('b, 'v, 'z) host_scheme \<Rightarrow> 'b store \<Rightarrow> cache_entry list result" where
  "FinalizedCacheEntries H s = db_view s (\<lambda>s1. cache_entries_loop H (bentries H (objects s1)) [])"

section \<open>S3 buckets and the object-key index\<close>

definition s3Composite :: "string \<Rightarrow> string \<Rightarrow> string" where
  "s3Composite bucket key = bucket @ ''/'' @ key"

definition s3Prefix :: "string \<Rightarrow> string" where
  "s3Prefix bucket = bucket @ ''/''"

definition S3CreateBucket ::
  "('b, 'v, 'z) host_scheme \<Rightarrow> 'b store \<Rightarrow> string \<Rightarrow> int \<Rightarrow> 'b store \<times> unit result" where
  "S3CreateBucket H s name now =
     db_update H s (\<lambda>_ s1.
       if bget H (s3_buckets s1) name \<noteq> None then Inl ErrBucketExists
       else
         (case marshalBucket H \<lparr>BName = name, BCreatedAt = now\<rparr> of
            Inl e \<Rightarrow> Inl e
          | Inr raw \<Rightarrow>
              (case bput H (s3_buckets s1) name raw of
                 Inl e \<Rightarrow> Inl e
               | Inr b \<Rightarrow> Inr (s1\<lparr>s3_buckets := b\<rparr>, ()))))"

definition S3BucketExists :: "('b, 'v, 'z) host_scheme \<Rightarrow> 'b store \<Rightarrow> string \<Rightarrow> bool result" where
  "S3BucketExists H s name = db_view s (\<lambda>s1. Inr (bget H (s3_buckets s1) name \<noteq> None))"

fun list_buckets_loop ::
  "('b, 'v, 'z) host_scheme \<Rightarrow> (string \<times> 'v) list \<Rightarrow> bucket_record list
     \<Rightarrow> bucket_record list result" where
  "list_buckets_loop H [] out = Inr out"
| "list_buckets_loop H ((k, v) # rest) out =
     (case unmarshalBucket H v of
        Inl e \<Rightarrow> Inl e
      | Inr r \<Rightarrow> list_buckets_loop H rest (out @ [r]))"

definition S3ListBuckets ::
  "('b, 'v, 'z) host_scheme \<Rightarrow> 'b store \<Rightarrow> bucket_record list result" where
  "S3ListBuckets H s = db_view s (\<lambda>s1. list_buckets_loop H (bentries H (s3_buckets s1)) [])"

text \<open>\<open>Cursor.Seek\<close>: the entries from the first key at or after \<open>p\<close>.\<close>

definition cursor_seek :: "(string \<times> 'v) list \<Rightarrow> string \<Rightarrow> (string \<times> 'v) list" where
  "cursor_seek es p = dropWhile (\<lambda>e. fst e < p) es"

definition bucketHasKeys :: "('b, 'v, 'z) host_scheme \<Rightarrow> 'b store \<Rightarrow> string \<Rightarrow> bool" where
  "bucketHasKeys H s name =
     (case cursor_seek (bentries H (s3_keys s)) (s3Prefix name) of
        [] \<Rightarrow> False
      | e # _ \<Rightarrow> prefix (s3Prefix name) (fst e))"

definition S3DeleteBucket ::
  "('b, 'v, 'z) host_scheme \<Rightarrow> 'b store \<Rightarrow> string \<Rightarrow> 'b store \<times> unit result" where
  "S3DeleteBucket H s name =
     db_update H s (\<lambda>_ s1.
       if bget H (s3_buckets s1) name = None then Inl ErrBucketNotFound
       else if bucketHasKeys H s1 name then Inl ErrBucketNotEmpty
       else
         (case bdelete H (s3_buckets s1) name of
            Inl e \<Rightarrow> Inl e
          | Inr b \<Rightarrow> Inr (s1\<lparr>s3_buckets := b\<rparr>, ())))"

text \<open>
  The delete loop of \<open>S3ForceDeleteBucket\<close> deletes under the cursor. What the cursor
  delivers then is not promised, so the loop may not end: \<open>None\<close> is a loop that does not.
\<close>

partial_function (option) force_delete_loop ::
  "('b, 'v, 'z) host_scheme \<Rightarrow> string \<Rightarrow> 'b \<Rightarrow> (string \<times> 'v) list \<Rightarrow> 'b result option" where
  "force_delete_loop H pfx keys cur =
     (case cur of
        [] \<Rightarrow> Some (Inr keys)
      | e # rest \<Rightarrow>
          if \<not> prefix pfx (fst e) then Some (Inr keys)
          else
            (case bdelete H keys (fst e) of
               Inl er \<Rightarrow> Some (Inl er)
             | Inr keys' \<Rightarrow> force_delete_loop H pfx keys' (bnext_mod H keys' rest)))"

definition S3ForceDeleteBucket ::
  "('b, 'v, 'z) host_scheme \<Rightarrow> 'b store \<Rightarrow> string \<Rightarrow> ('b store \<times> unit result) option" where
  "S3ForceDeleteBucket H s name =
     (if closed s \<or> bget H (s3_buckets s) name = None
      then Some (db_update H s (\<lambda>_ _. Inl ErrBucketNotFound))
      else
        (case force_delete_loop H (s3Prefix name) (s3_keys s)
                (cursor_seek (bentries H (s3_keys s)) (s3Prefix name)) of
           None \<Rightarrow> None
         | Some r \<Rightarrow>
             Some (db_update H s (\<lambda>_ s1.
               case r of
                 Inl e \<Rightarrow> Inl e
               | Inr keys \<Rightarrow>
                   (case bdelete H (s3_buckets s1) name of
                      Inl e \<Rightarrow> Inl e
                    | Inr b \<Rightarrow> Inr (s1\<lparr>s3_keys := keys, s3_buckets := b\<rparr>, ()))))))"

definition S3PutObjectKey ::
  "('b, 'v, 'z) host_scheme \<Rightarrow> 'b store \<Rightarrow> string \<Rightarrow> string \<Rightarrow> string \<Rightarrow> 'b store \<times> unit result" where
  "S3PutObjectKey H s bucket key root =
     db_update H s (\<lambda>_ s1.
       if bget H (s3_buckets s1) bucket = None then Inl ErrBucketNotFound
       else
         (case bput H (s3_keys s1) (s3Composite bucket key) (to_bytes H root) of
            Inl e \<Rightarrow> Inl e
          | Inr b \<Rightarrow> Inr (s1\<lparr>s3_keys := b\<rparr>, ())))"

definition S3GetObjectKey ::
  "('b, 'v, 'z) host_scheme \<Rightarrow> 'b store \<Rightarrow> string \<Rightarrow> string \<Rightarrow> string option result" where
  "S3GetObjectKey H s bucket key =
     db_view s (\<lambda>s1. Inr (map_option (of_bytes H) (bget H (s3_keys s1) (s3Composite bucket key))))"

definition S3DeleteObjectKey ::
  "('b, 'v, 'z) host_scheme \<Rightarrow> 'b store \<Rightarrow> string \<Rightarrow> string \<Rightarrow> 'b store \<times> unit result" where
  "S3DeleteObjectKey H s bucket key =
     db_update H s (\<lambda>_ s1.
       case bdelete H (s3_keys s1) (s3Composite bucket key) of
         Inl e \<Rightarrow> Inl e
       | Inr b \<Rightarrow> Inr (s1\<lparr>s3_keys := b\<rparr>, ()))"

fun list_objects_loop ::
  "('b, 'v, 'z) host_scheme \<Rightarrow> 'b store \<Rightarrow> string \<Rightarrow> (string \<times> 'v) list \<Rightarrow> s3_object list
     \<Rightarrow> s3_object list result" where
  "list_objects_loop H s pfx [] out = Inr out"
| "list_objects_loop H s pfx ((k, v) # rest) out =
     (if \<not> prefix pfx k then Inr out
      else
        (case getMeta H s (of_bytes H v) of
           Inl e \<Rightarrow> Inl e
         | Inr None \<Rightarrow> list_objects_loop H s pfx rest out
         | Inr (Some m) \<Rightarrow>
             list_objects_loop H s pfx rest
               (out @ [\<lparr>ObjKey = drop (length pfx) k, ObjMeta = m\<rparr>])))"

definition S3ListObjects ::
  "('b, 'v, 'z) host_scheme \<Rightarrow> 'b store \<Rightarrow> string \<Rightarrow> s3_object list result" where
  "S3ListObjects H s bucket =
     db_view s (\<lambda>s1. list_objects_loop H s1 (s3Prefix bucket)
       (cursor_seek (bentries H (s3_keys s1)) (s3Prefix bucket)) [])"

section \<open>Reading the queues\<close>

fun list_queue_loop ::
  "('b, 'v, 'z) host_scheme \<Rightarrow> 'b store \<Rightarrow> int \<Rightarrow> (string \<times> 'v) list \<Rightarrow> object_meta list
     \<Rightarrow> object_meta list result" where
  "list_queue_loop H s limit [] out = Inr out"
| "list_queue_loop H s limit ((k, v) # rest) out =
     (if 0 < limit \<and> limit \<le> int (length out) then Inr out
      else
        (case getMeta H s k of
           Inl e \<Rightarrow> Inl e
         | Inr None \<Rightarrow> list_queue_loop H s limit rest out
         | Inr (Some m) \<Rightarrow> list_queue_loop H s limit rest (out @ [m])))"

definition listQueue ::
  "('b, 'v, 'z) host_scheme \<Rightarrow> 'b store \<Rightarrow> ('b store \<Rightarrow> 'b) \<Rightarrow> int \<Rightarrow> object_meta list result" where
  "listQueue H s bucket limit =
     db_view s (\<lambda>s1. list_queue_loop H s1 limit (bentries H (bucket s1)) [])"

definition UploadQueue ::
  "('b, 'v, 'z) host_scheme \<Rightarrow> 'b store \<Rightarrow> int \<Rightarrow> object_meta list result" where
  "UploadQueue H s limit = listQueue H s q_upload limit"

definition FinalizeQueue ::
  "('b, 'v, 'z) host_scheme \<Rightarrow> 'b store \<Rightarrow> int \<Rightarrow> object_meta list result" where
  "FinalizeQueue H s limit = listQueue H s q_finalize limit"

section \<open>Assumptions on the host\<close>

text \<open>
  \<open>store_host\<close> adds to the bbolt laws the documented behaviour of \<open>encoding/json\<close> and of
  the byte conversions. bbolt limits a value to \<open>2^31 - 2\<close> bytes.
\<close>

locale store_host = bolt H for H :: "('b, 'v, 'z) host_scheme" +
  assumes json_meta_rt: "marshalMeta H m = Inr raw \<Longrightarrow> unmarshalMeta H raw = Inr (json_meta m)"
    and json_meta_ok: "meta_times_ok m \<Longrightarrow> \<exists>raw. marshalMeta H m = Inr raw"
    and json_meta_refuses: "marshalMeta H m = Inr raw \<Longrightarrow> meta_times_ok m"
    and json_bucket_rt: "marshalBucket H r = Inr raw' \<Longrightarrow> unmarshalBucket H raw' = Inr (json_bucket r)"
    and json_bucket_ok: "json_time (BCreatedAt r) \<Longrightarrow> \<exists>raw. marshalBucket H r = Inr raw"
    and bytes_rt: "of_bytes H (to_bytes H x) = x"
    and bytes_fit: "length x \<le> 2147483646 \<Longrightarrow> bfits H (to_bytes H x)"

locale store_host_stable = store_host + bolt_stable_cursor H

text \<open>
  A host on a good day: every commit succeeds, the clock shows a year that JSON can write, and
  no record outgrows bbolt's value limit. Claims that an operation succeeds are made here.
\<close>

locale reliable_host = store_host +
  assumes commit_ok: "commit_err H n = None"
    and clock_ok: "json_time (clock H n)"
    and record_fits: "marshalMeta H m = Inr raw \<Longrightarrow> bfits H raw"

section \<open>A reference host\<close>

text \<open>
  Values as a datatype of what was written, on the association lists of \<open>Bolt\<close>; the clock
  starts at a date in 2025, advances a second per transaction and stops after 31 years.
\<close>

datatype bval = VMeta object_meta | VBucket bucket_record | VBytes string

definition ref_host :: "((string \<times> bval) list, bval) host" where
  "ref_host =
     \<lparr>bempty = [], bget = map_of, bput = alist_put,
      bdelete = (\<lambda>b k. Inr (filter (\<lambda>e. fst e \<noteq> k) b)),
      bentries = alist_entries, bnext_mod = (\<lambda>_ rest. rest),
      bfits = (\<lambda>_. True), commit_err = (\<lambda>_. None),
      marshalMeta = (\<lambda>m. if meta_times_ok m then Inr (VMeta (json_meta m)) else Inl (ErrJSON ''json'')),
      unmarshalMeta = (\<lambda>v. case v of VMeta m \<Rightarrow> Inr m | _ \<Rightarrow> Inl (ErrJSON ''json'')),
      marshalBucket = (\<lambda>r. if json_time (BCreatedAt r) then Inr (VBucket (json_bucket r)) else Inl (ErrJSON ''json'')),
      unmarshalBucket = (\<lambda>v. case v of VBucket r \<Rightarrow> Inr r | _ \<Rightarrow> Inl (ErrJSON ''json'')),
      to_bytes = VBytes, of_bytes = (\<lambda>v. case v of VBytes s \<Rightarrow> s | _ \<Rightarrow> []),
      clock = (\<lambda>n. (1750000000 + int (min n 1000000000)) * 1000000000)\<rparr>"

lemma ref_bolt: "bolt_stable_cursor ref_host"
  by (rule alist_bolt_laws) (simp_all add: ref_host_def)

lemma ref_store_host: "store_host ref_host"
  by (rule store_host.intro [OF bolt_stable_cursor.axioms(1) [OF ref_bolt]])
    (auto simp: store_host_axioms_def ref_host_def split: if_splits)

interpretation ref: store_host_stable ref_host
  by (rule store_host_stable.intro) (rule ref_store_host ref_bolt)+

interpretation ref_reliable: reliable_host ref_host
  by (rule reliable_host.intro [OF ref_store_host])
    (auto simp: reliable_host_axioms_def ref_host_def json_time_def)

end
