(* ===== verification/Store_Facts.thy ===== *)
theory Store_Facts
  imports Store
begin

text \<open>
  What each store operation does, seen through lookups: the transaction rule (all or
  nothing), then the effect of every operation on the six buckets. The component theories
  use these facts, never the definitions.
\<close>

section \<open>Transactions\<close>

text \<open>The contents of the database without the transaction counter.\<close>

definition same_data :: "'b store \<Rightarrow> 'b store \<Rightarrow> bool" where
  "same_data s t \<longleftrightarrow>
     objects t = objects s \<and> sha_index t = sha_index s \<and> q_upload t = q_upload s
     \<and> q_finalize t = q_finalize s \<and> s3_buckets t = s3_buckets s \<and> s3_keys t = s3_keys s
     \<and> closed t = closed s"

lemma same_data_refl [simp, intro]: "same_data s s"
  by (simp add: same_data_def)

lemma same_data_txn [simp]: "same_data s (s\<lparr>txn := n\<rparr>)"
  by (simp add: same_data_def)

lemma db_update_cases:
  assumes "db_update H s f = (s', r)"
  obtains (failed) e where "r = Inl e" "same_data s s'"
  | (committed) a where "r = Inr a" "\<not> closed s" "commit_err H (txn s) = None"
      "f (clock H (txn s)) (s\<lparr>txn := Suc (txn s)\<rparr>) = Inr (s', a)"
  using assms
  by (auto simp: db_update_def Let_def split: if_splits sum.splits option.splits)

lemma db_update_failed: "db_update H s f = (s', Inl e) \<Longrightarrow> same_data s s'"
  by (erule db_update_cases) auto

lemma db_update_committed:
  "\<not> closed s \<Longrightarrow> commit_err H (txn s) = None \<Longrightarrow>
   f (clock H (txn s)) (s\<lparr>txn := Suc (txn s)\<rparr>) = Inr (s', a) \<Longrightarrow> db_update H s f = (s', Inr a)"
  by (simp add: db_update_def)

lemma void_eq: "void x = (s, r) \<longleftrightarrow>
   (\<exists>r'. x = (s, r') \<and> r = (case r' of Inl e \<Rightarrow> Inl e | Inr _ \<Rightarrow> Inr ()))"
  by (cases x) (auto simp: void_def split: sum.splits)

lemma void_simps [simp]:
  "void x = (s, Inl e) \<longleftrightarrow> x = (s, Inl e)"
  "void x = (s, Inr u) \<longleftrightarrow> (\<exists>a. x = (s, Inr a))"
  by (cases x; cases "snd x"; auto simp: void_def)+

lemma IncRetries_simps [simp]:
  "IncRetries H s r = (t, Inl e) \<longleftrightarrow> mutate H s r inc_retries_fn = (t, Inl e)"
  "IncRetries H s r = (t, Inr n) \<longleftrightarrow>
     (\<exists>m. mutate H s r inc_retries_fn = (t, Inr m) \<and> n = Retries m)"
  by (auto simp: IncRetries_def split: prod.splits, (rename_tac x, case_tac x; force)+)

section \<open>Lookups\<close>

definition meta_at :: "('b, 'v, 'z) host_scheme \<Rightarrow> 'b store \<Rightarrow> string \<Rightarrow> object_meta option" where
  "meta_at H s root =
     (case bget H (objects s) root of
        None \<Rightarrow> None
      | Some raw \<Rightarrow> (case unmarshalMeta H raw of Inl e \<Rightarrow> None | Inr m \<Rightarrow> Some m))"

definition in_upload :: "status \<Rightarrow> bool" where
  "in_upload st \<longleftrightarrow> st = StatusPending \<or> st = StatusSubmitted"

definition in_finalize :: "status \<Rightarrow> bool" where
  "in_finalize st \<longleftrightarrow> st = StatusOnchain"

lemma in_upload_simps [simp]:
  "in_upload StatusPending" "in_upload StatusSubmitted" "\<not> in_upload StatusOnchain"
  "\<not> in_upload StatusFinalized" "\<not> in_upload StatusFailed" "\<not> in_upload StatusNone"
  "in_finalize StatusOnchain" "\<not> in_finalize StatusPending" "\<not> in_finalize StatusSubmitted"
  "\<not> in_finalize StatusFinalized" "\<not> in_finalize StatusFailed" "\<not> in_finalize StatusNone"
  by (auto simp: in_upload_def in_finalize_def)

lemma getMeta_Some: "getMeta H s root = Inr (Some m) \<Longrightarrow> meta_at H s root = Some m"
  by (auto simp: getMeta_def meta_at_def split: option.splits sum.splits)

lemma getMeta_cong: "objects s = objects t \<Longrightarrow> getMeta H s = getMeta H t"
  by (auto simp: getMeta_def)

lemma meta_at_cong: "objects s = objects t \<Longrightarrow> meta_at H s = meta_at H t"
  by (auto simp: meta_at_def)

lemma lookup_txn [simp]:
  "getMeta H (s\<lparr>txn := n\<rparr>) = getMeta H s"
  "meta_at H (s\<lparr>txn := n\<rparr>) = meta_at H s"
  by (simp_all add: getMeta_def meta_at_def fun_eq_iff)

lemma json_meta_simps [simp]:
  "Root (json_meta m) = json_string (Root m)"
  "SHA256 (json_meta m) = json_string (SHA256 m)"
  "Status (json_meta m) = Status m"
  "Size (json_meta m) = Size m"
  "Retries (json_meta m) = Retries m"
  "SkipTx (json_meta m) = SkipTx m"
  "LastAccess (json_meta m) = LastAccess m"
  "json_meta (json_meta m) = json_meta m"
  "meta_times_ok (json_meta m) = meta_times_ok m"
  by (simp_all add: json_meta_def meta_times_ok_def)

text \<open>The update functions of the transactions, field by field.\<close>

lemma set_status_fn_eq:
  "set_status_fn st tx why m =
     m\<lparr>Status := st, TxHash := (if tx = [] then TxHash m else tx),
       FailReason := (if why = [] then FailReason m else why)\<rparr>"
  by (simp add: set_status_fn_def Let_def)

lemma update_fns_simps [simp]:
  "Root (set_status_fn st tx why m) = Root m"
  "SHA256 (set_status_fn st tx why m) = SHA256 m"
  "Size (set_status_fn st tx why m) = Size m"
  "Status (set_status_fn st tx why m) = st"
  "Retries (set_status_fn st tx why m) = Retries m"
  "SkipTx (set_status_fn st tx why m) = SkipTx m"
  "Root (reenqueue_fn m) = Root m"
  "SHA256 (reenqueue_fn m) = SHA256 m"
  "Size (reenqueue_fn m) = Size m"
  "Status (reenqueue_fn m) = StatusPending"
  "Root (inc_retries_fn m) = Root m"
  "SHA256 (inc_retries_fn m) = SHA256 m"
  "Size (inc_retries_fn m) = Size m"
  "Status (inc_retries_fn m) = Status m"
  "Retries (inc_retries_fn m) = Retries m + 1"
  "Root (set_skip_fn v m) = Root m"
  "SHA256 (set_skip_fn v m) = SHA256 m"
  "Size (set_skip_fn v m) = Size m"
  "Status (set_skip_fn v m) = Status m"
  "SkipTx (set_skip_fn v m) = v"
  by (simp_all add: set_status_fn_eq reenqueue_fn_def inc_retries_fn_def set_skip_fn_def)

section \<open>Effects of the operations\<close>

context store_host
begin

lemma putMeta_ok:
  assumes "putMeta H s m = Inr s'"
  obtains b raw where "s' = s\<lparr>objects := b\<rparr>" "bget H b = (bget H (objects s))(Root m \<mapsto> raw)"
    "unmarshalMeta H raw = Inr (json_meta m)" "meta_times_ok m" "key_ok (Root m)"
proof -
  from assms obtain raw b where "marshalMeta H m = Inr raw" "bput H (objects s) (Root m) raw = Inr b"
    "s' = s\<lparr>objects := b\<rparr>"
    by (auto simp: putMeta_def split: sum.splits)
  then show thesis
    using that json_meta_rt json_meta_refuses get_put put_key by blast
qed

lemma requeue_ok:
  assumes "requeue H s m = Inr s'"
  shows "bget H (q_upload s') = (bget H (q_upload s))
       (Root m := if in_upload (Status m) then Some (to_bytes H []) else None)"
    and "bget H (q_finalize s') = (bget H (q_finalize s))
       (Root m := if in_finalize (Status m) then Some (to_bytes H []) else None)"
    and "objects s' = objects s" and "sha_index s' = sha_index s"
    and "s3_buckets s' = s3_buckets s" and "s3_keys s' = s3_keys s"
    and "closed s' = closed s"
  using assms
  by (cases "Status m"; auto simp: requeue_def Let_def dest!: get_put get_delete
      split: sum.splits)+

text \<open>
  The state after a committed write of the metadata \<open>m\<close>: the record under its root, the
  queues in step with its status, everything else as before.
\<close>

definition wrote_meta :: "'b store \<Rightarrow> object_meta \<Rightarrow> 'b store \<Rightarrow> bool" where
  "wrote_meta s m t \<longleftrightarrow>
     (\<exists>raw. unmarshalMeta H raw = Inr (json_meta m)
        \<and> bget H (objects t) = (bget H (objects s))(Root m \<mapsto> raw))
     \<and> bget H (q_upload t) = (bget H (q_upload s))
          (Root m := if in_upload (Status m) then Some (to_bytes H []) else None)
     \<and> bget H (q_finalize t) = (bget H (q_finalize s))
          (Root m := if in_finalize (Status m) then Some (to_bytes H []) else None)
     \<and> s3_buckets t = s3_buckets s \<and> s3_keys t = s3_keys s
     \<and> meta_times_ok m \<and> key_ok (Root m)"

lemma mutate_cases:
  assumes "mutate H s root fn = (s', r)"
  obtains (failed) e where "r = Inl e" "same_data s s'"
  | (ok) m m' where "r = Inr m'" "meta_at H s root = Some m"
      "m' = (fn m)\<lparr>UpdatedAt := clock H (txn s)\<rparr>" "wrote_meta s m' s'"
      "sha_index s' = sha_index s" "\<not> closed s" "\<not> closed s'"
  using assms unfolding mutate_def
proof (cases rule: db_update_cases)
  case (committed a)
  from committed(4) obtain m s2 where m: "getMeta H (s\<lparr>txn := Suc (txn s)\<rparr>) root = Inr (Some m)"
    and a: "a = (fn m)\<lparr>UpdatedAt := clock H (txn s)\<rparr>"
    and p: "putMeta H (s\<lparr>txn := Suc (txn s)\<rparr>) a = Inr s2" and q: "requeue H s2 a = Inr s'"
    by (auto simp: Let_def split: sum.splits option.splits)
  have at: "meta_at H s root = Some m"
    using getMeta_Some m by simp
  show thesis
    by (rule putMeta_ok [OF p], rule ok [OF committed(1) at a])
      (use committed(2) in \<open>auto simp: wrote_meta_def requeue_ok [OF q]\<close>)
qed (use failed in blast)

lemma meta_at_wrote:
  assumes "wrote_meta s m t"
  shows "meta_at H t r = (if r = Root m then Some (json_meta m) else meta_at H s r)"
  using assms by (auto simp: wrote_meta_def meta_at_def)

lemma CreateObject_cases:
  assumes "CreateObject H s m = (s', r)"
  obtains (failed) e where "r = Inl e" "same_data s s'"
  | (ok) m' where "r = Inr ()" "bget H (objects s) (Root m) = None"
      "m' = m\<lparr>CreatedAt := clock H (txn s), UpdatedAt := clock H (txn s), LastAccess := clock H (txn s)\<rparr>"
      "wrote_meta s m' s'"
      "bget H (sha_index s') = (bget H (sha_index s))(SHA256 m \<mapsto> to_bytes H (Root m))"
      "\<not> closed s" "\<not> closed s'"
  using assms unfolding CreateObject_def
proof (cases rule: db_update_cases)
  case (committed a)
  define m' where "m' = m\<lparr>CreatedAt := clock H (txn s), UpdatedAt := clock H (txn s),
    LastAccess := clock H (txn s)\<rparr>"
  from committed(4) obtain s2 b where n: "bget H (objects s) (Root m) = None"
    and p: "putMeta H (s\<lparr>txn := Suc (txn s)\<rparr>) m' = Inr s2"
    and q: "bput H (sha_index s2) (SHA256 m') (to_bytes H (Root m')) = Inr b"
    and t: "requeue H (s2\<lparr>sha_index := b\<rparr>) m' = Inr s'"
    by (auto simp: Let_def m'_def split: sum.splits if_splits)
  have roots: "Root m' = Root m" "SHA256 m' = SHA256 m" by (simp_all add: m'_def)
  show thesis
    by (rule putMeta_ok [OF p], rule ok [OF _ n m'_def])
      (use committed(1,2) get_put [OF q] in \<open>auto simp: wrote_meta_def roots requeue_ok [OF t]\<close>)
qed (use failed in blast)

lemma Touch_cases:
  assumes "Touch H s root at = (s', r)"
  obtains (failed) e where "r = Inl e" "same_data s s'"
  | (absent) "r = Inr ()" "meta_at H s root = None" "same_data s s'"
  | (ok) m raw where "r = Inr ()" "meta_at H s root = Some m"
      "unmarshalMeta H raw = Inr (json_meta (m\<lparr>LastAccess := at\<rparr>))"
      "bget H (objects s') = (bget H (objects s))(Root m \<mapsto> raw)"
      "meta_times_ok (m\<lparr>LastAccess := at\<rparr>)"
      "s' = s\<lparr>objects := objects s', txn := Suc (txn s)\<rparr>"
  using assms unfolding Touch_def
proof (cases rule: db_update_cases)
  case (committed a)
  show thesis
  proof (cases "getMeta H (s\<lparr>txn := Suc (txn s)\<rparr>) root")
    case (Inr mo)
    show thesis
    proof (cases mo)
      case None
      with Inr have "meta_at H s root = None"
        by (auto simp: getMeta_def meta_at_def split: option.splits sum.splits)
      with committed Inr None absent show thesis by auto
    next
      case (Some m)
      have at: "meta_at H s root = Some m"
        using getMeta_Some Inr Some by simp
      from committed Inr Some have p: "putMeta H (s\<lparr>txn := Suc (txn s)\<rparr>) (m\<lparr>LastAccess := at\<rparr>) = Inr s'"
        by (auto split: sum.splits)
      show thesis
        by (rule putMeta_ok [OF p], rule ok [OF _ at]) (use committed(1) in auto)
    qed
  qed (use committed in auto)
qed (use failed in blast)

end

section \<open>Effects of the S3 index operations\<close>

text \<open>Everything but the named index buckets is as before.\<close>

definition same_objects :: "'b store \<Rightarrow> 'b store \<Rightarrow> bool" where
  "same_objects s t \<longleftrightarrow>
     objects t = objects s \<and> sha_index t = sha_index s \<and> q_upload t = q_upload s
     \<and> q_finalize t = q_finalize s \<and> closed t = closed s"

lemma same_data_objects: "same_data s t \<Longrightarrow> same_objects s t"
  by (simp add: same_data_def same_objects_def)

context store_host
begin

lemma bucketHasKeys_iff:
  "bucketHasKeys H s name \<longleftrightarrow> (\<exists>k v. bget H (s3_keys s) k = Some v \<and> prefix (s3Prefix name) k)"
proof -
  let ?c = "cursor_seek (bentries H (s3_keys s)) (s3Prefix name)"
  have "bucketHasKeys H s name \<longleftrightarrow> takeWhile (\<lambda>e. prefix (s3Prefix name) (fst e)) ?c \<noteq> []"
    by (cases ?c) (auto simp: bucketHasKeys_def)
  also have "\<dots> \<longleftrightarrow> (\<exists>e. e \<in> set (takeWhile (\<lambda>e. prefix (s3Prefix name) (fst e)) ?c))"
    by (metis list.set_sel(1) list.set(1) empty_iff)
  also have "\<dots> \<longleftrightarrow> (\<exists>k v. bget H (s3_keys s) k = Some v \<and> prefix (s3Prefix name) k)"
    using scan_mem by (auto simp: cursor_seek_def)
  finally show ?thesis .
qed

lemma S3CreateBucket_cases:
  assumes "S3CreateBucket H s name now = (s', r)"
  obtains (failed) e where "r = Inl e" "same_data s s'"
  | (ok) raw where "r = Inr ()" "bget H (s3_buckets s) name = None"
      "unmarshalBucket H raw = Inr (json_bucket \<lparr>BName = name, BCreatedAt = now\<rparr>)"
      "bget H (s3_buckets s') = (bget H (s3_buckets s))(name \<mapsto> raw)"
      "s3_keys s' = s3_keys s" "same_objects s s'"
  using assms unfolding S3CreateBucket_def
proof (cases rule: db_update_cases)
  case (committed a)
  then obtain raw b where n: "bget H (s3_buckets s) name = None"
    and m: "marshalBucket H \<lparr>BName = name, BCreatedAt = now\<rparr> = Inr raw"
    and p: "bput H (s3_buckets s) name raw = Inr b"
    and s': "s' = s\<lparr>txn := Suc (txn s), s3_buckets := b\<rparr>"
    by (auto split: sum.splits if_splits)
  show thesis
    by (rule ok [OF _ n json_bucket_rt [OF m]])
      (use committed(1) get_put [OF p] s' in \<open>auto simp: same_objects_def\<close>)
qed (use failed in blast)

lemma S3DeleteBucket_cases:
  assumes "S3DeleteBucket H s name = (s', r)"
  obtains (failed) e where "r = Inl e" "same_data s s'"
  | (ok) "r = Inr ()" "bget H (s3_buckets s) name \<noteq> None"
      "\<not> (\<exists>k v. bget H (s3_keys s) k = Some v \<and> prefix (s3Prefix name) k)"
      "bget H (s3_buckets s') = (bget H (s3_buckets s))(name := None)"
      "s3_keys s' = s3_keys s" "same_objects s s'"
  using assms unfolding S3DeleteBucket_def
proof (cases rule: db_update_cases)
  case (committed a)
  have "bucketHasKeys H (s\<lparr>txn := Suc (txn s)\<rparr>) name = bucketHasKeys H s name"
    by (simp add: bucketHasKeys_def)
  with committed obtain b where n: "bget H (s3_buckets s) name \<noteq> None"
    and k: "\<not> bucketHasKeys H s name"
    and p: "bdelete H (s3_buckets s) name = Inr b"
    and s': "s' = s\<lparr>txn := Suc (txn s), s3_buckets := b\<rparr>"
    by (auto split: sum.splits if_splits)
  show thesis
    by (rule ok [OF _ n k [unfolded bucketHasKeys_iff]])
      (use committed(1) get_delete [OF p] s' in \<open>auto simp: same_objects_def\<close>)
qed (use failed in blast)

lemma S3PutObjectKey_cases:
  assumes "S3PutObjectKey H s bucket key root = (s', r)"
  obtains (failed) e where "r = Inl e" "same_data s s'"
  | (ok) "r = Inr ()" "bget H (s3_buckets s) bucket \<noteq> None"
      "bget H (s3_keys s') = (bget H (s3_keys s))(s3Composite bucket key \<mapsto> to_bytes H root)"
      "s3_buckets s' = s3_buckets s" "same_objects s s'"
  using assms unfolding S3PutObjectKey_def
proof (cases rule: db_update_cases)
  case (committed a)
  then obtain b where n: "bget H (s3_buckets s) bucket \<noteq> None"
    and p: "bput H (s3_keys s) (s3Composite bucket key) (to_bytes H root) = Inr b"
    and s': "s' = s\<lparr>txn := Suc (txn s), s3_keys := b\<rparr>"
    by (auto split: sum.splits if_splits)
  show thesis
    by (rule ok [OF _ n])
      (use committed(1) get_put [OF p] s' in \<open>auto simp: same_objects_def\<close>)
qed (use failed in blast)

lemma S3DeleteObjectKey_cases:
  assumes "S3DeleteObjectKey H s bucket key = (s', r)"
  obtains (failed) e where "r = Inl e" "same_data s s'"
  | (ok) "r = Inr ()"
      "bget H (s3_keys s') = (bget H (s3_keys s))(s3Composite bucket key := None)"
      "s3_buckets s' = s3_buckets s" "same_objects s s'"
  using assms unfolding S3DeleteObjectKey_def
proof (cases rule: db_update_cases)
  case (committed a)
  then obtain b where p: "bdelete H (s3_keys s) (s3Composite bucket key) = Inr b"
    and s': "s' = s\<lparr>txn := Suc (txn s), s3_keys := b\<rparr>"
    by (auto split: sum.splits if_splits)
  show thesis
    by (rule ok) (use committed(1) get_delete [OF p] s' in \<open>auto simp: same_objects_def\<close>)
qed (use failed in blast)

text \<open>
  The force-delete loop, whatever the cursor delivers: it removes keys with the prefix and no
  others.
\<close>

lemma force_delete_loop_only_prefix:
  assumes "force_delete_loop H pfx keys cur = Some r"
  shows "\<forall>keys'. r = Inr keys' \<longrightarrow>
    (\<forall>k. bget H keys' k = bget H keys k \<or> prefix pfx k \<and> bget H keys' k = None)"
proof (rule force_delete_loop.raw_induct
    [where P = "\<lambda>H' pfx keys cur r. H' = H \<longrightarrow> (\<forall>keys'. r = Inr keys' \<longrightarrow>
      (\<forall>k. bget H keys' k = bget H keys k \<or> prefix pfx k \<and> bget H keys' k = None))",
      OF _ assms, THEN mp, OF _ refl])
  fix f and H' :: "('b, 'v, 'z) host_scheme" and pfx keys cur r
  assume IH: "\<And>H' pfx keys cur r. f H' pfx keys cur = Some r \<Longrightarrow> H' = H \<longrightarrow>
      (\<forall>keys'. r = Inr keys' \<longrightarrow>
        (\<forall>k. bget H keys' k = bget H keys k \<or> prefix pfx k \<and> bget H keys' k = None))"
    and eq: "(case cur of [] \<Rightarrow> Some (Inr keys)
      | e # rest \<Rightarrow> if \<not> prefix pfx (fst e) then Some (Inr keys)
          else (case bdelete H' keys (fst e) of Inl er \<Rightarrow> Some (Inl er)
             | Inr keys' \<Rightarrow> f H' pfx keys' (bnext_mod H' keys' rest))) = Some r"
  show "H' = H \<longrightarrow> (\<forall>keys'. r = Inr keys' \<longrightarrow>
      (\<forall>k. bget H keys' k = bget H keys k \<or> prefix pfx k \<and> bget H keys' k = None))"
  proof
    assume H: "H' = H"
    show "\<forall>keys'. r = Inr keys' \<longrightarrow>
      (\<forall>k. bget H keys' k = bget H keys k \<or> prefix pfx k \<and> bget H keys' k = None)"
    proof (cases "\<exists>e rest b. cur = e # rest \<and> prefix pfx (fst e) \<and> bdelete H keys (fst e) = Inr b")
      case True
      then obtain e rest b where c: "cur = e # rest" "prefix pfx (fst e)" "bdelete H keys (fst e) = Inr b"
        by blast
      with eq H have "f H pfx b (bnext_mod H b rest) = Some r" by simp
      from IH [OF this] H get_delete [OF c(3)] c(2) show ?thesis
        by (metis fun_upd_apply)
    next
      case False
      with eq H show ?thesis by (auto split: list.splits if_splits sum.splits)
    qed
  qed
qed

end

section \<open>Reads\<close>

text \<open>Every stored metadata record decodes, so no read of one fails.\<close>

definition decodable :: "('b, 'v, 'z) host_scheme \<Rightarrow> 'b store \<Rightarrow> bool" where
  "decodable H s \<longleftrightarrow> (\<forall>r raw. bget H (objects s) r = Some raw \<longrightarrow> (\<exists>m. unmarshalMeta H raw = Inr m))"

lemma getMeta_decodable: "decodable H s \<Longrightarrow> getMeta H s r = Inr (meta_at H s r)"
  by (fastforce simp: decodable_def getMeta_def meta_at_def split: option.splits sum.splits)

lemma Get_decodable: "decodable H s \<Longrightarrow> \<not> closed s \<Longrightarrow> Get H s r = Inr (meta_at H s r)"
  by (simp add: Get_def db_view_def getMeta_decodable)

lemma list_queue_loop_eq:
  assumes "decodable H s"
  shows "list_queue_loop H s limit es out =
     Inr (out @ (let ms = List.map_filter (\<lambda>e. meta_at H s (fst e)) es
                 in if 0 < limit then take (nat limit - length out) ms else ms))"
proof (induction es arbitrary: out)
  case (Cons e es)
  obtain k v where e: "e = (k, v)" by force
  show ?case
  proof (cases "0 < limit \<and> limit \<le> int (length out)")
    case False
    show ?thesis
    proof (cases "meta_at H s k")
      case None
      with Cons e False show ?thesis
        by (auto simp: getMeta_decodable [OF assms] map_filter_simps nat_le_iff)
    next
      case (Some m)
      have "nat limit - length out = Suc (nat limit - Suc (length out))" if "0 < limit"
        using False that by linarith
      with Some Cons e False show ?thesis
        by (simp add: getMeta_decodable [OF assms] map_filter_simps Let_def)
    qed
  qed (auto simp: e nat_le_iff)
qed (simp add: map_filter_simps)

lemma list_objects_loop_eq:
  assumes "decodable H s"
  shows "list_objects_loop H s pfx es out =
     Inr (out @ List.map_filter
       (\<lambda>e. map_option (\<lambda>m. \<lparr>ObjKey = drop (length pfx) (fst e), ObjMeta = m\<rparr>)
             (meta_at H s (of_bytes H (snd e))))
       (takeWhile (\<lambda>e. prefix pfx (fst e)) es))"
  by (induction es arbitrary: out)
    (auto simp: getMeta_decodable [OF assms] map_filter_simps split: option.splits)

lemma cache_entries_loop_eq:
  assumes "\<forall>e \<in> set es. unmarshalMeta H (snd e) = Inr (g e)"
  shows "cache_entries_loop H es out =
     Inr (out @ map (\<lambda>m. \<lparr>CERoot = Root m, CESize = Size m, CELastAccess = LastAccess m\<rparr>)
            (filter (\<lambda>m. Status m = StatusFinalized) (map g es)))"
  using assms by (induction es arbitrary: out) auto

end
