(* ===== verification/Store_Inv.thy ===== *)
theory Store_Inv
  imports Store_Facts
begin

text \<open>
  The invariants of the metadata database and the proof that every write operation of the
  store keeps them. All components change the database through these operations, each one
  transaction, so what holds here holds under every interleaving of requests and worker.
\<close>

section \<open>Write operations as steps\<close>

datatype store_op =
    OpCreate object_meta
  | OpSetStatus string status string string
  | OpReenqueue string
  | OpIncRetries string
  | OpSetSkipTx string bool
  | OpTouch string int
  | OpCreateBucket string int
  | OpDeleteBucket string
  | OpForceDelete string
  | OpPutKey string string string
  | OpDeleteKey string string
  | OpClose

text \<open>The state after the operation and its error, if any; \<open>None\<close> if it does not return.\<close>

fun store_exec ::
  "('b, 'v, 'z) host_scheme \<Rightarrow> 'b store \<Rightarrow> store_op \<Rightarrow> ('b store \<times> unit result) option" where
  "store_exec H s (OpCreate m) = Some (CreateObject H s m)"
| "store_exec H s (OpSetStatus r st tx why) = Some (SetStatus H s r st tx why)"
| "store_exec H s (OpReenqueue r) = Some (Reenqueue H s r)"
| "store_exec H s (OpIncRetries r) = Some (void (IncRetries H s r))"
| "store_exec H s (OpSetSkipTx r v) = Some (SetSkipTx H s r v)"
| "store_exec H s (OpTouch r at) = Some (Touch H s r at)"
| "store_exec H s (OpCreateBucket n now) = Some (S3CreateBucket H s n now)"
| "store_exec H s (OpDeleteBucket n) = Some (S3DeleteBucket H s n)"
| "store_exec H s (OpForceDelete n) = S3ForceDeleteBucket H s n"
| "store_exec H s (OpPutKey b k r) = Some (S3PutObjectKey H s b k r)"
| "store_exec H s (OpDeleteKey b k) = Some (S3DeleteObjectKey H s b k)"
| "store_exec H s OpClose = Some (Close_store s, Inr ())"

text \<open>
  What the callers guarantee: roots and hashes are hex strings (\<open>object.Service.Put\<close>), a
  bucket name has no slash (it is one segment of the request path), and a key is mapped only
  to an object that exists (\<open>PutObject\<close> maps what it has just ingested, \<open>CopyObject\<close> what
  it has just looked up).
\<close>

fun op_ok :: "('b, 'v, 'z) host_scheme \<Rightarrow> 'b store \<Rightarrow> store_op \<Rightarrow> bool" where
  "op_ok H s (OpCreate m) = (ascii (Root m) \<and> ascii (SHA256 m))"
| "op_ok H s (OpCreateBucket n now) = (CHR ''/'' \<notin> set n)"
| "op_ok H s (OpPutKey b k r) = (meta_at H s r \<noteq> None)"
| "op_ok H s _ = True"

inductive store_step :: "('b, 'v, 'z) host_scheme \<Rightarrow> 'b store \<Rightarrow> 'b store \<Rightarrow> bool"
  for H :: "('b, 'v, 'z) host_scheme" where
  step_op: "store_exec H s p = Some (t, r) \<Longrightarrow> op_ok H s p \<Longrightarrow> store_step H s t"

inductive_simps store_step_iff: "store_step H s t"

definition store_start :: "('b, 'v, 'z) host_scheme \<Rightarrow> 'b store \<Rightarrow> bool" where
  "store_start H s \<longleftrightarrow>
     Open_store H None \<lparr>f_objects = None, f_sha = None, f_upload = None, f_finalize = None,
       f_buckets = None, f_keys = None\<rparr> = Inr s"

definition reachable_store :: "('b, 'v, 'z) host_scheme \<Rightarrow> 'b store \<Rightarrow> bool" where
  "reachable_store H s \<longleftrightarrow> (\<exists>s0. store_start H s0 \<and> (store_step H)\<^sup>*\<^sup>* s0 s)"

lemma reachable_start: "store_start H s \<Longrightarrow> reachable_store H s"
  by (auto simp: reachable_store_def)

lemma reachable_exec:
  "reachable_store H s \<Longrightarrow> op_ok H s p \<Longrightarrow> store_exec H s p = Some x \<Longrightarrow> reachable_store H (fst x)"
  by (cases x) (auto simp: reachable_store_def intro: rtranclp.rtrancl_into_rtrancl step_op)

section \<open>The invariants\<close>

text \<open>
  Each record decodes, under its own root, a valid key; its root and hash survive JSON, and
  its times can be written again.
\<close>

definition meta_inv :: "('b, 'v, 'z) host_scheme \<Rightarrow> 'b store \<Rightarrow> bool" where
  "meta_inv H s \<longleftrightarrow>
     (\<forall>r raw. bget H (objects s) r = Some raw \<longrightarrow>
        (\<exists>m. unmarshalMeta H raw = Inr m \<and> Root m = r \<and> ascii r \<and> ascii (SHA256 m)
             \<and> meta_times_ok m \<and> key_ok r))"

text \<open>The upload queue holds exactly the pending and submitted objects, the finalize queue the onchain ones.\<close>

definition queue_inv :: "('b, 'v, 'z) host_scheme \<Rightarrow> 'b store \<Rightarrow> bool" where
  "queue_inv H s \<longleftrightarrow>
     (\<forall>r. (bget H (q_upload s) r \<noteq> None) = (\<exists>m. meta_at H s r = Some m \<and> in_upload (Status m)))
     \<and> (\<forall>r. (bget H (q_finalize s) r \<noteq> None) = (\<exists>m. meta_at H s r = Some m \<and> in_finalize (Status m)))"

text \<open>The hash index points to an object with that hash, and covers every object.\<close>

definition sha_inv :: "('b, 'v, 'z) host_scheme \<Rightarrow> 'b store \<Rightarrow> bool" where
  "sha_inv H s \<longleftrightarrow>
     (\<forall>x v. bget H (sha_index s) x = Some v \<longrightarrow>
        (\<exists>m. meta_at H s (of_bytes H v) = Some m \<and> SHA256 m = x))
     \<and> (\<forall>r m. meta_at H s r = Some m \<longrightarrow> bget H (sha_index s) (SHA256 m) \<noteq> None)"

text \<open>Registered names have no slash and decode; every key maps to an existing object.\<close>

definition names_inv :: "('b, 'v, 'z) host_scheme \<Rightarrow> 'b store \<Rightarrow> bool" where
  "names_inv H s \<longleftrightarrow>
     (\<forall>n raw. bget H (s3_buckets s) n = Some raw \<longrightarrow>
        CHR ''/'' \<notin> set n \<and> (\<exists>b. unmarshalBucket H raw = Inr b \<and> BName b = json_string n))
     \<and> (\<forall>k v. bget H (s3_keys s) k = Some v \<longrightarrow> meta_at H s (of_bytes H v) \<noteq> None)"

definition store_inv :: "('b, 'v, 'z) host_scheme \<Rightarrow> 'b store \<Rightarrow> bool" where
  "store_inv H s \<longleftrightarrow> meta_inv H s \<and> queue_inv H s \<and> sha_inv H s \<and> names_inv H s"

text \<open>No key outlives its bucket.\<close>

definition orphan_free :: "('b, 'v, 'z) host_scheme \<Rightarrow> 'b store \<Rightarrow> bool" where
  "orphan_free H s \<longleftrightarrow>
     (\<forall>k. bget H (s3_keys s) k \<noteq> None \<longrightarrow>
        (\<exists>b key. k = s3Composite b key \<and> bget H (s3_buckets s) b \<noteq> None))"

lemma meta_inv_decodable: "meta_inv H s \<Longrightarrow> decodable H s"
  by (fastforce simp: meta_inv_def decodable_def)

lemma meta_inv_at:
  "meta_inv H s \<Longrightarrow> meta_at H s r = Some m \<Longrightarrow>
   Root m = r \<and> ascii r \<and> ascii (SHA256 m) \<and> meta_times_ok m \<and> key_ok r"
  by (fastforce simp: meta_inv_def meta_at_def split: option.splits sum.splits)

lemma meta_inv_stored:
  "meta_inv H s \<Longrightarrow> bget H (objects s) r \<noteq> None \<longleftrightarrow> meta_at H s r \<noteq> None"
  by (fastforce simp: meta_inv_def meta_at_def split: option.splits sum.splits)

lemma sha_inv_entry:
  assumes "sha_inv H s" and "bget H (sha_index s) x = Some v"
  obtains m where "meta_at H s (of_bytes H v) = Some m" "SHA256 m = x"
  using assms unfolding sha_inv_def by blast

lemma sha_inv_covers:
  assumes "sha_inv H s" and "meta_at H s r = Some m"
  obtains v where "bget H (sha_index s) (SHA256 m) = Some v"
  using assms unfolding sha_inv_def by blast

lemma same_data_invs:
  assumes "same_data s t"
  shows "store_inv H s \<Longrightarrow> store_inv H t" and "orphan_free H s \<Longrightarrow> orphan_free H t"
proof -
  have m: "meta_at H t = meta_at H s"
    using assms by (simp add: same_data_def meta_at_def fun_eq_iff)
  show "store_inv H s \<Longrightarrow> store_inv H t" "orphan_free H s \<Longrightarrow> orphan_free H t"
    using assms
    by (simp_all add: same_data_def store_inv_def meta_inv_def queue_inv_def sha_inv_def
        names_inv_def orphan_free_def m)
qed

lemma Close_invs [simp]:
  "store_inv H (Close_store s) = store_inv H s"
  "orphan_free H (Close_store s) = orphan_free H s"
proof -
  have "meta_at H (s\<lparr>closed := c\<rparr>) = meta_at H s" for c
    by (simp add: meta_at_def fun_eq_iff)
  then show "store_inv H (Close_store s) = store_inv H s"
    "orphan_free H (Close_store s) = orphan_free H s"
    by (simp_all add: Close_store_def store_inv_def meta_inv_def queue_inv_def sha_inv_def
        names_inv_def orphan_free_def)
qed

section \<open>Preservation\<close>

context store_host
begin

text \<open>
  A committed metadata write keeps the object invariants when it keeps root and hash and the
  hash index still covers the object.
\<close>

lemma wrote_meta_inv:
  assumes w: "wrote_meta s m t" and inv: "store_inv H s"
    and asc: "ascii (Root m)" "ascii (SHA256 m)"
    and sha: "bget H (sha_index t) = (bget H (sha_index s))(SHA256 m \<mapsto> v)"
      "of_bytes H v = Root m \<or> (\<exists>m0. meta_at H s (of_bytes H v) = Some m0 \<and> SHA256 m0 = SHA256 m)"
    and keep: "\<And>m0. meta_at H s (Root m) = Some m0 \<Longrightarrow> SHA256 m0 = SHA256 m"
  shows "store_inv H t"
proof -
  note at = meta_at_wrote [OF w]
  from inv have mi: "meta_inv H s" and qi: "queue_inv H s" and si: "sha_inv H s"
    and ni: "names_inv H s" by (auto simp: store_inv_def)
  have "meta_inv H t"
    using w mi asc by (auto simp: meta_inv_def wrote_meta_def split: if_splits)
  moreover have "queue_inv H t"
    using w qi by (auto simp: queue_inv_def wrote_meta_def at)
  moreover have "sha_inv H t"
    unfolding sha_inv_def
  proof (intro conjI allI impI)
    fix x w
    assume x: "bget H (sha_index t) x = Some w"
    show "\<exists>m1. meta_at H t (of_bytes H w) = Some m1 \<and> SHA256 m1 = x"
    proof (cases "x = SHA256 m")
      case True
      with x sha asc show ?thesis by (auto simp: at)
    next
      case False
      with x sha(1) have "bget H (sha_index s) x = Some w" by simp
      then obtain m0 where "meta_at H s (of_bytes H w) = Some m0" "SHA256 m0 = x"
        using sha_inv_entry [OF si] by blast
      with keep False show ?thesis by (auto simp: at)
    qed
  next
    fix r m1
    assume "meta_at H t r = Some m1"
    then show "bget H (sha_index t) (SHA256 m1) \<noteq> None"
      using asc sha(1) sha_inv_covers [OF si] by (fastforce simp: at split: if_splits)
  qed
  moreover have "names_inv H t"
    using w ni unfolding names_inv_def at by (auto simp: wrote_meta_def)
  ultimately show ?thesis by (simp add: store_inv_def)
qed

lemma mutate_inv:
  assumes run: "mutate H s root fn = (t, r)" and inv: "store_inv H s"
    and keep: "\<And>m. Root (fn m) = Root m" "\<And>m. SHA256 (fn m) = SHA256 m"
  shows "store_inv H t"
  using run
proof (cases rule: mutate_cases)
  case (failed e)
  then show ?thesis using inv same_data_invs by blast
next
  case (ok m m')
  from inv have mi: "meta_inv H s" and si: "sha_inv H s" by (auto simp: store_inv_def)
  have m: "Root m = root" "ascii root" "ascii (SHA256 m)" using meta_inv_at [OF mi ok(2)] by auto
  have m': "Root m' = root" "SHA256 m' = SHA256 m" using ok(3) keep m by auto
  obtain v where v: "bget H (sha_index s) (SHA256 m) = Some v"
    using sha_inv_covers [OF si ok(2)] .
  obtain m0 where m0: "meta_at H s (of_bytes H v) = Some m0" "SHA256 m0 = SHA256 m"
    using sha_inv_entry [OF si v] .
  show ?thesis
  proof (rule wrote_meta_inv [OF ok(4) inv])
    show "bget H (sha_index t) = (bget H (sha_index s))(SHA256 m' \<mapsto> v)"
      using ok(5) v m' by (simp add: fun_upd_idem)
  qed (use m m' m0 ok(2) in auto)
qed

lemma CreateObject_inv:
  assumes run: "CreateObject H s m = (t, r)" and inv: "store_inv H s"
    and asc: "ascii (Root m)" "ascii (SHA256 m)"
  shows "store_inv H t"
  using run
proof (cases rule: CreateObject_cases)
  case (failed e)
  then show ?thesis using inv same_data_invs by blast
next
  case (ok m')
  have m': "Root m' = Root m" "SHA256 m' = SHA256 m" using ok(3) by auto
  have "meta_at H s (Root m) = None" using ok(2) by (simp add: meta_at_def)
  then show ?thesis
    using wrote_meta_inv [OF ok(4) inv, of "to_bytes H (Root m)"] ok(5) asc m'
    by (simp add: bytes_rt)
qed

lemma Touch_inv:
  assumes run: "Touch H s root at = (t, r)" and inv: "store_inv H s"
  shows "store_inv H t"
  using run
proof (cases rule: Touch_cases)
  case (ok m raw)
  from inv have mi: "meta_inv H s" and qi: "queue_inv H s" and si: "sha_inv H s"
    and ni: "names_inv H s" by (auto simp: store_inv_def)
  have m: "Root m = root" "ascii root" "ascii (SHA256 m)" using meta_inv_at [OF mi ok(2)] by auto
  define m2 where "m2 = json_meta (m\<lparr>LastAccess := at\<rparr>)"
  have m2: "Root m2 = root" "SHA256 m2 = SHA256 m" "Status m2 = Status m"
    using m by (simp_all add: m2_def)
  have at_t: "meta_at H t x = (if x = root then Some m2 else meta_at H s x)" for x
    using ok(3,4) m by (simp add: meta_at_def m2_def)
  have eqs: "sha_index t = sha_index s" "q_upload t = q_upload s" "q_finalize t = q_finalize s"
    "s3_buckets t = s3_buckets s" "s3_keys t = s3_keys s"
    by (subst ok(6), simp)+
  have "meta_inv H t" using mi ok(3,4,5) m m2 meta_inv_at [OF mi ok(2)]
    by (auto simp: meta_inv_def m2_def split: if_splits)
  moreover have "queue_inv H t" using qi ok(2) m2 by (auto simp: queue_inv_def eqs at_t)
  moreover have "sha_inv H t" using si ok(2) m2 unfolding sha_inv_def eqs at_t by force
  moreover have "names_inv H t" using ni unfolding names_inv_def eqs at_t by auto
  ultimately show ?thesis by (simp add: store_inv_def)
qed (use inv same_data_invs in blast)+

text \<open>Operations that change only the index keep the object invariants.\<close>

lemma index_step_inv:
  assumes "same_objects s t" and "store_inv H s"
    and "\<And>n raw. bget H (s3_buckets t) n = Some raw \<Longrightarrow>
          bget H (s3_buckets s) n = Some raw \<or>
          CHR ''/'' \<notin> set n \<and> (\<exists>b. unmarshalBucket H raw = Inr b \<and> BName b = json_string n)"
    and "\<And>k v. bget H (s3_keys t) k = Some v \<Longrightarrow>
          bget H (s3_keys s) k = Some v \<or> meta_at H s (of_bytes H v) \<noteq> None"
  shows "store_inv H t"
proof -
  have m: "meta_at H t = meta_at H s"
    using assms(1) by (simp add: same_objects_def meta_at_def fun_eq_iff)
  have "names_inv H t"
    using assms unfolding names_inv_def m store_inv_def by blast
  then show ?thesis
    using assms(1,2)
    by (simp add: store_inv_def meta_inv_def queue_inv_def sha_inv_def m same_objects_def)
qed

lemma S3CreateBucket_inv:
  "S3CreateBucket H s n now = (t, r) \<Longrightarrow> store_inv H s \<Longrightarrow> CHR ''/'' \<notin> set n \<Longrightarrow> store_inv H t"
  by (erule S3CreateBucket_cases)
    (auto simp: json_bucket_def intro: same_data_invs elim!: index_step_inv split: if_splits)

lemma S3DeleteBucket_inv:
  "S3DeleteBucket H s n = (t, r) \<Longrightarrow> store_inv H s \<Longrightarrow> store_inv H t"
  by (erule S3DeleteBucket_cases)
    (auto intro: same_data_invs elim!: index_step_inv split: if_splits)

lemma S3PutObjectKey_inv:
  "S3PutObjectKey H s b k root = (t, r) \<Longrightarrow> store_inv H s \<Longrightarrow> meta_at H s root \<noteq> None \<Longrightarrow>
   store_inv H t"
  by (erule S3PutObjectKey_cases)
    (auto simp: bytes_rt intro: same_data_invs elim!: index_step_inv split: if_splits)

lemma S3DeleteObjectKey_inv:
  "S3DeleteObjectKey H s b k = (t, r) \<Longrightarrow> store_inv H s \<Longrightarrow> store_inv H t"
  by (erule S3DeleteObjectKey_cases)
    (auto intro: same_data_invs elim!: index_step_inv split: if_splits)

end

section \<open>Composite keys\<close>

text \<open>
  With slash-free bucket names, \<open>bucket/key\<close> determines both parts, and the prefix of one
  bucket is no prefix of another bucket's keys.
\<close>

lemma s3Composite_inj:
  "CHR ''/'' \<notin> set b \<Longrightarrow> CHR ''/'' \<notin> set b' \<Longrightarrow>
   s3Composite b k = s3Composite b' k' \<longleftrightarrow> b = b' \<and> k = k'"
  unfolding s3Composite_def
proof (induction b arbitrary: b')
  case Nil
  then show ?case by (cases b') auto
next
  case (Cons c b)
  then show ?case by (cases b') auto
qed

lemma s3Composite_less: "s3Composite b k < s3Composite b k' \<longleftrightarrow> k < k'"
  unfolding s3Composite_def by (induction b) auto

lemma prefix_composite:
  "CHR ''/'' \<notin> set b \<Longrightarrow> CHR ''/'' \<notin> set b' \<Longrightarrow>
   prefix (s3Prefix b) (s3Composite b' k) \<longleftrightarrow> b = b'"
proof -
  assume slash: "CHR ''/'' \<notin> set b" "CHR ''/'' \<notin> set b'"
  have "prefix (s3Prefix b) (s3Composite b' k) \<longleftrightarrow> (\<exists>z. s3Composite b' k = s3Composite b z)"
    by (simp add: prefix_def s3Prefix_def s3Composite_def)
  also have "\<dots> \<longleftrightarrow> b = b'" using s3Composite_inj slash by auto
  finally show ?thesis .
qed

lemma prefix_own_composite [simp]: "prefix (s3Prefix b) (s3Composite b k)"
  by (simp add: prefix_def s3Prefix_def s3Composite_def)

section \<open>Force deletion\<close>

context store_host
begin

lemma S3ForceDeleteBucket_cases:
  assumes "S3ForceDeleteBucket H s name = Some (t, r)"
  obtains (failed) e where "r = Inl e" "same_data s t"
  | (ok) "r = Inr ()" "bget H (s3_buckets s) name \<noteq> None"
      "bget H (s3_buckets t) = (bget H (s3_buckets s))(name := None)"
      "\<forall>k. bget H (s3_keys t) k = bget H (s3_keys s) k
            \<or> prefix (s3Prefix name) k \<and> bget H (s3_keys t) k = None"
      "force_delete_loop H (s3Prefix name) (s3_keys s)
         (cursor_seek (bentries H (s3_keys s)) (s3Prefix name)) = Some (Inr (s3_keys t))"
      "same_objects s t"
proof (cases "closed s \<or> bget H (s3_buckets s) name = None")
  case True
  with assms have "db_update H s (\<lambda>_ _. Inl ErrBucketNotFound) = (t, r)"
    by (simp add: S3ForceDeleteBucket_def)
  then show thesis by (rule db_update_cases) (use failed in auto)
next
  case False
  then obtain q where q: "force_delete_loop H (s3Prefix name) (s3_keys s)
         (cursor_seek (bentries H (s3_keys s)) (s3Prefix name)) = Some q"
    and u: "db_update H s (\<lambda>_ s1. case q of Inl e \<Rightarrow> Inl e
       | Inr keys \<Rightarrow> (case bdelete H (s3_buckets s1) name of Inl e \<Rightarrow> Inl e
           | Inr b \<Rightarrow> Inr (s1\<lparr>s3_keys := keys, s3_buckets := b\<rparr>, ()))) = (t, r)"
    using assms by (auto simp: S3ForceDeleteBucket_def split: if_splits option.splits)
  from u show thesis
  proof (cases rule: db_update_cases)
    case (committed a)
    then obtain keys b where k: "q = Inr keys" "bdelete H (s3_buckets s) name = Inr b"
      and t: "t = s\<lparr>txn := Suc (txn s), s3_keys := keys, s3_buckets := b\<rparr>"
      by (auto split: sum.splits)
    show thesis
      by (rule ok)
        (use committed(1) False q k t get_delete [OF k(2)] force_delete_loop_only_prefix [OF q]
         in \<open>auto simp: same_objects_def\<close>)
  qed (use failed in blast)
qed

lemma S3ForceDeleteBucket_inv:
  "S3ForceDeleteBucket H s n = Some (t, r) \<Longrightarrow> store_inv H s \<Longrightarrow> store_inv H t"
proof (erule S3ForceDeleteBucket_cases)
  assume ok: "bget H (s3_buckets t) = (bget H (s3_buckets s))(n := None)"
    "\<forall>k. bget H (s3_keys t) k = bget H (s3_keys s) k
          \<or> prefix (s3Prefix n) k \<and> bget H (s3_keys t) k = None"
    "same_objects s t" and inv: "store_inv H s"
  show "store_inv H t"
    by (rule index_step_inv [OF ok(3) inv]) (use ok in \<open>auto split: if_splits, metis option.distinct(1)\<close>)
qed (auto intro: same_data_invs)

lemma store_exec_inv:
  assumes "store_exec H s p = Some (t, r)" and "op_ok H s p" and "store_inv H s"
  shows "store_inv H t"
proof (cases p)
  case (OpCreate m)
  then show ?thesis using assms CreateObject_inv by auto
next
  case (OpIncRetries x)
  then obtain r' where "mutate H s x inc_retries_fn = (t, r')"
    using assms by (auto simp: IncRetries_def void_def split: prod.splits)
  then show ?thesis using assms(3) mutate_inv by (auto simp: inc_retries_fn_def)
next
  case (OpTouch x at)
  then show ?thesis using assms Touch_inv by auto
next
  case OpClose
  then show ?thesis using assms by auto
qed (use assms in \<open>auto simp: SetStatus_def Reenqueue_def SetSkipTx_def void_eq set_status_fn_def
      reenqueue_fn_def set_skip_fn_def Let_def
      intro: mutate_inv S3CreateBucket_inv S3DeleteBucket_inv S3ForceDeleteBucket_inv
        S3PutObjectKey_inv S3DeleteObjectKey_inv\<close>)

lemma store_start_inv:
  assumes "store_start H s"
  shows "store_inv H s" and "orphan_free H s" and "\<not> closed s"
  using assms
  by (auto simp: store_start_def Open_store_def create_if_not_exists_def get_empty store_inv_def
      meta_inv_def queue_inv_def sha_inv_def names_inv_def orphan_free_def meta_at_def
      split: option.splits)

end

sublocale store_host \<subseteq> objs: invariant_system "store_start H" "store_step H" "store_inv H"
  by unfold_locales (auto simp: store_step_iff intro: store_start_inv store_exec_inv)

context store_host
begin

lemma reachable_inv: "reachable_store H s \<Longrightarrow> store_inv H s"
  using objs.inv_reachable by (auto simp: reachable_store_def)

text \<open>The upload and finalize queues as read by the worker.\<close>

lemma queue_read:
  assumes inv: "store_inv H s" and open_db: "\<not> closed s"
    and q: "\<forall>r. (bget H (q s) r \<noteq> None) = (\<exists>m. meta_at H s r = Some m \<and> P (Status m))"
  shows "\<exists>ms. listQueue H s q limit = Inr (if 0 < limit then take (nat limit) ms else ms)
           \<and> sorted_wrt (<) (map Root ms)
           \<and> set ms = {m. meta_at H s (Root m) = Some m \<and> P (Status m)}"
proof -
  from inv have mi: "meta_inv H s" by (simp add: store_inv_def)
  define es where "es = bentries H (q s)"
  have at: "\<exists>m. meta_at H s (fst e) = Some m \<and> P (Status m) \<and> Root m = fst e" if "e \<in> set es" for e
    using that q meta_inv_at [OF mi] entries_mem [of "fst e" "snd e"]
    by (metis es_def option.distinct(1) prod.collapse)
  define ms where "ms = map (\<lambda>e. the (meta_at H s (fst e))) es"
  have mf: "List.map_filter (\<lambda>e. meta_at H s (fst e)) xs = map (\<lambda>e. the (meta_at H s (fst e))) xs"
    if "set xs \<subseteq> set es" for xs
    using that by (induction xs) (use at in \<open>force simp: map_filter_simps\<close>)+
  have "listQueue H s q limit = Inr (if 0 < limit then take (nat limit) ms else ms)"
    using mf [of es] open_db
    by (simp add: listQueue_def db_view_def list_queue_loop_eq [OF meta_inv_decodable [OF mi]]
        ms_def es_def Let_def)
  moreover have "map Root ms = map fst es"
    using at by (force simp: ms_def)
  then have "sorted_wrt (<) (map Root ms)"
    using entries_sorted by (simp add: es_def)
  moreover have "set ms = {m. meta_at H s (Root m) = Some m \<and> P (Status m)}"
  proof (intro set_eqI iffI)
    fix m
    assume "m \<in> set ms"
    then show "m \<in> {m. meta_at H s (Root m) = Some m \<and> P (Status m)}"
      using at by (fastforce simp: ms_def)
  next
    fix m
    assume m: "m \<in> {m. meta_at H s (Root m) = Some m \<and> P (Status m)}"
    then obtain v where "bget H (q s) (Root m) = Some v" using q by blast
    then have "(Root m, v) \<in> set es" by (simp add: es_def entries_mem)
    with m show "m \<in> set ms" by (force simp: ms_def)
  qed
  ultimately show ?thesis by blast
qed

text \<open>The eviction candidates: one entry for each finalized object.\<close>

lemma cache_entries_read:
  assumes inv: "store_inv H s" and open_db: "\<not> closed s"
  shows "\<exists>es. FinalizedCacheEntries H s = Inr es \<and> distinct (map CERoot es)
     \<and> set es = {\<lparr>CERoot = Root m, CESize = Size m, CELastAccess = LastAccess m\<rparr> | m.
                   meta_at H s (Root m) = Some m \<and> Status m = StatusFinalized}"
proof -
  from inv have mi: "meta_inv H s" by (simp add: store_inv_def)
  define bs where "bs = bentries H (objects s)"
  define g where "g e = the (meta_at H s (fst e))" for e :: "string \<times> 'v"
  define c where "c m = \<lparr>CERoot = Root m, CESize = Size m, CELastAccess = LastAccess m\<rparr>"
    for m :: object_meta
  define ms where "ms = filter (\<lambda>m. Status m = StatusFinalized) (map g bs)"
  have dec: "unmarshalMeta H (snd e) = Inr (g e) \<and> Root (g e) = fst e
      \<and> meta_at H s (fst e) = Some (g e)" if "e \<in> set bs" for e
    using that mi entries_mem [of "fst e" "snd e" "objects s"]
    by (force simp: bs_def meta_inv_def g_def meta_at_def)
  have "FinalizedCacheEntries H s = Inr (map c ms)"
    using open_db dec cache_entries_loop_eq [of bs H g "[]"]
    by (simp add: FinalizedCacheEntries_def db_view_def bs_def ms_def c_def)
  moreover have roots: "map Root (map g bs) = map fst bs" using dec by auto
  have "distinct (map Root (map g bs))" unfolding roots by (simp add: bs_def entries_distinct)
  then have "distinct (map Root ms)" unfolding ms_def by (rule distinct_map_filter)
  then have "distinct (map CERoot (map c ms))" by (simp add: c_def comp_def)
  moreover have "set ms = {m. meta_at H s (Root m) = Some m \<and> Status m = StatusFinalized}"
  proof (intro set_eqI iffI)
    fix m :: object_meta
    assume "m \<in> set ms"
    then obtain e where "e \<in> set bs" "m = g e" "Status m = StatusFinalized"
      by (auto simp: ms_def)
    with dec [of e] show "m \<in> {m. meta_at H s (Root m) = Some m \<and> Status m = StatusFinalized}"
      by simp
  next
    fix m :: object_meta
    assume m: "m \<in> {m. meta_at H s (Root m) = Some m \<and> Status m = StatusFinalized}"
    then obtain raw where "bget H (objects s) (Root m) = Some raw"
      by (auto simp: meta_at_def split: option.splits)
    then have e: "(Root m, raw) \<in> set bs" by (simp add: bs_def entries_mem)
    moreover have "g (Root m, raw) = m" using dec [OF e] m by simp
    ultimately show "m \<in> set ms" using m unfolding ms_def by force
  qed
  then have "set (map c ms) = {c m | m. meta_at H s (Root m) = Some m \<and> Status m = StatusFinalized}"
    by auto
  ultimately show ?thesis unfolding c_def by blast
qed

text \<open>The listing of a bucket: the objects of its keys, in key order, and no others.\<close>

lemma list_objects_read:
  assumes inv: "store_inv H s" and open_db: "\<not> closed s"
  shows "\<exists>objs. S3ListObjects H s b = Inr objs
           \<and> sorted_wrt (<) (map ObjKey objs)
           \<and> set objs = {ob. \<exists>v. bget H (s3_keys s) (s3Composite b (ObjKey ob)) = Some v
                              \<and> meta_at H s (of_bytes H v) = Some (ObjMeta ob)}"
proof -
  from inv have mi: "meta_inv H s" and ni: "names_inv H s" by (simp_all add: store_inv_def)
  define es where "es = filter (\<lambda>e. prefix (s3Prefix b) (fst e)) (bentries H (s3_keys s))"
  define g where "g e = \<lparr>ObjKey = drop (length (s3Prefix b)) (fst e),
    ObjMeta = the (meta_at H s (of_bytes H (snd e)))\<rparr>" for e
  have mem: "(k, v) \<in> set es \<longleftrightarrow> bget H (s3_keys s) k = Some v \<and> prefix (s3Prefix b) k" for k v
    by (auto simp: es_def entries_mem)
  have at: "\<exists>m. meta_at H s (of_bytes H (snd e)) = Some m" if "e \<in> set es" for e
    using that ni mem [of "fst e" "snd e"] by (auto simp: names_inv_def)
  have mf: "List.map_filter (\<lambda>e. map_option
        (\<lambda>m. \<lparr>ObjKey = drop (length (s3Prefix b)) (fst e), ObjMeta = m\<rparr>)
        (meta_at H s (of_bytes H (snd e)))) xs = map g xs" if "set xs \<subseteq> set es" for xs
    using that by (induction xs) (use at in \<open>force simp: map_filter_simps g_def\<close>)+
  have run: "S3ListObjects H s b = Inr (map g es)"
    using mf [of es] open_db
    by (simp add: S3ListObjects_def db_view_def list_objects_loop_eq [OF meta_inv_decodable [OF mi]]
        cursor_seek_def prefix_scan_eq_filter [OF entries_sorted] es_def)
  have keys: "fst e = s3Composite b (ObjKey (g e))" if "e \<in> set es" for e
    using that mem [of "fst e" "snd e"]
    by (auto simp: g_def prefix_def s3Prefix_def s3Composite_def)
  have "sorted_wrt (<) (map fst es)"
    using entries_sorted [of "s3_keys s"]
    by (auto simp: es_def sorted_wrt_map intro: sorted_wrt_filter)
  then have "sorted_wrt (\<lambda>x y. s3Composite b (ObjKey (g x)) < s3Composite b (ObjKey (g y))) es"
    unfolding sorted_wrt_map by (rule sorted_wrt_mono_rel [rotated]) (use keys in auto)
  then have "sorted_wrt (<) (map ObjKey (map g es))"
    unfolding sorted_wrt_map by (rule sorted_wrt_mono_rel [rotated]) (simp add: s3Composite_less)
  moreover have "set (map g es) = {ob. \<exists>v. bget H (s3_keys s) (s3Composite b (ObjKey ob)) = Some v
                              \<and> meta_at H s (of_bytes H v) = Some (ObjMeta ob)}"
  proof (intro set_eqI iffI)
    fix ob :: s3_object
    assume "ob \<in> set (map g es)"
    then obtain e where e: "e \<in> set es" "ob = g e" by auto
    obtain m where "meta_at H s (of_bytes H (snd e)) = Some m" using at [OF e(1)] by blast
    then have "meta_at H s (of_bytes H (snd e)) = Some (ObjMeta ob)" using e(2) by (simp add: g_def)
    moreover have "bget H (s3_keys s) (fst e) = Some (snd e)"
      using mem [of "fst e" "snd e"] e(1) by simp
    then have "bget H (s3_keys s) (s3Composite b (ObjKey ob)) = Some (snd e)"
      using keys [OF e(1)] e(2) by metis
    ultimately show "ob \<in> {ob. \<exists>v. bget H (s3_keys s) (s3Composite b (ObjKey ob)) = Some v
                              \<and> meta_at H s (of_bytes H v) = Some (ObjMeta ob)}"
      by blast
  next
    fix ob :: s3_object
    assume "ob \<in> {ob. \<exists>v. bget H (s3_keys s) (s3Composite b (ObjKey ob)) = Some v
                              \<and> meta_at H s (of_bytes H v) = Some (ObjMeta ob)}"
    then obtain v where v: "bget H (s3_keys s) (s3Composite b (ObjKey ob)) = Some v"
      "meta_at H s (of_bytes H v) = Some (ObjMeta ob)" by blast
    have "(s3Composite b (ObjKey ob), v) \<in> set es" using v(1) by (simp add: mem)
    moreover have "g (s3Composite b (ObjKey ob), v) = ob"
      using v(2) by (cases ob) (simp add: g_def s3Composite_def s3Prefix_def)
    ultimately show "ob \<in> set (map g es)" by force
  qed
  ultimately show ?thesis using run by blast
qed

end

section \<open>No orphan keys\<close>

text \<open>Every operation but a force deletion leaves each key in a registered bucket, on any host.\<close>

context store_host
begin

lemma orphan_free_same_index:
  "s3_buckets t = s3_buckets s \<Longrightarrow> s3_keys t = s3_keys s \<Longrightarrow> orphan_free H t = orphan_free H s"
  by (simp add: orphan_free_def)

lemma mutate_orphan: "mutate H s r fn = (t, x) \<Longrightarrow> orphan_free H s \<Longrightarrow> orphan_free H t"
  by (erule mutate_cases)
    (auto simp: same_data_def wrote_meta_def orphan_free_same_index [of t s])

lemma delete_bucket_orphan:
  assumes inv: "names_inv H s" "orphan_free H s"
    and n: "bget H (s3_buckets s) name \<noteq> None"
    and b: "bget H (s3_buckets t) = (bget H (s3_buckets s))(name := None)"
    and k: "\<And>k. bget H (s3_keys t) k \<noteq> None \<Longrightarrow>
              bget H (s3_keys s) k \<noteq> None \<and> \<not> prefix (s3Prefix name) k"
  shows "orphan_free H t"
  unfolding orphan_free_def
proof (intro allI impI)
  fix x
  assume "bget H (s3_keys t) x \<noteq> None"
  with k have x: "bget H (s3_keys s) x \<noteq> None" "\<not> prefix (s3Prefix name) x" by auto
  with inv(2) obtain b' key where c: "x = s3Composite b' key" "bget H (s3_buckets s) b' \<noteq> None"
    unfolding orphan_free_def by blast
  with x(2) have "b' \<noteq> name" by auto
  with c b show "\<exists>b key. x = s3Composite b key \<and> bget H (s3_buckets t) b \<noteq> None" by auto
qed

lemma store_exec_orphan:
  assumes run: "store_exec H s p = Some (t, r)" and inv: "store_inv H s" "orphan_free H s"
    and unforced: "\<And>n. p \<noteq> OpForceDelete n"
  shows "orphan_free H t"
proof (cases p)
  case (OpCreate m)
  with run have "CreateObject H s m = (t, r)" by simp
  then show ?thesis using inv
    by (cases rule: CreateObject_cases)
      (auto simp: same_data_def wrote_meta_def orphan_free_same_index [of t s])
next
  case (OpIncRetries x)
  then obtain r' where "mutate H s x inc_retries_fn = (t, r')"
    using run by (auto simp: IncRetries_def void_def split: prod.splits)
  then show ?thesis using mutate_orphan inv by blast
next
  case (OpTouch x at)
  with run have "Touch H s x at = (t, r)" by simp
  then show ?thesis
  proof (cases rule: Touch_cases)
    case (ok m raw)
    have "s3_buckets t = s3_buckets s" "s3_keys t = s3_keys s" by (subst ok(6), simp)+
    then show ?thesis using inv orphan_free_same_index by metis
  qed (use inv same_data_invs in blast)+
next
  case (OpCreateBucket n now)
  with run have "S3CreateBucket H s n now = (t, r)" by simp
  then show ?thesis
  proof (cases rule: S3CreateBucket_cases)
    case (ok raw)
    then show ?thesis using inv unfolding orphan_free_def by (metis fun_upd_apply option.distinct(1))
  qed (use inv same_data_invs in blast)
next
  case (OpDeleteBucket n)
  with run have "S3DeleteBucket H s n = (t, r)" by simp
  then show ?thesis
  proof (cases rule: S3DeleteBucket_cases)
    case ok
    show ?thesis
      by (rule delete_bucket_orphan [OF _ inv(2) ok(2,4)])
        (use inv(1) ok(3) in \<open>simp add: store_inv_def\<close>, use ok(3,5) in \<open>metis not_None_eq\<close>)
  qed (use inv same_data_invs in blast)
next
  case (OpPutKey b k x)
  with run have "S3PutObjectKey H s b k x = (t, r)" by simp
  then show ?thesis
  proof (cases rule: S3PutObjectKey_cases)
    case ok
    then show ?thesis using inv(2) unfolding orphan_free_def
      by (metis fun_upd_apply)
  qed (use inv same_data_invs in blast)
next
  case (OpDeleteKey b k)
  with run have "S3DeleteObjectKey H s b k = (t, r)" by simp
  then show ?thesis
  proof (cases rule: S3DeleteObjectKey_cases)
    case ok
    then show ?thesis using inv(2) unfolding orphan_free_def by (metis fun_upd_apply)
  qed (use inv same_data_invs in blast)
qed (use run inv mutate_orphan unforced in
      \<open>auto simp: SetStatus_def Reenqueue_def SetSkipTx_def void_eq\<close>)

end

text \<open>
  Force deletion removes every key of the bucket only if the cursor survives deletions, so
  this part rests on the extended host.
\<close>

context store_host_stable
begin

lemma force_delete_loop_stable:
  "\<exists>keys'. force_delete_loop H pfx keys cur = Some (Inr keys') \<and>
     (\<forall>k. bget H keys' k =
        (if k \<in> fst ` set (takeWhile (\<lambda>e. prefix pfx (fst e)) cur) then None else bget H keys k))"
proof (induction cur arbitrary: keys)
  case Nil
  then show ?case by (simp add: force_delete_loop.simps)
next
  case (Cons e rest)
  show ?case
  proof (cases "prefix pfx (fst e)")
    case True
    obtain b where b: "bdelete H keys (fst e) = Inr b" using delete_succeeds by blast
    obtain keys' where k: "force_delete_loop H pfx b rest = Some (Inr keys')"
      "\<And>k. bget H keys' k =
        (if k \<in> fst ` set (takeWhile (\<lambda>e. prefix pfx (fst e)) rest) then None else bget H b k)"
      using Cons.IH by blast
    have "force_delete_loop H pfx keys (e # rest) = Some (Inr keys')"
      using True b k(1) by (subst force_delete_loop.simps) (simp add: next_mod_stable)
    with True k(2) get_delete [OF b] show ?thesis by auto
  next
    case False
    then show ?thesis by (simp add: force_delete_loop.simps)
  qed
qed

lemma S3ForceDeleteBucket_all:
  assumes "S3ForceDeleteBucket H s name = Some (t, Inr ())"
  shows "bget H (s3_keys t) k = (if prefix (s3Prefix name) k then None else bget H (s3_keys s) k)"
  using assms
proof (cases rule: S3ForceDeleteBucket_cases)
  case ok
  from force_delete_loop_stable obtain keys' where
    "force_delete_loop H (s3Prefix name) (s3_keys s)
         (cursor_seek (bentries H (s3_keys s)) (s3Prefix name)) = Some (Inr keys')"
    "\<And>k. bget H keys' k =
        (if k \<in> fst ` set (takeWhile (\<lambda>e. prefix (s3Prefix name) (fst e))
           (cursor_seek (bentries H (s3_keys s)) (s3Prefix name))) then None else bget H (s3_keys s) k)"
    by metis
  moreover have "k \<in> fst ` set (takeWhile (\<lambda>e. prefix (s3Prefix name) (fst e))
      (cursor_seek (bentries H (s3_keys s)) (s3Prefix name)))
      \<longleftrightarrow> bget H (s3_keys s) k \<noteq> None \<and> prefix (s3Prefix name) k"
    using scan_mem by (force simp: cursor_seek_def)
  ultimately show ?thesis using ok(5) by auto
qed auto

lemma S3ForceDeleteBucket_returns: "S3ForceDeleteBucket H s name \<noteq> None"
  using force_delete_loop_stable [of "s3Prefix name" "s3_keys s"
      "cursor_seek (bentries H (s3_keys s)) (s3Prefix name)"]
  by (auto simp: S3ForceDeleteBucket_def)

lemma store_exec_orphan_stable:
  assumes run: "store_exec H s p = Some (t, r)" and inv: "store_inv H s" "orphan_free H s"
  shows "orphan_free H t"
proof (cases p)
  case (OpForceDelete n)
  with run have f: "S3ForceDeleteBucket H s n = Some (t, r)" by simp
  then show ?thesis
  proof (cases rule: S3ForceDeleteBucket_cases)
    case ok
    show ?thesis
      by (rule delete_bucket_orphan [OF _ inv(2) ok(2,3)])
        (use inv f ok S3ForceDeleteBucket_all [of s n t] in \<open>auto simp: store_inv_def split: if_splits\<close>)
  qed (use inv same_data_invs in blast)
qed (use run inv in \<open>auto intro!: store_exec_orphan [OF run inv]\<close>)

end

sublocale store_host_stable \<subseteq> index: invariant_system
  "store_start H" "store_step H" "\<lambda>s. store_inv H s \<and> orphan_free H s"
  by unfold_locales
    (auto simp: store_step_iff intro: store_start_inv store_exec_inv store_exec_orphan_stable)

context store_host_stable
begin

lemma reachable_orphan_free: "reachable_store H s \<Longrightarrow> store_inv H s \<and> orphan_free H s"
  using index.inv_reachable by (auto simp: reachable_store_def)

lemma S3ForceDeleteBucket_succeeds:
  assumes "\<not> closed s" and "bget H (s3_buckets s) name \<noteq> None" and "commit_err H (txn s) = None"
  shows "\<exists>t. S3ForceDeleteBucket H s name = Some (t, Inr ())"
proof -
  obtain keys where k: "force_delete_loop H (s3Prefix name) (s3_keys s)
         (cursor_seek (bentries H (s3_keys s)) (s3Prefix name)) = Some (Inr keys)"
    using force_delete_loop_stable by blast
  obtain b where "bdelete H (s3_buckets s) name = Inr b" using delete_succeeds by blast
  with k show ?thesis
    using assms by (simp add: S3ForceDeleteBucket_def db_update_def Let_def)
qed

end

section \<open>Effects of the index operations on lookups\<close>

context store_host
begin

lemma put_key_read:
  assumes "S3PutObjectKey H s b key root = (t, Inr ())"
  shows "bget H (s3_buckets s) b \<noteq> None \<and> \<not> closed s \<and> \<not> closed t
    \<and> bget H (s3_keys t) = (bget H (s3_keys s))(s3Composite b key \<mapsto> to_bytes H root)"
proof -
  have "\<not> closed s" using assms by (auto simp: S3PutObjectKey_def db_update_def)
  with assms show ?thesis
    by (auto elim!: S3PutObjectKey_cases simp: same_objects_def)
qed

lemma delete_bucket_read:
  assumes "\<not> closed s" and "commit_err H (txn s) = None" and "S3DeleteBucket H s b = (t, r)"
  shows "r = (if bget H (s3_buckets s) b = None then Inl ErrBucketNotFound
              else if \<exists>key v. bget H (s3_keys s) (s3Composite b key) = Some v
                then Inl ErrBucketNotEmpty else Inr ())
    \<and> (r = Inr () \<longrightarrow> bget H (s3_buckets t) = (bget H (s3_buckets s))(b := None) \<and> \<not> closed t)"
proof -
  have "(\<exists>k v. bget H (s3_keys s) k = Some v \<and> prefix (s3Prefix b) k) \<longleftrightarrow>
      (\<exists>key v. bget H (s3_keys s) (s3Composite b key) = Some v)"
    by (auto simp: prefix_def s3Prefix_def s3Composite_def)
  moreover have "bucketHasKeys H (s\<lparr>txn := n\<rparr>) b = bucketHasKeys H s b" for n
    by (simp add: bucketHasKeys_def)
  moreover obtain bs where "bdelete H (s3_buckets s) b = Inr bs" using delete_succeeds by blast
  ultimately show ?thesis
    using assms get_delete [of "s3_buckets s" b]
    by (auto simp: S3DeleteBucket_def db_update_def Let_def bucketHasKeys_iff split: if_splits)
qed

lemma force_delete_read:
  assumes "S3ForceDeleteBucket H s b = Some (t, Inr ())"
  shows "bget H (s3_buckets s) b \<noteq> None \<and> \<not> closed s \<and> \<not> closed t \<and> objects t = objects s
    \<and> bget H (s3_buckets t) = (bget H (s3_buckets s))(b := None)
    \<and> (\<forall>k. \<not> prefix (s3Prefix b) k \<longrightarrow> bget H (s3_keys t) k = bget H (s3_keys s) k)"
proof -
  have "\<not> closed s" using assms by (auto simp: S3ForceDeleteBucket_def db_update_def)
  with assms show ?thesis
    by (auto elim!: S3ForceDeleteBucket_cases simp: same_objects_def)
qed

end

section \<open>Success on a reliable host\<close>

context reliable_host
begin

lemma putMeta_succeeds:
  assumes "meta_times_ok m" and "key_ok (Root m)"
  shows "\<exists>s'. putMeta H s m = Inr s'"
proof -
  obtain raw where raw: "marshalMeta H m = Inr raw" using json_meta_ok [OF assms(1)] by blast
  obtain b where "bput H (objects s) (Root m) raw = Inr b"
    using put_succeeds [OF assms(2) record_fits [OF raw]] by blast
  with raw show ?thesis by (simp add: putMeta_def)
qed

lemma requeue_succeeds: "key_ok (Root m) \<Longrightarrow> \<exists>s'. requeue H s m = Inr s'"
proof -
  assume k: "key_ok (Root m)"
  obtain u where u: "bdelete H (q_upload s) (Root m) = Inr u" using delete_succeeds by blast
  obtain f where f: "bdelete H (q_finalize s) (Root m) = Inr f" using delete_succeeds by blast
  have fits: "bfits H (to_bytes H [])" by (rule bytes_fit) simp
  obtain u' where u': "bput H u (Root m) (to_bytes H []) = Inr u'" using put_succeeds [OF k fits] by blast
  obtain f' where f': "bput H f (Root m) (to_bytes H []) = Inr f'" using put_succeeds [OF k fits] by blast
  show ?thesis using u f u' f' by (simp add: requeue_def Let_def)
qed

lemma mutate_succeeds:
  assumes "store_inv H s" and "\<not> closed s" and "meta_at H s root = Some m"
    and "Root (fn m) = Root m" and "CreatedAt (fn m) = CreatedAt m" and "LastAccess (fn m) = LastAccess m"
  shows "\<exists>t. mutate H s root fn = (t, Inr ((fn m)\<lparr>UpdatedAt := clock H (txn s)\<rparr>))"
proof -
  have mi: "meta_inv H s" using assms(1) by (simp add: store_inv_def)
  define a where "a = (fn m)\<lparr>UpdatedAt := clock H (txn s)\<rparr>"
  have at: "Root m = root" "key_ok root" "meta_times_ok m" using meta_inv_at [OF mi assms(3)] by auto
  then have a: "Root a = root" "meta_times_ok a"
    using assms(4-6) clock_ok by (auto simp: a_def meta_times_ok_def)
  then obtain s2 where s2: "putMeta H (s\<lparr>txn := Suc (txn s)\<rparr>) a = Inr s2"
    using putMeta_succeeds at by metis
  obtain s3 where s3: "requeue H s2 a = Inr s3" using requeue_succeeds at a by metis
  have g: "getMeta H (s\<lparr>txn := Suc (txn s)\<rparr>) root = Inr (Some m)"
    using assms(3) getMeta_decodable [OF meta_inv_decodable [OF mi]] by simp
  show ?thesis
    using assms(2) commit_ok g s2 s3 by (simp add: mutate_def db_update_def Let_def a_def)
qed

end

end
