(* ===== verification/Store_Example.thy ===== *)
theory Store_Example
  imports Store_Inv
begin

text \<open>
  An example run of the store on the reference host and the equations that evaluate
  operations there. The witnesses of the property theories instantiate their theorems at its
  states.
\<close>

section \<open>An example run\<close>

text \<open>
  On the reference host: create an object, register a bucket, map a key to the object, and
  hand the object to the chain.
\<close>

definition ex_start :: "(string \<times> bval) list store" where
  "ex_start =
     \<lparr>objects = [], sha_index = [], q_upload = [], q_finalize = [], s3_buckets = [],
      s3_keys = [], txn = 1, closed = False\<rparr>"

definition ex_obj :: object_meta where
  "ex_obj =
     zero_meta\<lparr>Root := ''0x11'', SHA256 := ''ab'', Size := 3, Status := StatusPending\<rparr>"

definition ex_created :: "(string \<times> bval) list store" where
  "ex_created = fst (CreateObject ref_host ex_start ex_obj)"

definition ex_bucket :: "(string \<times> bval) list store" where
  "ex_bucket = fst (S3CreateBucket ref_host ex_created ''docs'' 0)"

definition ex_mapped :: "(string \<times> bval) list store" where
  "ex_mapped = fst (S3PutObjectKey ref_host ex_bucket ''docs'' ''a/b'' ''0x11'')"

definition ex_onchain :: "(string \<times> bval) list store" where
  "ex_onchain = fst (SetStatus ref_host ex_mapped ''0x11'' StatusOnchain ''0xfe'' [])"

lemmas ex_defs = ex_onchain_def ex_mapped_def ex_bucket_def ex_created_def ex_obj_def ex_start_def

text \<open>The equations that run an operation on the reference host.\<close>

lemmas store_eval = ref_host_def db_update_def db_view_def CreateObject_def putMeta_def getMeta_def
  requeue_def Let_def mutate_def void_def SetStatus_def set_status_fn_def S3CreateBucket_def
  S3PutObjectKey_def s3Composite_def s3Prefix_def alist_put_def max_key_size_def meta_times_ok_def
  json_time_def json_meta_def json_bucket_def zero_meta_def zero_time_def meta_at_def

lemma ex_start: "store_start ref_host ex_start"
  by (simp add: store_start_def Open_store_def create_if_not_exists_def ref_host_def ex_start_def)

lemma ex_meta_created: "\<exists>m. meta_at ref_host ex_bucket ''0x11'' = Some m"
  by (simp add: ex_defs store_eval)

lemma ex_reachable:
  "reachable_store ref_host ex_created" "reachable_store ref_host ex_bucket"
  "reachable_store ref_host ex_mapped" "reachable_store ref_host ex_onchain"
proof -
  show c: "reachable_store ref_host ex_created"
    unfolding ex_created_def
    by (rule reachable_exec [OF reachable_start [OF ex_start], of "OpCreate ex_obj"])
      (simp_all add: ex_obj_def zero_meta_def)
  show b: "reachable_store ref_host ex_bucket"
    unfolding ex_bucket_def
    by (rule reachable_exec [OF c, of "OpCreateBucket ''docs'' 0"]) simp_all
  show m: "reachable_store ref_host ex_mapped"
    unfolding ex_mapped_def
    by (rule reachable_exec [OF b, of "OpPutKey ''docs'' ''a/b'' ''0x11''"])
      (use ex_meta_created in simp_all)
  show "reachable_store ref_host ex_onchain"
    unfolding ex_onchain_def
    by (rule reachable_exec [OF m, of "OpSetStatus ''0x11'' StatusOnchain ''0xfe'' []"]) simp_all
qed

lemma ex_open: "\<not> closed ex_mapped" "\<not> closed ex_onchain"
  by (simp_all add: ex_defs store_eval)

lemma ex_onchain_status: "\<exists>m. meta_at ref_host ex_onchain ''0x11'' = Some m \<and> Status m = StatusOnchain"
  by (simp add: ex_defs store_eval)

end
