(* ===== verification/Store_Props.thy ===== *)
theory Store_Props
  imports Store_Example
begin

text \<open>
  The properties of the store, over every database state that transactions can reach from an
  empty file.
\<close>

section \<open>Effects on reachable states\<close>

context store_host
begin

lemma created_read:
  assumes "reachable_store H s" and "ascii (Root m)" and "ascii (SHA256 m)"
    and "CreateObject H s m = (t, Inr ())"
    and "m' = json_meta (m\<lparr>CreatedAt := clock H (txn s), UpdatedAt := clock H (txn s),
      LastAccess := clock H (txn s)\<rparr>)"
  shows "meta_at H s (Root m) = None" and "Get H t (Root m) = Inr (Some m')"
    and "BySHA256 H t (SHA256 m) = Inr (Some m')"
    and "x \<noteq> Root m \<Longrightarrow> Get H t x = Get H s x"
proof -
  have "store_inv H s" "store_inv H t"
    using reachable_inv CreateObject_inv assms by metis+
  then have dec: "decodable H s" "decodable H t"
    by (auto simp: store_inv_def meta_inv_decodable)
  from assms(4) have "meta_at H s (Root m) = None \<and> Get H t (Root m) = Inr (Some m')
    \<and> BySHA256 H t (SHA256 m) = Inr (Some m') \<and> (x \<noteq> Root m \<longrightarrow> Get H t x = Get H s x)"
  proof (cases rule: CreateObject_cases)
    case (ok m2)
    have "BySHA256 H t (SHA256 m) = getMeta H t (Root m)"
      using ok(5,7) bytes_rt by (simp add: BySHA256_def db_view_def)
    then show ?thesis
      using ok assms(5) meta_at_wrote [OF ok(4)]
      by (auto simp: Get_decodable dec getMeta_decodable meta_at_def)
  qed simp
  then show "meta_at H s (Root m) = None" "Get H t (Root m) = Inr (Some m')"
    "BySHA256 H t (SHA256 m) = Inr (Some m')" "x \<noteq> Root m \<Longrightarrow> Get H t x = Get H s x"
    by auto
qed

lemma mutated_read:
  assumes "store_inv H s" and "mutate H s root fn = (t, Inr a)" and "\<And>m. Root (fn m) = Root m"
  shows "\<exists>m. meta_at H s root = Some m
       \<and> a = (fn m)\<lparr>UpdatedAt := clock H (txn s)\<rparr>
       \<and> meta_at H t root = Some (json_meta a)
       \<and> (\<forall>x. x \<noteq> root \<longrightarrow> meta_at H t x = meta_at H s x)
       \<and> sha_index t = sha_index s \<and> s3_buckets t = s3_buckets s \<and> s3_keys t = s3_keys s"
  using assms(2)
proof (cases rule: mutate_cases)
  case (ok m m')
  have mi: "meta_inv H s" using assms(1) by (simp add: store_inv_def)
  have "Root m' = root" using ok(3) meta_inv_at [OF mi ok(2)] assms(3) by simp
  then show ?thesis
    using ok(1,2,3,5) meta_at_wrote [OF ok(4)] ok(4) by (auto simp: wrote_meta_def)
qed simp

end

section \<open>Object metadata and queues\<close>

text \<open>
  C8: The task queues never disagree with the object records. In every database state that
  any sequence of store transactions can reach, a root is in the upload queue exactly when
  its object is pending or submitted, and in the finalize queue exactly when it is onchain.
\<close>

theorem queues_match_status:
  assumes "store_host H" and "reachable_store H s"
  shows "(bget H (q_upload s) r \<noteq> None \<longleftrightarrow>
            (\<exists>m. meta_at H s r = Some m \<and> (Status m = StatusPending \<or> Status m = StatusSubmitted)))
       \<and> (bget H (q_finalize s) r \<noteq> None \<longleftrightarrow>
            (\<exists>m. meta_at H s r = Some m \<and> Status m = StatusOnchain))"
  using store_host.reachable_inv [OF assms]
  by (simp add: store_inv_def queue_inv_def in_upload_def in_finalize_def)

theorem queues_match_status_witness:
  "bget ref_host (q_finalize ex_onchain) ''0x11'' \<noteq> None
   \<and> bget ref_host (q_upload ex_onchain) ''0x11'' = None"
  using queues_match_status [OF ref_store_host ex_reachable(4), of "''0x11''"] ex_onchain_status
  by auto

lemma ex_host_commit: "commit_err ref_host n = None"
  by (simp add: ref_host_def)

text \<open>
  What the worker reads is exactly the outstanding work. On every reachable open database
  \<open>UploadQueue\<close> succeeds and returns the metadata of all pending and submitted objects,
  each once, in ascending root order, cut to \<open>limit\<close> when the limit is positive;
  \<open>FinalizeQueue\<close> returns the onchain ones in the same way.
\<close>

theorem queues_read_all_work:
  assumes "store_host H" and "reachable_store H s" and "\<not> closed s"
  shows "(\<exists>ms. UploadQueue H s limit = Inr (if 0 < limit then take (nat limit) ms else ms)
            \<and> sorted_wrt (<) (map Root ms)
            \<and> set ms = {m. meta_at H s (Root m) = Some m
                        \<and> (Status m = StatusPending \<or> Status m = StatusSubmitted)})
       \<and> (\<exists>ms. FinalizeQueue H s limit = Inr (if 0 < limit then take (nat limit) ms else ms)
            \<and> sorted_wrt (<) (map Root ms)
            \<and> set ms = {m. meta_at H s (Root m) = Some m \<and> Status m = StatusOnchain})"
proof -
  note inv = store_host.reachable_inv [OF assms(1,2)]
  then have q: "queue_inv H s" by (simp add: store_inv_def)
  from q store_host.queue_read [OF assms(1) inv assms(3), of q_upload in_upload limit]
    store_host.queue_read [OF assms(1) inv assms(3), of q_finalize in_finalize limit]
  show ?thesis
    by (auto simp: queue_inv_def UploadQueue_def FinalizeQueue_def in_upload_def in_finalize_def)
qed

theorem queues_read_all_work_witness:
  "\<exists>m. FinalizeQueue ref_host ex_onchain 1 = Inr [m] \<and> Root m = ''0x11''"
proof -
  obtain ms where ms: "FinalizeQueue ref_host ex_onchain 1 = Inr (take 1 ms)"
    "set ms = {m. meta_at ref_host ex_onchain (Root m) = Some m \<and> Status m = StatusOnchain}"
    using queues_read_all_work [OF ref_store_host ex_reachable(4) ex_open(2), of 1] by auto
  obtain m where m: "meta_at ref_host ex_onchain ''0x11'' = Some m" "Status m = StatusOnchain"
    using ex_onchain_status by blast
  have only: "Root x = ''0x11''" if "meta_at ref_host ex_onchain (Root x) = Some x" for x
    using that by (simp add: ex_defs store_eval split: if_splits)
  have "Root m = ''0x11''"
    using m by (simp add: ex_defs store_eval) (metis (no_types) object_meta.select_convs(1))
  then have "m \<in> set ms" using m ms(2) by auto
  then obtain x xs where "ms = x # xs" by (cases ms) auto
  moreover have "Root x = ''0x11''" using ms(2) only calculation by auto
  ultimately show ?thesis using ms(1) by auto
qed

text \<open>
  C31: Every write operation of the store is all or nothing: when it returns an error, none of
  the six buckets has changed, whatever the error (a missing object, a full disk at commit, a
  key bbolt refuses, a closed database).
\<close>

theorem failed_operation_changes_nothing:
  assumes "store_exec H s p = Some (t, Inl e)"
  shows "objects t = objects s \<and> sha_index t = sha_index s \<and> q_upload t = q_upload s
       \<and> q_finalize t = q_finalize s \<and> s3_buckets t = s3_buckets s \<and> s3_keys t = s3_keys s"
proof -
  have m: "same_data s t" if "mutate H s x fn = (t, Inl e)" for x fn
    using that by (auto simp: mutate_def dest: db_update_failed)
  have "same_data s t"
  proof (cases p)
    case (OpForceDelete n)
    with assms show ?thesis
      by (auto simp: S3ForceDeleteBucket_def dest!: db_update_failed split: if_splits option.splits)
  qed (use assms m in \<open>auto simp: CreateObject_def SetStatus_def Reenqueue_def SetSkipTx_def
        Touch_def S3CreateBucket_def S3DeleteBucket_def S3PutObjectKey_def
        S3DeleteObjectKey_def Close_store_def dest!: db_update_failed\<close>)
  then show ?thesis by (simp add: same_data_def)
qed

theorem failed_operation_changes_nothing_witness:
  "\<exists>t. store_exec ref_host ex_mapped (OpDeleteBucket ''docs'') = Some (t, Inl ErrBucketNotEmpty)
      \<and> s3_keys t = s3_keys ex_mapped"
proof -
  have "\<exists>t. store_exec ref_host ex_mapped (OpDeleteBucket ''docs'') = Some (t, Inl ErrBucketNotEmpty)"
    by (simp add: ex_defs store_eval S3DeleteBucket_def bucketHasKeys_def cursor_seek_def
        alist_entries_def)
  then show ?thesis using failed_operation_changes_nothing by metis
qed

text \<open>
  \<open>CreateObject\<close> inserts exactly one record. A successful call on a reachable database
  found no object under the root; afterwards \<open>Get\<close> by root and \<open>BySHA256\<close> by hash both
  return the record as JSON stores it, with the three times set to the transaction's clock,
  and every other object is as before. A call for a root that exists fails with
  \<open>ErrExists\<close>.
\<close>

theorem create_object_effect:
  assumes "store_host H" and "reachable_store H s" and "\<not> closed s"
    and "ascii (Root m)" and "ascii (SHA256 m)" and "CreateObject H s m = (t, r)"
  shows "(meta_at H s (Root m) \<noteq> None \<longrightarrow> r = Inl ErrExists)
       \<and> (r = Inr () \<longrightarrow>
            (let now = clock H (txn s);
                 m' = json_meta (m\<lparr>CreatedAt := now, UpdatedAt := now, LastAccess := now\<rparr>)
             in meta_at H s (Root m) = None
                \<and> Get H t (Root m) = Inr (Some m')
                \<and> BySHA256 H t (SHA256 m) = Inr (Some m')
                \<and> (\<forall>x. x \<noteq> Root m \<longrightarrow> Get H t x = Get H s x)))"
proof (intro conjI impI)
  have "meta_inv H s"
    using store_host.reachable_inv [OF assms(1,2)] by (simp add: store_inv_def)
  moreover assume "meta_at H s (Root m) \<noteq> None"
  ultimately have "bget H (objects s) (Root m) \<noteq> None" using meta_inv_stored by blast
  then show "r = Inl ErrExists"
    using assms(3,6) by (auto simp: CreateObject_def db_update_def)
next
  assume "r = Inr ()"
  with assms(6) have "CreateObject H s m = (t, Inr ())" by simp
  from store_host.created_read [OF assms(1,2,4,5) this refl]
  show "let now = clock H (txn s);
            m' = json_meta (m\<lparr>CreatedAt := now, UpdatedAt := now, LastAccess := now\<rparr>)
        in meta_at H s (Root m) = None
           \<and> Get H t (Root m) = Inr (Some m')
           \<and> BySHA256 H t (SHA256 m) = Inr (Some m')
           \<and> (\<forall>x. x \<noteq> Root m \<longrightarrow> Get H t x = Get H s x)"
    by (simp add: Let_def)
qed

theorem create_object_effect_witness:
  "\<exists>m'. Get ref_host ex_created ''0x11'' = Inr (Some m') \<and> Size m' = 3
       \<and> BySHA256 ref_host ex_created ''ab'' = Inr (Some m')"
proof -
  have run: "CreateObject ref_host ex_start ex_obj = (ex_created, Inr ())"
    by (simp add: ex_defs store_eval)
  show ?thesis
    using create_object_effect [OF ref_store_host reachable_start [OF ex_start] _ _ _ run]
    by (simp add: ex_obj_def ex_start_def zero_meta_def Let_def)
qed

text \<open>
  \<open>SetStatus\<close> is precise. A successful call on a reachable database replaces the status
  and the update time of that object, the transaction hash and the failure reason only when
  the argument is non-empty, and changes nothing else: not the other objects, not the hash
  index, not the S3 index.
\<close>

theorem set_status_effect:
  assumes "store_host H" and "reachable_store H s"
    and "SetStatus H s root st txHash failReason = (t, Inr ())"
  shows "\<exists>m. meta_at H s root = Some m
       \<and> meta_at H t root = Some (json_meta (m\<lparr>Status := st, UpdatedAt := clock H (txn s),
            TxHash := (if txHash = [] then TxHash m else txHash),
            FailReason := (if failReason = [] then FailReason m else failReason)\<rparr>))
       \<and> (\<forall>x. x \<noteq> root \<longrightarrow> meta_at H t x = meta_at H s x)
       \<and> sha_index t = sha_index s \<and> s3_buckets t = s3_buckets s \<and> s3_keys t = s3_keys s"
proof -
  from assms(3) obtain a where run: "mutate H s root (set_status_fn st txHash failReason) = (t, Inr a)"
    by (auto simp: SetStatus_def)
  from store_host.mutated_read [OF assms(1) store_host.reachable_inv [OF assms(1,2)] run]
  obtain m where m: "meta_at H s root = Some m"
    "a = (set_status_fn st txHash failReason m)\<lparr>UpdatedAt := clock H (txn s)\<rparr>"
    "meta_at H t root = Some (json_meta a)" "\<forall>x. x \<noteq> root \<longrightarrow> meta_at H t x = meta_at H s x"
    "sha_index t = sha_index s" "s3_buckets t = s3_buckets s" "s3_keys t = s3_keys s"
    by auto
  have a: "a = m\<lparr>Status := st, UpdatedAt := clock H (txn s),
            TxHash := (if txHash = [] then TxHash m else txHash),
            FailReason := (if failReason = [] then FailReason m else failReason)\<rparr>"
    unfolding m(2) set_status_fn_eq by simp
  show ?thesis
    by (rule exI [of _ m], intro conjI) (rule m, rule m(3) [unfolded a], rule m, rule m, rule m, rule m)
qed

theorem set_status_effect_witness:
  "\<exists>m. meta_at ref_host ex_onchain ''0x11'' = Some m \<and> Status m = StatusOnchain \<and> TxHash m = ''0xfe''"
proof -
  have "SetStatus ref_host ex_mapped ''0x11'' StatusOnchain ''0xfe'' [] = (ex_onchain, Inr ())"
    by (simp add: ex_defs store_eval)
  from set_status_effect [OF ref_store_host ex_reachable(3) this] show ?thesis
    by (auto simp: json_meta_def)
qed

text \<open>
  Deduplication by hash is exact. On every reachable open database \<open>BySHA256\<close> returns an
  object only if its recorded hash is the one asked for and \<open>Get\<close> by its root returns the
  same record, and it returns nothing only if no object has that hash.
\<close>

theorem by_sha256_exact:
  assumes "store_host H" and "reachable_store H s" and "\<not> closed s"
  shows "\<exists>mo. BySHA256 H s x = Inr mo
       \<and> (\<forall>m. mo = Some m \<longrightarrow> SHA256 m = x \<and> Get H s (Root m) = Inr (Some m))
       \<and> (mo = None \<longrightarrow> (\<forall>r m. Get H s r = Inr (Some m) \<longrightarrow> SHA256 m \<noteq> x))"
proof -
  have inv: "meta_inv H s" "sha_inv H s"
    using store_host.reachable_inv [OF assms(1,2)] by (simp_all add: store_inv_def)
  note dec = meta_inv_decodable [OF inv(1)]
  show ?thesis
  proof (cases "bget H (sha_index s) x")
    case None
    have "SHA256 m \<noteq> x" if "meta_at H s r = Some m" for r m
      using None sha_inv_covers [OF inv(2) that] by (metis option.distinct(1))
    with None show ?thesis using assms(3)
      by (simp add: BySHA256_def db_view_def Get_decodable [OF dec])
  next
    case (Some v)
    then obtain m where m: "meta_at H s (of_bytes H v) = Some m" "SHA256 m = x"
      using sha_inv_entry [OF inv(2)] by blast
    with meta_inv_at [OF inv(1) m(1)] Some assms(3) show ?thesis
      by (auto simp: BySHA256_def db_view_def getMeta_decodable [OF dec] Get_decodable [OF dec])
  qed
qed

theorem by_sha256_exact_witness:
  "BySHA256 ref_host ex_mapped ''cd'' = Inr None"
proof -
  have "bget ref_host (sha_index ex_mapped) ''cd'' = None"
    by (simp add: ex_defs store_eval)
  then show ?thesis
    using by_sha256_exact [OF ref_store_host ex_reachable(3) ex_open(1), of "''cd''"] ex_open(1)
    by (auto simp: BySHA256_def db_view_def)
qed

section \<open>S3 buckets and keys\<close>

text \<open>
  Listing a bucket is exact. On every reachable open database \<open>S3ListObjects\<close>
  returns, in ascending byte order of the keys, exactly the pairs of an object key of this
  bucket and the metadata of the object it maps to; no mapping is dropped, and no key of
  another bucket appears.
\<close>

theorem list_objects_exact:
  assumes "store_host H" and "reachable_store H s" and "\<not> closed s"
  shows "\<exists>objs. S3ListObjects H s b = Inr objs
       \<and> sorted_wrt (<) (map ObjKey objs)
       \<and> set objs = {ob. \<exists>root. S3GetObjectKey H s b (ObjKey ob) = Inr (Some root)
                              \<and> Get H s root = Inr (Some (ObjMeta ob))}
       \<and> (\<forall>key root. S3GetObjectKey H s b key = Inr (Some root) \<longrightarrow> key \<in> ObjKey ` set objs)"
proof -
  note inv = store_host.reachable_inv [OF assms(1,2)]
  then have dec: "decodable H s" by (simp add: store_inv_def meta_inv_decodable)
  have key: "S3GetObjectKey H s b k = Inr (Some root) \<longleftrightarrow>
      (\<exists>v. bget H (s3_keys s) (s3Composite b k) = Some v \<and> of_bytes H v = root)" for k root
    using assms(3) by (simp add: S3GetObjectKey_def db_view_def)
  have "(\<exists>v. bget H (s3_keys s) (s3Composite b k) = Some v \<and> meta_at H s (of_bytes H v) = Some m)
      \<longleftrightarrow> (\<exists>root. S3GetObjectKey H s b k = Inr (Some root) \<and> Get H s root = Inr (Some m))" for k m
    by (auto simp: key Get_decodable [OF dec assms(3)])
  with store_host.list_objects_read [OF assms(1) inv assms(3), of b]
  obtain objs where objs: "S3ListObjects H s b = Inr objs" "sorted_wrt (<) (map ObjKey objs)"
    "set objs = {ob. \<exists>root. S3GetObjectKey H s b (ObjKey ob) = Inr (Some root)
                              \<and> Get H s root = Inr (Some (ObjMeta ob))}"
    by auto
  have "k \<in> ObjKey ` set objs" if r: "S3GetObjectKey H s b k = Inr (Some root)" for k root
  proof -
    obtain v where v: "bget H (s3_keys s) (s3Composite b k) = Some v" "of_bytes H v = root"
      using r by (auto simp: key)
    then have "meta_at H s root \<noteq> None" using inv by (auto simp: store_inv_def names_inv_def)
    then obtain m where "Get H s root = Inr (Some m)" by (auto simp: Get_decodable [OF dec assms(3)])
    with r have "\<lparr>ObjKey = k, ObjMeta = m\<rparr> \<in> set objs" by (simp add: objs(3))
    then show ?thesis by force
  qed
  with objs show ?thesis by blast
qed

theorem list_objects_exact_witness:
  "\<exists>objs. S3ListObjects ref_host ex_mapped ''docs'' = Inr objs \<and> ''a/b'' \<in> ObjKey ` set objs"
proof -
  have "S3GetObjectKey ref_host ex_mapped ''docs'' ''a/b'' = Inr (Some ''0x11'')"
    by (simp add: ex_defs store_eval S3GetObjectKey_def)
  then show ?thesis
    using list_objects_exact [OF ref_store_host ex_reachable(3) ex_open(1), of "''docs''"] by blast
qed

text \<open>
  The index behaves as a map over pairs. After a successful \<open>S3PutObjectKey\<close> on a
  reachable database, \<open>S3GetObjectKey\<close> returns the root for that bucket and key, and every
  other pair of a slash-free bucket name and a key, however its composite string looks,
  still returns what it returned before.
\<close>

theorem object_key_roundtrip:
  assumes "store_host H" and "reachable_store H s"
    and "S3PutObjectKey H s b key root = (t, Inr ())"
  shows "S3GetObjectKey H t b key = Inr (Some root)
       \<and> (\<forall>b' key'. CHR ''/'' \<notin> set b' \<and> (b', key') \<noteq> (b, key) \<longrightarrow>
             S3GetObjectKey H t b' key' = S3GetObjectKey H s b' key')"
proof -
  have ni: "names_inv H s"
    using store_host.reachable_inv [OF assms(1,2)] by (simp add: store_inv_def)
  from store_host.put_key_read [OF assms(1,3)]
  have p: "bget H (s3_buckets s) b \<noteq> None" "\<not> closed t" "\<not> closed s"
    "bget H (s3_keys t) = (bget H (s3_keys s))(s3Composite b key \<mapsto> to_bytes H root)"
    by auto
  then have "CHR ''/'' \<notin> set b" using ni by (auto simp: names_inv_def)
  with p show ?thesis
    by (auto simp: S3GetObjectKey_def db_view_def store_host.bytes_rt [OF assms(1)]
        s3Composite_inj)
qed

theorem object_key_roundtrip_witness:
  "S3GetObjectKey ref_host ex_mapped ''docs'' ''a/b'' = Inr (Some ''0x11'')
   \<and> S3GetObjectKey ref_host ex_mapped ''docs'' ''a'' = S3GetObjectKey ref_host ex_bucket ''docs'' ''a''"
proof -
  have "S3PutObjectKey ref_host ex_bucket ''docs'' ''a/b'' ''0x11'' = (ex_mapped, Inr ())"
    by (simp add: ex_defs store_eval)
  from object_key_roundtrip [OF ref_store_host ex_reachable(2) this] show ?thesis by auto
qed

text \<open>
  Deleting a bucket decides correctly. On a reachable open database whose next commit
  succeeds, \<open>S3DeleteBucket\<close> reports \<open>ErrBucketNotFound\<close> exactly for an unregistered
  name, \<open>ErrBucketNotEmpty\<close> exactly for a bucket with at least one object key, and
  otherwise removes that registration and no other.
\<close>

theorem delete_bucket_decides:
  assumes "store_host H" and "reachable_store H s" and "\<not> closed s"
    and "commit_err H (txn s) = None" and "S3DeleteBucket H s b = (t, r)"
  shows "r = (if S3BucketExists H s b = Inr False then Inl ErrBucketNotFound
              else if \<exists>key root. S3GetObjectKey H s b key = Inr (Some root)
                then Inl ErrBucketNotEmpty
              else Inr ())
       \<and> (r = Inr () \<longrightarrow> (\<forall>n. S3BucketExists H t n =
             (if n = b then Inr False else S3BucketExists H s n)))"
proof -
  from store_host.delete_bucket_read [OF assms(1,3,4,5)]
  have d: "r = (if bget H (s3_buckets s) b = None then Inl ErrBucketNotFound
              else if \<exists>key v. bget H (s3_keys s) (s3Composite b key) = Some v
                then Inl ErrBucketNotEmpty else Inr ())"
    and u: "r = Inr () \<Longrightarrow> bget H (s3_buckets t) = (bget H (s3_buckets s))(b := None) \<and> \<not> closed t"
    by auto
  have e: "S3BucketExists H s n = Inr (bget H (s3_buckets s) n \<noteq> None)" for n
    using assms(3) by (simp add: S3BucketExists_def db_view_def)
  have k: "(\<exists>key root. S3GetObjectKey H s b key = Inr (Some root)) \<longleftrightarrow>
      (\<exists>key v. bget H (s3_keys s) (s3Composite b key) = Some v)"
    using assms(3) by (simp add: S3GetObjectKey_def db_view_def)
  have "r = Inr () \<Longrightarrow> S3BucketExists H t n = (if n = b then Inr False else S3BucketExists H s n)" for n
    using u assms(3) by (auto simp: S3BucketExists_def db_view_def)
  with d show ?thesis unfolding k e by auto
qed

theorem delete_bucket_decides_witness:
  "snd (S3DeleteBucket ref_host ex_mapped ''docs'') = Inl ErrBucketNotEmpty
   \<and> snd (S3DeleteBucket ref_host ex_mapped ''x'') = Inl ErrBucketNotFound"
proof -
  have e: "S3BucketExists ref_host ex_mapped ''docs'' = Inr True"
    "S3BucketExists ref_host ex_mapped ''x'' = Inr False"
    "S3GetObjectKey ref_host ex_mapped ''docs'' ''a/b'' = Inr (Some ''0x11'')"
    by (simp_all add: ex_defs store_eval S3BucketExists_def S3GetObjectKey_def)
  then have ne: "\<exists>key root. S3GetObjectKey ref_host ex_mapped ''docs'' key = Inr (Some root)"
    by blast
  note d = delete_bucket_decides [OF ref_store_host ex_reachable(3) ex_open(1) ex_host_commit,
      OF prod.collapse [symmetric]]
  show ?thesis using d [of "''docs''"] d [of "''x''"] e ne by simp
qed

text \<open>
  C32: Force deletion stays inside its bucket. Whatever bbolt's cursor does after a deletion
  under it, a call of \<open>S3ForceDeleteBucket\<close> that returns success has unregistered the
  bucket, and every key of every other slash-free bucket name, and every object, is untouched.
\<close>

theorem force_delete_stays_in_bucket:
  assumes "store_host H" and "reachable_store H s"
    and "S3ForceDeleteBucket H s b = Some (t, Inr ())"
  shows "S3BucketExists H t b = Inr False
       \<and> (\<forall>b' key. CHR ''/'' \<notin> set b' \<and> b' \<noteq> b \<longrightarrow>
             S3GetObjectKey H t b' key = S3GetObjectKey H s b' key
             \<and> S3BucketExists H t b' = S3BucketExists H s b')
       \<and> (\<forall>r. Get H t r = Get H s r)"
proof -
  have ni: "names_inv H s"
    using store_host.reachable_inv [OF assms(1,2)] by (simp add: store_inv_def)
  from store_host.force_delete_read [OF assms(1,3)]
  have f: "bget H (s3_buckets s) b \<noteq> None" "\<not> closed s" "\<not> closed t" "objects t = objects s"
    "bget H (s3_buckets t) = (bget H (s3_buckets s))(b := None)"
    "\<And>k. \<not> prefix (s3Prefix b) k \<Longrightarrow> bget H (s3_keys t) k = bget H (s3_keys s) k"
    by auto
  then have "CHR ''/'' \<notin> set b" using ni by (auto simp: names_inv_def)
  then have "bget H (s3_keys t) (s3Composite b' k) = bget H (s3_keys s) (s3Composite b' k)"
    if "CHR ''/'' \<notin> set b'" "b' \<noteq> b" for b' k
    using that f(6) prefix_composite by metis
  with f show ?thesis
    by (simp add: S3GetObjectKey_def S3BucketExists_def Get_def db_view_def getMeta_def)
qed

theorem force_delete_stays_in_bucket_witness:
  "\<exists>t. S3ForceDeleteBucket ref_host ex_mapped ''docs'' = Some (t, Inr ())
      \<and> S3BucketExists ref_host t ''docs'' = Inr False"
proof -
  obtain x where x: "S3ForceDeleteBucket ref_host ex_mapped ''docs'' = Some x"
    using ref.S3ForceDeleteBucket_returns [of ex_mapped "''docs''"] by auto
  have "bget ref_host (s3_buckets ex_mapped) ''docs'' \<noteq> None"
    by (simp add: ex_defs store_eval)
  then have "snd x = Inr ()"
    using ref.S3ForceDeleteBucket_succeeds [OF ex_open(1) _ ex_host_commit, of "''docs''"] x by auto
  then have run: "S3ForceDeleteBucket ref_host ex_mapped ''docs'' = Some (fst x, Inr ())"
    using x by (cases x) simp
  show ?thesis
    using force_delete_stays_in_bucket [OF ref_store_host ex_reachable(3) run] run by blast
qed

end
