(* ===== verification/Uploader.thy ===== *)
theory Uploader
  imports Store_Inv
begin

text \<open>
  \<open>internal/uploader/worker.go\<close>: the background worker that drains the upload queue in
  batches, reconciles with the storage nodes and polls for finality. The chain is the
  \<open>Chain\<close> interface of the Go package, a record of its two methods on a state \<open>'c\<close> that
  stands for the chain and the nodes, which may change with every call. The worker's state is
  the pair of that state and the database.
\<close>

section \<open>The chain interface and the configuration\<close>

datatype file_status = FileUnknown | FileUploading | FileFinalized | FilePruned

record item =
  ItRoot :: string
  ItPath :: string
  ItSkipTx :: bool

record 'c chain =
  BatchUpload :: "'c \<Rightarrow> item list \<Rightarrow> 'c \<times> string result"
  FileStatusOf :: "'c \<Rightarrow> string \<Rightarrow> 'c \<times> file_status result"

record worker_config =
  BatchMax :: int
  MaxRetries :: int
  PathOf :: "string \<Rightarrow> string"

text \<open>\<open>uploader.New\<close> replaces limits that are not positive by the defaults 10 and 5.\<close>

definition New_worker :: "worker_config \<Rightarrow> worker_config" where
  "New_worker cfg =
     (let c1 = (if BatchMax cfg \<le> 0 then cfg\<lparr>BatchMax := 10\<rparr> else cfg)
      in if MaxRetries c1 \<le> 0 then c1\<lparr>MaxRetries := 5\<rparr> else c1)"

section \<open>One batch\<close>

definition mk_item :: "worker_config \<Rightarrow> object_meta \<Rightarrow> bool \<Rightarrow> item" where
  "mk_item W m skip = \<lparr>ItRoot = Root m, ItPath = PathOf W (Root m), ItSkipTx = skip\<rparr>"

definition first_err :: "err option \<Rightarrow> err \<Rightarrow> err option" where
  "first_err d e = (case d of None \<Rightarrow> Some e | Some d' \<Rightarrow> Some d')"

text \<open>
  The first loop of \<open>processBatch\<close>: re-read each member, reconcile the submitted and the
  retried ones, and collect the items to upload. \<open>Inl\<close> is the early return of an error.
\<close>

fun collect ::
  "('b, 'v, 'z) host_scheme \<Rightarrow> 'c chain \<Rightarrow> worker_config \<Rightarrow> 'c \<times> 'b store
     \<Rightarrow> object_meta list \<Rightarrow> item list \<Rightarrow> err option
     \<Rightarrow> ('c \<times> 'b store) \<times> (item list \<times> err option) result" where
  "collect H C W (c, s) [] items deferred = ((c, s), Inr (items, deferred))"
| "collect H C W (c, s) (m # rest) items deferred =
     (case Get H s (Root m) of
        Inl e \<Rightarrow> ((c, s), Inl e)
      | Inr None \<Rightarrow> collect H C W (c, s) rest items deferred
      | Inr (Some cur) \<Rightarrow>
          if Status cur = StatusSubmitted \<or> 0 < Retries cur then
            (case FileStatusOf C c (Root cur) of
               (c', Inl e) \<Rightarrow>
                 collect H C W (c', s) rest items
                   (first_err deferred (Wrapped (''reconcile '' @ Root cur) e))
             | (c', Inr FileFinalized) \<Rightarrow>
                 (case SetStatus H s (Root cur) StatusFinalized [] [] of
                    (s', Inl e) \<Rightarrow> ((c', s'), Inl e)
                  | (s', Inr _) \<Rightarrow> collect H C W (c', s') rest items deferred)
             | (c', Inr FileUploading) \<Rightarrow>
                 collect H C W (c', fst (SetSkipTx H s (Root cur) True)) rest
                   (items @ [mk_item W cur True]) deferred
             | (c', Inr _) \<Rightarrow>
                 collect H C W (c', fst (SetSkipTx H s (Root cur) False)) rest
                   (items @ [mk_item W cur False]) deferred)
          else collect H C W (c, s) rest (items @ [mk_item W cur (SkipTx cur)]) deferred)"

fun mark_submitted ::
  "('b, 'v, 'z) host_scheme \<Rightarrow> 'b store \<Rightarrow> item list \<Rightarrow> 'b store \<times> err option" where
  "mark_submitted H s [] = (s, None)"
| "mark_submitted H s (it # items) =
     (case SetStatus H s (ItRoot it) StatusSubmitted [] [] of
        (s', Inl e) \<Rightarrow> (s', Some e)
      | (s', Inr _) \<Rightarrow> mark_submitted H s' items)"

fun mark_onchain ::
  "('b, 'v, 'z) host_scheme \<Rightarrow> string \<Rightarrow> 'b store \<Rightarrow> item list \<Rightarrow> 'b store \<times> err option" where
  "mark_onchain H txHash s [] = (s, None)"
| "mark_onchain H txHash s (it # items) =
     (let th = (if ItSkipTx it then [] else txHash) in
      (case SetStatus H s (ItRoot it) StatusOnchain th [] of
         (s', Inl e) \<Rightarrow> (s', Some e)
       | (s', Inr _) \<Rightarrow> mark_onchain H txHash s' items))"

definition reconcile_item ::
  "('b, 'v, 'z) host_scheme \<Rightarrow> 'c chain \<Rightarrow> worker_config \<Rightarrow> err \<Rightarrow> 'c \<times> 'b store \<Rightarrow> item
     \<Rightarrow> 'c \<times> 'b store" where
  "reconcile_item H C W batchErr cs it =
     (case FileStatusOf C (fst cs) (ItRoot it) of (c', st) \<Rightarrow>
        if st = Inr FileFinalized
        then (c', fst (SetStatus H (snd cs) (ItRoot it) StatusFinalized [] []))
        else
          (let s1 = (if st = Inr FileUploading
                     then fst (SetSkipTx H (snd cs) (ItRoot it) True) else snd cs) in
           (case IncRetries H s1 (ItRoot it) of
              (s2, Inl _) \<Rightarrow> (c', s2)
            | (s2, Inr n) \<Rightarrow>
                if MaxRetries W < n
                then (c', fst (SetStatus H s2 (ItRoot it) StatusFailed []
                       (''retries exhausted: '' @ err_text batchErr)))
                else (c', fst (SetStatus H s2 (ItRoot it) StatusPending [] [])))))"

fun reconcileFailedBatch ::
  "('b, 'v, 'z) host_scheme \<Rightarrow> 'c chain \<Rightarrow> worker_config \<Rightarrow> 'c \<times> 'b store \<Rightarrow> item list \<Rightarrow> err
     \<Rightarrow> 'c \<times> 'b store" where
  "reconcileFailedBatch H C W cs [] batchErr = cs"
| "reconcileFailedBatch H C W cs (it # items) batchErr =
     reconcileFailedBatch H C W (reconcile_item H C W batchErr cs it) items batchErr"

definition processBatch ::
  "('b, 'v, 'z) host_scheme \<Rightarrow> 'c chain \<Rightarrow> worker_config \<Rightarrow> 'c \<times> 'b store \<Rightarrow> object_meta list
     \<Rightarrow> ('c \<times> 'b store) \<times> err option" where
  "processBatch H C W cs batch =
     (case collect H C W cs batch [] None of
        (cs1, Inl e) \<Rightarrow> (cs1, Some e)
      | ((c1, s1), Inr (items, deferred)) \<Rightarrow>
          if items = [] then ((c1, s1), deferred)
          else
            (case mark_submitted H s1 items of
               (s2, Some e) \<Rightarrow> ((c1, s2), Some e)
             | (s2, None) \<Rightarrow>
                 (case BatchUpload C c1 items of
                    (c2, Inl e) \<Rightarrow> (reconcileFailedBatch H C W (c2, s2) items e, Some e)
                  | (c2, Inr txHash) \<Rightarrow>
                      (case mark_onchain H txHash s2 items of
                         (s3, Some e) \<Rightarrow> ((c2, s3), Some e)
                       | (s3, None) \<Rightarrow> ((c2, s3), deferred)))))"

section \<open>Flush, finality polling and the loop\<close>

text \<open>
  \<open>Flush\<close> walks the snapshot of the queue by index. With a batch size that is not positive
  the loop would not advance (0) or would slice out of range (negative, a panic);
  \<open>New_worker\<close> rules both out.
\<close>

partial_function (option) flush_loop ::
  "('b, 'v, 'z) host_scheme \<Rightarrow> 'c chain \<Rightarrow> worker_config \<Rightarrow> object_meta list \<Rightarrow> int
     \<Rightarrow> 'c \<times> 'b store \<Rightarrow> err option \<Rightarrow> (('c \<times> 'b store) \<times> err option) option" where
  "flush_loop H C W queue start cs firstErr =
     (if start < int (length queue) then
        (let stop = min (start + BatchMax W) (int (length queue)) in
         if stop < start then Some (cs, Some ErrPanic)
         else
           (let r = processBatch H C W cs (take (nat (stop - start)) (drop (nat start) queue));
                firstErr' = (if firstErr = None then snd r else firstErr)
            in flush_loop H C W queue (start + BatchMax W) (fst r) firstErr'))
      else Some (cs, firstErr))"

definition Flush ::
  "('b, 'v, 'z) host_scheme \<Rightarrow> 'c chain \<Rightarrow> worker_config \<Rightarrow> 'c \<times> 'b store
     \<Rightarrow> (('c \<times> 'b store) \<times> err option) option" where
  "Flush H C W cs =
     (case UploadQueue H (snd cs) 0 of
        Inl e \<Rightarrow> Some (cs, Some e)
      | Inr queue \<Rightarrow> flush_loop H C W queue 0 cs None)"

definition keep_first :: "err option \<Rightarrow> 'a result \<Rightarrow> err option" where
  "keep_first firstErr r =
     (case firstErr of
        Some e \<Rightarrow> Some e
      | None \<Rightarrow> (case r of Inl e \<Rightarrow> Some e | Inr _ \<Rightarrow> None))"

fun poll_loop ::
  "('b, 'v, 'z) host_scheme \<Rightarrow> 'c chain \<Rightarrow> 'c \<times> 'b store \<Rightarrow> object_meta list \<Rightarrow> err option
     \<Rightarrow> ('c \<times> 'b store) \<times> err option" where
  "poll_loop H C (c, s) [] firstErr = ((c, s), firstErr)"
| "poll_loop H C (c, s) (m # rest) firstErr =
     (case FileStatusOf C c (Root m) of
        (c', Inl e) \<Rightarrow> poll_loop H C (c', s) rest (first_err firstErr e)
      | (c', Inr FileFinalized) \<Rightarrow>
          (case SetStatus H s (Root m) StatusFinalized [] [] of (s', r) \<Rightarrow>
             poll_loop H C (c', s') rest (keep_first firstErr r))
      | (c', Inr FilePruned) \<Rightarrow>
          (case SetStatus H s (Root m) StatusFailed [] ''pruned'' of (s', r) \<Rightarrow>
             poll_loop H C (c', s') rest (keep_first firstErr r))
      | (c', Inr _) \<Rightarrow> poll_loop H C (c', s) rest firstErr)"

definition PollFinality ::
  "('b, 'v, 'z) host_scheme \<Rightarrow> 'c chain \<Rightarrow> 'c \<times> 'b store \<Rightarrow> ('c \<times> 'b store) \<times> err option" where
  "PollFinality H C cs =
     (case FinalizeQueue H (snd cs) 0 of
        Inl e \<Rightarrow> (cs, Some e)
      | Inr queue \<Rightarrow> poll_loop H C cs queue None)"

text \<open>
  \<open>Run\<close> handles one tick after the other until its context is cancelled; errors are only
  logged. \<open>run_ticks n\<close> is its effect when the cancellation comes after \<open>n\<close> ticks.
\<close>

fun run_ticks ::
  "('b, 'v, 'z) host_scheme \<Rightarrow> 'c chain \<Rightarrow> worker_config \<Rightarrow> nat \<Rightarrow> 'c \<times> 'b store
     \<Rightarrow> ('c \<times> 'b store) option" where
  "run_ticks H C W 0 cs = Some cs"
| "run_ticks H C W (Suc n) cs =
     (case Flush H C W cs of
        None \<Rightarrow> None
      | Some (cs1, _) \<Rightarrow> run_ticks H C W n (fst (PollFinality H C cs1)))"

end
