(* ===== verification/Uploader_Facts.thy ===== *)
theory Uploader_Facts
  imports Uploader
begin

text \<open>
  Facts about the worker: it changes the database only through three store operations on the
  roots of its batch, its loops end, and its steps keep the store's invariant.
\<close>

section \<open>The calls of a run\<close>

text \<open>
  \<open>logged C\<close> is the chain \<open>C\<close> with the list of the calls made so far and their answers in
  its state. A statement about \<open>logged C\<close> for every \<open>C\<close> is a statement about the calls of the
  worker.
\<close>

datatype chain_call =
    Ask string "file_status result"
  | Upload "item list" "string result"

definition logged :: "'c chain \<Rightarrow> ('c \<times> chain_call list) chain" where
  "logged C =
     \<lparr>BatchUpload = (\<lambda>(c, l) items. case BatchUpload C c items of
        (c', r) \<Rightarrow> ((c', l @ [Upload items r]), r)),
      FileStatusOf = (\<lambda>(c, l) root. case FileStatusOf C c root of
        (c', a) \<Rightarrow> ((c', l @ [Ask root a]), a))\<rparr>"

lemma logged_simps [simp]:
  "BatchUpload (logged C) (c, l) items = (c', r) \<longleftrightarrow>
     (\<exists>d. BatchUpload C c items = (d, r) \<and> c' = (d, l @ [Upload items r]))"
  "FileStatusOf (logged C) (c, l) root = (c', a) \<longleftrightarrow>
     (\<exists>d. FileStatusOf C c root = (d, a) \<and> c' = (d, l @ [Ask root a]))"
  by (auto simp: logged_def split: prod.splits)

text \<open>
  A status that the calls justify: onchain after an acknowledged batch with the object,
  finalized after a node said so, failed after a refused batch or a pruned report.
\<close>

fun status_ok :: "chain_call list \<Rightarrow> string \<Rightarrow> status \<Rightarrow> bool" where
  "status_ok l r StatusOnchain = (\<exists>items th. Upload items (Inr th) \<in> set l \<and> r \<in> ItRoot ` set items)"
| "status_ok l r StatusFinalized = (Ask r (Inr FileFinalized) \<in> set l)"
| "status_ok l r StatusFailed =
     ((\<exists>items e. Upload items (Inl e) \<in> set l \<and> r \<in> ItRoot ` set items)
      \<or> Ask r (Inr FilePruned) \<in> set l)"
| "status_ok l r StatusNone = False"
| "status_ok l r _ = True"

lemma status_ok_mono: "status_ok l r st \<Longrightarrow> set l \<subseteq> set l' \<Longrightarrow> status_ok l' r st"
  by (cases st) auto

section \<open>The worker's writes\<close>

fun worker_op :: "string set \<Rightarrow> chain_call list \<Rightarrow> store_op \<Rightarrow> bool" where
  "worker_op R l (OpSetStatus r st tx why) = (r \<in> R \<and> status_ok l r st)"
| "worker_op R l (OpIncRetries r) = (r \<in> R)"
| "worker_op R l (OpSetSkipTx r v) = (r \<in> R)"
| "worker_op R l _ = False"

text \<open>
  \<open>touched H R l s t\<close>: \<open>t\<close> comes from \<open>s\<close> by worker writes on roots of \<open>R\<close>, with statuses
  that the calls \<open>l\<close> justify.
\<close>

inductive touched ::
  "('b, 'v, 'z) host_scheme \<Rightarrow> string set \<Rightarrow> chain_call list \<Rightarrow> 'b store \<Rightarrow> 'b store \<Rightarrow> bool"
  for H :: "('b, 'v, 'z) host_scheme" and R :: "string set" and l :: "chain_call list" where
  touched_refl: "touched H R l s s"
| touched_step:
    "touched H R l s t \<Longrightarrow> worker_op R l p \<Longrightarrow> store_exec H t p = Some (u, x) \<Longrightarrow> touched H R l s u"

declare touched_refl [simp, intro]

lemma touched_trans: "touched H R l t u \<Longrightarrow> touched H R l s t \<Longrightarrow> touched H R l s u"
  by (induction rule: touched.induct) (auto intro: touched_step)

lemma worker_op_mono: "worker_op R l p \<Longrightarrow> R \<subseteq> S \<Longrightarrow> set l \<subseteq> set l' \<Longrightarrow> worker_op S l' p"
  by (cases p) (auto intro: status_ok_mono)

lemma touched_mono: "touched H R l s t \<Longrightarrow> R \<subseteq> S \<Longrightarrow> set l \<subseteq> set l' \<Longrightarrow> touched H S l' s t"
  by (induction rule: touched.induct) (auto intro: touched_step worker_op_mono)

lemma touched_SetStatus:
  "r \<in> R \<Longrightarrow> status_ok l r st \<Longrightarrow> touched H R l s t \<Longrightarrow>
   touched H R l s (fst (SetStatus H t r st tx why))"
  by (erule touched_step [where p = "OpSetStatus r st tx why"
        and x = "snd (SetStatus H t r st tx why)"]) simp_all

lemma touched_SetSkipTx:
  "r \<in> R \<Longrightarrow> touched H R l s t \<Longrightarrow> touched H R l s (fst (SetSkipTx H t r v))"
  by (erule touched_step [where p = "OpSetSkipTx r v" and x = "snd (SetSkipTx H t r v)"]) simp_all

lemma touched_IncRetries:
  "r \<in> R \<Longrightarrow> touched H R l s t \<Longrightarrow> touched H R l s (fst (IncRetries H t r))"
  by (erule touched_step [where p = "OpIncRetries r" and x = "snd (void (IncRetries H t r))"])
    (simp_all add: void_def split: prod.splits)

lemmas touched_ops = touched_SetStatus touched_SetSkipTx touched_IncRetries

lemma worker_op_mutate:
  assumes "worker_op R l p" and "store_exec H s p = Some (t, x)"
  obtains r fn y where "r \<in> R" "mutate H s r fn = (t, y)" "\<And>m. Root (fn m) = Root m"
    "\<And>m. Status (fn m) = Status m \<or> status_ok l r (Status (fn m))"
proof (cases p)
  case (OpSetStatus r st tx why)
  then show thesis
    using assms that [of r "set_status_fn st tx why"] by (auto simp: SetStatus_def void_eq)
next
  case (OpIncRetries r)
  then show thesis
    using assms that [of r inc_retries_fn] by (auto simp: IncRetries_def void_def split: prod.splits)
next
  case (OpSetSkipTx r v)
  then show thesis
    using assms that [of r "set_skip_fn v"] by (auto simp: SetSkipTx_def void_eq)
qed (use assms in auto)

lemma touched_reachable: "touched H R l s t \<Longrightarrow> reachable_store H s \<Longrightarrow> reachable_store H t"
proof (induction rule: touched.induct)
  case (touched_step s t p u x)
  have "op_ok H t p" using touched_step.hyps(2) by (cases p) auto
  with reachable_exec [OF touched_step.IH [OF touched_step.prems] _ touched_step.hyps(3)]
  show ?case by simp
qed simp

context store_host
begin

lemma mutate_closed: "mutate H s r fn = (t, x) \<Longrightarrow> closed t = closed s"
  by (erule mutate_cases) (auto simp: same_data_def)

lemma mutate_frame:
  assumes "store_inv H s" and "mutate H s r fn = (t, x)" and "\<And>m. Root (fn m) = Root m"
    and "q \<noteq> r"
  shows "meta_at H t q = meta_at H s q"
  using assms(2)
proof (cases rule: mutate_cases)
  case (failed e)
  then show ?thesis by (simp add: same_data_def meta_at_def)
next
  case (ok m m')
  have "meta_inv H s" using assms(1) by (simp add: store_inv_def)
  then have "Root m' = r" using ok(2,3) assms(3) meta_inv_at [of H s r m] by simp
  then show ?thesis using meta_at_wrote [OF ok(4)] assms(4) by simp
qed

text \<open>Every status on record is justified by the calls.\<close>

definition honest :: "chain_call list \<Rightarrow> 'b store \<Rightarrow> bool" where
  "honest l s \<longleftrightarrow> (\<forall>r m. meta_at H s r = Some m \<longrightarrow> status_ok l r (Status m))"

lemma honest_mono: "honest l s \<Longrightarrow> set l \<subseteq> set l' \<Longrightarrow> honest l' s"
  by (auto simp: honest_def intro: status_ok_mono)

lemma mutate_honest:
  assumes "store_inv H s" and "mutate H s r fn = (t, x)" and "\<And>m. Root (fn m) = Root m"
    and "\<And>m. Status (fn m) = Status m \<or> status_ok l r (Status (fn m))" and "honest l s"
  shows "honest l t"
  using assms(2)
proof (cases rule: mutate_cases)
  case (failed e)
  then have "meta_at H t = meta_at H s" by (intro meta_at_cong) (simp add: same_data_def)
  then show ?thesis using assms(5) by (simp add: honest_def)
next
  case (ok m m')
  have "meta_inv H s" using assms(1) by (simp add: store_inv_def)
  then have "Root m' = r" using ok(2,3) assms(3) meta_inv_at [of H s r m] by simp
  moreover have "status_ok l r (Status m')"
    using ok(2,3) assms(4) [of m] assms(5) by (auto simp: honest_def)
  ultimately show ?thesis using meta_at_wrote [OF ok(4)] assms(5) by (auto simp: honest_def)
qed

lemma touched_effect:
  "touched H R l s t \<Longrightarrow> store_inv H s \<Longrightarrow>
   store_inv H t \<and> closed t = closed s \<and> (\<forall>q. q \<notin> R \<longrightarrow> meta_at H t q = meta_at H s q)
   \<and> (honest l s \<longrightarrow> honest l t)"
proof (induction rule: touched.induct)
  case (touched_step s t p u x)
  then have t: "store_inv H t" "closed t = closed s" "\<forall>q. q \<notin> R \<longrightarrow> meta_at H t q = meta_at H s q"
    "honest l s \<longrightarrow> honest l t"
    by auto
  obtain r fn y where m: "r \<in> R" "mutate H t r fn = (u, y)" "\<And>m. Root (fn m) = Root m"
    "\<And>m. Status (fn m) = Status m \<or> status_ok l r (Status (fn m))"
    using worker_op_mutate [OF touched_step.hyps(2,3)] by metis
  have "op_ok H t p" using touched_step.hyps(2) by (cases p) auto
  then have "store_inv H u" using store_exec_inv touched_step.hyps(3) t(1) by blast
  moreover have "closed u = closed s" using mutate_closed [OF m(2)] t(2) by simp
  moreover have "meta_at H u q = meta_at H s q" if "q \<notin> R" for q
    using mutate_frame [OF t(1) m(2,3)] m(1) t(3) that by metis
  moreover have "honest l u" if "honest l s"
    using mutate_honest [OF t(1) m(2,3,4)] t(4) that by blast
  ultimately show ?case by blast
qed simp

lemmas touched_inv = touched_effect [THEN conjunct1]
lemmas touched_closed = touched_effect [THEN conjunct2, THEN conjunct1]
lemmas touched_frame = touched_effect [THEN conjunct2, THEN conjunct2, THEN conjunct1, rule_format]
lemmas touched_honest = touched_effect [THEN conjunct2, THEN conjunct2, THEN conjunct2, rule_format]

section \<open>What the batch loops write\<close>

lemma Get_root: "store_inv H s \<Longrightarrow> Get H s r = Inr (Some m) \<Longrightarrow> Root m = r \<and> meta_at H s r = Some m"
  using meta_inv_at getMeta_Some
  by (fastforce simp: Get_def db_view_def store_inv_def split: if_splits)

end

section \<open>The calls of a batch\<close>

text \<open>
  An item that may be submitted, given the calls before: its object was pending with no
  attempt behind it, or its status was asked and answered and the skip flag follows the
  answer.
\<close>

definition submit_ok ::
  "('b, 'v, 'z) host_scheme \<Rightarrow> 'b store \<Rightarrow> chain_call list \<Rightarrow> item \<Rightarrow> bool" where
  "submit_ok H s0 calls it \<longleftrightarrow>
     (\<exists>m. meta_at H s0 (ItRoot it) = Some m \<and> Status m \<noteq> StatusSubmitted \<and> Retries m \<le> 0
          \<and> ItSkipTx it = SkipTx m)
     \<or> (\<exists>a. Ask (ItRoot it) (Inr a) \<in> set calls \<and> a \<noteq> FileFinalized
          \<and> ItSkipTx it = (a = FileUploading))"

lemma submit_ok_mono: "submit_ok H s0 calls it \<Longrightarrow> set calls \<subseteq> set calls' \<Longrightarrow> submit_ok H s0 calls' it"
  by (auto simp: submit_ok_def)

definition only_asks :: "chain_call list \<Rightarrow> bool" where
  "only_asks calls \<longleftrightarrow> (\<forall>x \<in> set calls. \<exists>r a. x = Ask r a)"

lemma only_asks_simps [simp]:
  "only_asks []" "only_asks (Ask r a # xs) = only_asks xs" "only_asks (xs @ ys) \<longleftrightarrow> only_asks xs \<and> only_asks ys"
  by (auto simp: only_asks_def)

context store_host
begin

text \<open>
  One iteration of the collecting loop, as a case rule: it returns early with an error, or it
  goes on with at most one item added, which may be submitted.
\<close>

lemma collect_step:
  assumes "store_inv H s" and "collect H (logged C) W ((c, l), s) (m # rest) items d = res"
  obtains (failed) c1 n1 t e where "res = (((c1, l @ n1), t), Inl e)" "only_asks n1"
      "touched H {Root m} n1 s t"
  | (skip) c1 n1 t d1 where "res = collect H (logged C) W ((c1, l @ n1), t) rest items d1"
      "only_asks n1" "touched H {Root m} n1 s t"
  | (add) c1 n1 t it where "res = collect H (logged C) W ((c1, l @ n1), t) rest (items @ [it]) d"
      "only_asks n1" "touched H {Root m} n1 s t" "ItRoot it = Root m" "submit_ok H s n1 it"
proof (cases "Get H s (Root m)")
  case (Inl e)
  show thesis by (rule failed [of c "[]" s e]) (use assms(2) Inl in auto)
next
  case (Inr mo)
  show thesis
  proof (cases mo)
    case None
    show thesis by (rule skip [of c "[]" s d]) (use assms(2) Inr None in auto)
  next
    case (Some cur)
    have cur: "Root cur = Root m" "meta_at H s (Root m) = Some cur"
      using Get_root [OF assms(1)] Inr Some by auto
    show thesis
    proof (cases "Status cur = StatusSubmitted \<or> 0 < Retries cur")
      case False
      show thesis
        by (rule add [of c "[]" s "mk_item W cur (SkipTx cur)"])
          (use assms(2) Inr Some False cur in \<open>auto simp: submit_ok_def mk_item_def\<close>)
    next
      case True
      obtain c' a where a: "FileStatusOf C c (Root m) = (c', a)" by force
      then have la: "FileStatusOf (logged C) (c, l) (Root m) = ((c', l @ [Ask (Root m) a]), a)" by simp
      note red = assms(2) Inr Some True cur(1) la
      let ?n = "[Ask (Root m) a]"
      have ask: "only_asks ?n" by simp
      have sk: "touched H {Root m} ?n s (fst (SetSkipTx H s (Root m) v))" for v
        by (auto intro: touched_ops)
      consider (err) e where "a = Inl e" | (fin) "a = Inr FileFinalized"
        | (go) f where "a = Inr f" "f \<noteq> FileFinalized"
        by (metis sum.exhaust)
      then show thesis
      proof cases
        case err
        show thesis by (rule skip [OF _ ask, where t = s]) (use red err in auto)
      next
        case fin
        obtain t r where t: "SetStatus H s (Root m) StatusFinalized [] [] = (t, r)" by force
        have tt: "touched H {Root m} ?n s t"
          using touched_SetStatus [of "Root m" "{Root m}" ?n StatusFinalized H s s "[]" "[]"] fin t
          by auto
        show thesis
        proof (cases r)
          case (Inl e)
          show thesis by (rule failed [OF _ ask tt]) (use red fin t Inl in auto)
        next
          case (Inr u)
          show thesis by (rule skip [OF _ ask tt]) (use red fin t Inr in auto)
        qed
      next
        case go
        show thesis
          by (rule add [OF _ ask sk [of "f = FileUploading"], where it = "mk_item W cur (f = FileUploading)"])
            (use red go in \<open>cases f; auto simp: submit_ok_def mk_item_def\<close>)+
      qed
    qed
  qed
qed

lemma collect_log:
  assumes "collect H (logged C) W ((c, l), s) batch items d = (((c', l'), s'), x)"
    and "store_inv H s" and "distinct (map Root batch)"
    and "\<forall>m \<in> set batch. meta_at H s (Root m) = meta_at H s0 (Root m)"
  shows "\<exists>new. l' = l @ new \<and> only_asks new \<and> touched H (Root ` set batch) new s s'
     \<and> (\<forall>items' d'. x = Inr (items', d') \<longrightarrow>
         (\<exists>added. items' = items @ added \<and> subseq (map ItRoot added) (map Root batch)
            \<and> (\<forall>it \<in> set added. submit_ok H s0 new it)))"
  using assms
proof (induction batch arbitrary: c l s items d)
  case Nil
  then show ?case by auto
next
  case (Cons m rest)
  define res where "res = (((c', l'), s'), x)"
  have go: "\<exists>new. l' = (l @ n1) @ new \<and> only_asks new
     \<and> touched H (Root ` set (m # rest)) (n1 @ new) s s'
     \<and> (\<forall>items' d'. x = Inr (items', d') \<longrightarrow>
         (\<exists>added. items' = its @ added \<and> subseq (map ItRoot added) (map Root rest)
            \<and> (\<forall>it \<in> set added. submit_ok H s0 new it)))"
    if t: "touched H {Root m} n1 s t"
      and r: "res = collect H (logged C) W ((c1, l @ n1), t) rest its d1" for c1 n1 t its d1
  proof -
    have "meta_at H t (Root m') = meta_at H s0 (Root m')" if m': "m' \<in> set rest" for m'
    proof -
      have "Root m \<notin> Root ` set rest" using Cons.prems(3) by simp
      with m' have "Root m' \<noteq> Root m" by (metis imageI)
      with m' show ?thesis
        using touched_frame [OF t Cons.prems(2), of "Root m'"] Cons.prems(4) by simp
    qed
    moreover have "store_inv H t" using touched_inv [OF t Cons.prems(2)] .
    ultimately obtain new where new: "l' = (l @ n1) @ new" "only_asks new"
      "touched H (Root ` set rest) new t s'"
      "\<forall>items' d'. x = Inr (items', d') \<longrightarrow>
         (\<exists>added. items' = its @ added \<and> subseq (map ItRoot added) (map Root rest)
            \<and> (\<forall>it \<in> set added. submit_ok H s0 new it))"
      using Cons.IH [of c1 "l @ n1" t its d1] r Cons.prems(3) unfolding res_def by force
    have "touched H (Root ` set (m # rest)) (n1 @ new) s s'"
      by (rule touched_trans [OF touched_mono [OF new(3)] touched_mono [OF t]]) auto
    with new show ?thesis by blast
  qed
  from Cons.prems(1) [folded res_def] have "res = collect H (logged C) W ((c, l), s) (m # rest) items d"
    by simp
  from Cons.prems(2) this [symmetric] show ?case
  proof (cases rule: collect_step)
    case (failed c1 n1 t e)
    then show ?thesis by (force simp: res_def intro: touched_mono)
  next
    case (skip c1 n1 t d1)
    from go [OF skip(3,1)] skip(2) show ?thesis
      by (fastforce intro: submit_ok_mono)
  next
    case (add c1 n1 t it)
    have ok: "submit_ok H s0 n1 it" using add(4,5) Cons.prems(4) by (auto simp: submit_ok_def)
    from go [OF add(3,1)] obtain new where
      new: "l' = (l @ n1) @ new" "only_asks new" "touched H (Root ` set (m # rest)) (n1 @ new) s s'"
      "\<forall>items' d'. x = Inr (items', d') \<longrightarrow>
         (\<exists>added. items' = (items @ [it]) @ added \<and> subseq (map ItRoot added) (map Root rest)
            \<and> (\<forall>it \<in> set added. submit_ok H s0 new it))"
      by blast
    have "\<exists>added. items' = items @ added \<and> subseq (map ItRoot added) (map Root (m # rest))
            \<and> (\<forall>i \<in> set added. submit_ok H s0 (n1 @ new) i)" if "x = Inr (items', d')" for items' d'
    proof -
      from new(4) that obtain added where "items' = items @ (it # added)"
        "subseq (map ItRoot added) (map Root rest)" "\<forall>i \<in> set added. submit_ok H s0 new i"
        by auto
      with add(4) ok show ?thesis
        by (intro exI [of _ "it # added"]) (auto intro: submit_ok_mono)
    qed
    with new add(2) show ?thesis by (intro exI [of _ "n1 @ new"]) auto
  qed
qed

end

lemma mark_submitted_touched:
  "mark_submitted H s items = (t, e) \<Longrightarrow> ItRoot ` set items \<subseteq> R \<Longrightarrow> touched H R l s t"
proof (induction items arbitrary: s)
  case (Cons it items)
  obtain u r where u: "SetStatus H s (ItRoot it) StatusSubmitted [] [] = (u, r)" by force
  then have "touched H R l s u"
    using touched_SetStatus [of "ItRoot it" R l StatusSubmitted H s s "[]" "[]"] Cons.prems(2) by auto
  with Cons u show ?case by (cases r) (auto intro: touched_trans)
qed simp

lemma mark_onchain_touched:
  "mark_onchain H txHash s items = (t, e) \<Longrightarrow> ItRoot ` set items \<subseteq> R \<Longrightarrow>
   \<forall>it \<in> set items. status_ok l (ItRoot it) StatusOnchain \<Longrightarrow> touched H R l s t"
proof (induction items arbitrary: s)
  case (Cons it items)
  define th where "th = (if ItSkipTx it then [] else txHash)"
  obtain u r where u: "SetStatus H s (ItRoot it) StatusOnchain th [] = (u, r)" by force
  then have "touched H R l s u"
    using touched_SetStatus [of "ItRoot it" R l StatusOnchain H s s th "[]"] Cons.prems(2,3) by auto
  with Cons u show ?case by (cases r) (auto simp: th_def intro: touched_trans)
qed simp

text \<open>A refused batch: its members are asked again one by one.\<close>

lemma reconcile_item_eq:
  "FileStatusOf C c (ItRoot it) = (c', a) \<Longrightarrow> a \<noteq> Inr FileFinalized \<Longrightarrow>
   IncRetries H (if a = Inr FileUploading then fst (SetSkipTx H s (ItRoot it) True) else s) (ItRoot it)
     = (s2, n) \<Longrightarrow>
   reconcile_item H C W e (c, s) it =
     (c', case n of
            Inl _ \<Rightarrow> s2
          | Inr k \<Rightarrow>
              if MaxRetries W < k
              then fst (SetStatus H s2 (ItRoot it) StatusFailed []
                     (''retries exhausted: '' @ err_text e))
              else fst (SetStatus H s2 (ItRoot it) StatusPending [] []))"
  by (cases n; cases "a = Inr FileUploading") (simp_all add: reconcile_item_def del: IncRetries_simps)

lemma reconcile_item_log:
  assumes "ItRoot it \<in> R" and "status_ok pre (ItRoot it) StatusFailed"
  shows "\<exists>d a t. reconcile_item H (logged C) W e ((c, l), s) it = ((d, l @ [Ask (ItRoot it) a]), t)
    \<and> touched H R (pre @ [Ask (ItRoot it) a]) s t"
proof -
  let ?r = "ItRoot it"
  obtain d a where a: "FileStatusOf C c ?r = (d, a)" by force
  let ?l = "pre @ [Ask ?r a]"
  have fail: "status_ok ?l ?r StatusFailed" using assms(2) by (rule status_ok_mono) auto
  define s1 where "s1 = (if a = Inr FileUploading then fst (SetSkipTx H s ?r True) else s)"
  have s1: "touched H R ?l s s1" using assms(1) by (auto simp: s1_def intro: touched_ops)
  obtain s2 n where s2: "IncRetries H s1 ?r = (s2, n)" by force
  have t2: "touched H R ?l s s2" using touched_IncRetries [OF assms(1) s1] s2 by (metis fst_conv)
  let ?res = "reconcile_item H (logged C) W e ((c, l), s) it"
  have "touched H R ?l s (snd ?res) \<and> fst ?res = (d, l @ [Ask ?r a])"
  proof (cases "a = Inr FileFinalized")
    case True
    then show ?thesis using assms(1) a
      by (auto simp: reconcile_item_def logged_def intro!: touched_ops)
  next
    case False
    have "FileStatusOf (logged C) (c, l) ?r = ((d, l @ [Ask ?r a]), a)" using a by simp
    from reconcile_item_eq [OF this False s2 [unfolded s1_def]] show ?thesis
      using t2 fail assms(1)
      by (cases n) (auto intro!: touched_ops simp del: status_ok.simps(3))
  qed
  then show ?thesis by (metis prod.collapse)
qed

lemma reconcile_log:
  assumes "ItRoot ` set items \<subseteq> R" and "\<forall>it \<in> set items. status_ok pre (ItRoot it) StatusFailed"
  shows "\<exists>d post t. reconcileFailedBatch H (logged C) W ((c, l), s) items e = ((d, l @ post), t)
     \<and> only_asks post \<and> touched H R (pre @ post) s t"
  using assms
proof (induction items arbitrary: c l s pre)
  case Nil
  have "touched H R (pre @ []) s s" by simp
  then show ?case by (metis append_Nil2 only_asks_simps(1) reconcileFailedBatch.simps(1))
next
  case (Cons it items)
  have "ItRoot it \<in> R" "status_ok pre (ItRoot it) StatusFailed" using Cons.prems by auto
  then obtain d a t where r: "reconcile_item H (logged C) W e ((c, l), s) it
      = ((d, l @ [Ask (ItRoot it) a]), t)" "touched H R (pre @ [Ask (ItRoot it) a]) s t"
    using reconcile_item_log [of it R pre H C W e c l s] by blast
  have "\<forall>it' \<in> set items. status_ok (pre @ [Ask (ItRoot it) a]) (ItRoot it') StatusFailed"
    using Cons.prems(2) by (auto intro: status_ok_mono)
  moreover have "ItRoot ` set items \<subseteq> R" using Cons.prems(1) by simp
  ultimately obtain d2 post u where u: "reconcileFailedBatch H (logged C) W ((d, l @ [Ask (ItRoot it) a]), t) items e
      = ((d2, (l @ [Ask (ItRoot it) a]) @ post), u)" "only_asks post"
    "touched H R ((pre @ [Ask (ItRoot it) a]) @ post) t u"
    using Cons.IH [of "pre @ [Ask (ItRoot it) a]" d "l @ [Ask (ItRoot it) a]" t] by blast
  have "touched H R (pre @ [Ask (ItRoot it) a] @ post) s u"
    by (rule touched_trans [OF touched_mono [OF u(3)] touched_mono [OF r(2)]]) auto
  with r(1) u(1,2) show ?case
    by (intro exI [of _ d2] exI [of _ "Ask (ItRoot it) a # post"] exI [of _ u]) auto
qed

text \<open>What one batch may do: ask, then submit justified items at most once, then ask again.\<close>

definition batch_calls ::
  "('b, 'v, 'z) host_scheme \<Rightarrow> 'b store \<Rightarrow> string list \<Rightarrow> chain_call list \<Rightarrow> bool" where
  "batch_calls H s0 roots new \<longleftrightarrow>
     only_asks new
     \<or> (\<exists>asks items r post. new = asks @ Upload items r # post \<and> only_asks asks \<and> only_asks post
          \<and> items \<noteq> [] \<and> subseq (map ItRoot items) roots
          \<and> (\<forall>it \<in> set items. submit_ok H s0 asks it))"

context store_host
begin

lemma processBatch_log:
  assumes "processBatch H (logged C) W ((c, l), s) batch = (((c', l'), s'), e)"
    and "store_inv H s" and "distinct (map Root batch)"
    and "\<forall>m \<in> set batch. meta_at H s (Root m) = meta_at H s0 (Root m)"
  shows "\<exists>new. l' = l @ new \<and> touched H (Root ` set batch) new s s'
     \<and> batch_calls H s0 (map Root batch) new"
proof -
  let ?R = "Root ` set batch"
  obtain c1 l1 s1 x where col: "collect H (logged C) W ((c, l), s) batch [] None = (((c1, l1), s1), x)"
    by (metis prod.collapse)
  obtain asks where asks: "l1 = l @ asks" "only_asks asks" "touched H ?R asks s s1"
    and its: "\<And>items d'. x = Inr (items, d') \<Longrightarrow> subseq (map ItRoot items) (map Root batch)
            \<and> (\<forall>it \<in> set items. submit_ok H s0 asks it)"
    using collect_log [OF col assms(2-4)] by auto
  show ?thesis
  proof (cases "\<exists>items d'. x = Inr (items, d') \<and> items \<noteq> []")
    case False
    with assms(1) col asks show ?thesis
      by (auto simp: processBatch_def batch_calls_def split: sum.splits)
  next
    case True
    then obtain items d' where x: "x = Inr (items, d')" "items \<noteq> []" by blast
    have sub: "subseq (map ItRoot items) (map Root batch)" and ok: "\<forall>it \<in> set items. submit_ok H s0 asks it"
      using its x by auto
    have in_batch: "ItRoot ` set items \<subseteq> ?R" using subseq_set [OF sub] by simp
    obtain s2 e2 where ms: "mark_submitted H s1 items = (s2, e2)" by force
    have t2: "touched H ?R asks s s2"
      using mark_submitted_touched [OF ms in_batch] asks(3) touched_trans by blast
    show ?thesis
    proof (cases e2)
      case (Some er)
      with assms(1) col x ms asks t2 show ?thesis by (auto simp: processBatch_def batch_calls_def)
    next
      case None
      obtain d r where up: "BatchUpload C c1 items = (d, r)" by force
      let ?pre = "asks @ [Upload items r]"
      have t3: "touched H ?R (?pre @ post) s t" if "touched H ?R (?pre @ post) s2 t" for post t
        by (rule touched_trans [OF that touched_mono [OF t2]]) auto
      have red: "(((c', l'), s'), e) =
         (case r of Inl er \<Rightarrow> (reconcileFailedBatch H (logged C) W ((d, l @ ?pre), s2) items er, Some er)
          | Inr txHash \<Rightarrow> (case mark_onchain H txHash s2 items of
               (s3, Some e) \<Rightarrow> (((d, l @ ?pre), s3), Some e) | (s3, None) \<Rightarrow> (((d, l @ ?pre), s3), d')))"
        using assms(1) col x ms None up asks(1)
        by (auto simp: processBatch_def logged_def split: sum.splits)
      have "\<exists>post. l' = l @ ?pre @ post \<and> only_asks post \<and> touched H ?R (?pre @ post) s s'"
      proof (cases r)
        case (Inl er)
        have "\<forall>it \<in> set items. status_ok ?pre (ItRoot it) StatusFailed" using Inl by auto
        then obtain d2 post t where p: "reconcileFailedBatch H (logged C) W ((d, l @ ?pre), s2) items er
            = ((d2, (l @ ?pre) @ post), t)" "only_asks post" "touched H ?R (?pre @ post) s2 t"
          using reconcile_log [OF in_batch, of ?pre H C W d "l @ ?pre" s2 er] by blast
        moreover have "reconcileFailedBatch H (logged C) W ((d, l @ ?pre), s2) items er = ((c', l'), s')"
          using red Inl by simp
        ultimately show ?thesis using t3 by auto
      next
        case (Inr th)
        obtain s3 e3 where mo: "mark_onchain H th s2 items = (s3, e3)" by force
        with red Inr have "l' = l @ ?pre @ []" "s' = s3" by (auto split: option.splits)
        moreover have "touched H ?R (?pre @ []) s2 s3"
          by (rule mark_onchain_touched [OF mo in_batch]) (use Inr in auto)
        ultimately show ?thesis using t3 only_asks_simps(1) by blast
      qed
      then obtain post where post: "l' = l @ ?pre @ post" "only_asks post"
        "touched H ?R (?pre @ post) s s'"
        by blast
      have "batch_calls H s0 (map Root batch) (asks @ Upload items r # post)"
        unfolding batch_calls_def using asks(2) post(2) x(2) sub ok by blast
      with post show ?thesis by (intro exI [of _ "asks @ Upload items r # post"]) simp
    qed
  qed
qed

end

section \<open>The loops end\<close>

text \<open>
  With a positive batch size \<open>flush_loop\<close> returns, and what every batch of the queue keeps
  holds at the end. \<open>I k\<close> is the state after the first \<open>k\<close> members of the queue.
\<close>

lemma flush_loop_rule:
  assumes pos: "0 < BatchMax W"
    and step: "\<And>k cs. 0 \<le> k \<Longrightarrow> k < int (length queue) \<Longrightarrow> I k cs \<Longrightarrow>
      I (k + BatchMax W)
        (fst (processBatch H C W cs
           (take (nat (min (k + BatchMax W) (int (length queue)) - k)) (drop (nat k) queue))))"
    and start: "0 \<le> start" "I start cs"
  shows "\<exists>cs' e' k. flush_loop H C W queue start cs e = Some (cs', e') \<and> int (length queue) \<le> k \<and> I k cs'"
  using start
proof (induction "nat (int (length queue) - start)" arbitrary: start cs e rule: less_induct)
  case less
  show ?case
  proof (cases "start < int (length queue)")
    case False
    then show ?thesis using less.prems(2) by (subst flush_loop.simps) (auto intro!: exI [of _ start])
  next
    case True
    let ?r = "processBatch H C W cs
           (take (nat (min (start + BatchMax W) (int (length queue)) - start)) (drop (nat start) queue))"
    have "\<exists>cs' e' k. flush_loop H C W queue (start + BatchMax W) (fst ?r)
        (if e = None then snd ?r else e) = Some (cs', e') \<and> int (length queue) \<le> k \<and> I k cs'"
      by (rule less.hyps) (use True pos less.prems step in auto)
    moreover have "\<not> min (start + BatchMax W) (int (length queue)) < start"
      using True pos by simp
    ultimately show ?thesis
      using True by (subst flush_loop.simps) (simp add: Let_def)
  qed
qed

lemma take_chunk:
  assumes "0 \<le> k" and "k < int (length xs)" and "0 < n"
  shows "take (nat (k + n)) xs
    = take (nat k) xs @ take (nat (min (k + n) (int (length xs)) - k)) (drop (nat k) xs)"
proof -
  have "nat (k + n) = nat k + nat n" using assms by (simp add: nat_add_distrib)
  then have "take (nat (k + n)) xs = take (nat k) xs @ take (nat n) (drop (nat k) xs)"
    by (simp add: take_add)
  moreover have "take (nat n) (drop (nat k) xs)
    = take (nat (min (k + n) (int (length xs)) - k)) (drop (nat k) xs)"
  proof (cases "k + n \<le> int (length xs)")
    case False
    then have m: "min (k + n) (int (length xs)) - k = int (length xs) - k" by simp
    have "nat (int (length xs) - k) = length (drop (nat k) xs)" "length (drop (nat k) xs) \<le> nat n"
      using assms False by auto
    then show ?thesis unfolding m by simp
  qed simp
  ultimately show ?thesis by simp
qed

section \<open>What every call of the chain keeps\<close>

text \<open>
  The worker reaches the chain only through the two operations of the interface, so a predicate
  on the chain's state that both keep holds after every batch, flush and poll.
\<close>

locale chain_keeps =
  fixes C :: "'c chain" and J :: "'c \<Rightarrow> bool"
  assumes upload_keeps: "BatchUpload C c items = (c', r) \<Longrightarrow> J c \<Longrightarrow> J c'"
    and status_keeps: "FileStatusOf C c root = (c', a) \<Longrightarrow> J c \<Longrightarrow> J c'"
begin

lemma collect_keeps: "J c \<Longrightarrow> J (fst (fst (collect H C W (c, s) batch items d)))"
proof (induction batch arbitrary: c s items d)
  case (Cons m rest)
  then show ?case
    by (auto split: prod.splits sum.splits option.splits file_status.splits dest: status_keeps)
qed simp

lemma reconcile_item_keeps: "J (fst cs) \<Longrightarrow> J (fst (reconcile_item H C W e cs it))"
  by (auto simp: reconcile_item_def Let_def split: prod.splits sum.splits dest: status_keeps)

lemma reconcile_keeps: "J (fst cs) \<Longrightarrow> J (fst (reconcileFailedBatch H C W cs items e))"
proof (induction items arbitrary: cs)
  case (Cons it items)
  from Cons.IH [OF reconcile_item_keeps [OF Cons.prems]] show ?case by simp
qed simp

lemma processBatch_keeps: "J (fst cs) \<Longrightarrow> J (fst (fst (processBatch H C W cs batch)))"
proof -
  assume J: "J (fst cs)"
  obtain c1 s1 x where col: "collect H C W cs batch [] None = ((c1, s1), x)" by (metis prod.collapse)
  have c1: "J c1" using collect_keeps [of "fst cs" H W "snd cs" batch "[]" None] J col by simp
  show ?thesis
  proof (cases x)
    case (Inl e)
    then show ?thesis using col c1 by (simp add: processBatch_def)
  next
    case (Inr y)
    obtain items d where y: "y = (items, d)" by force
    obtain c2 r where up: "BatchUpload C c1 items = (c2, r)" by force
    have c2: "J c2" using upload_keeps [OF up c1] .
    have "J (fst (reconcileFailedBatch H C W (c2, s2) items e))" for s2 e
      using reconcile_keeps [of "(c2, s2)"] c2 by simp
    then show ?thesis using col Inr y up c1 c2
      by (auto simp: processBatch_def split: prod.splits option.splits sum.splits)
  qed
qed

lemma Flush_keeps:
  assumes "Flush H C W cs = Some (cs', e)" and "0 < BatchMax W" and "J (fst cs)"
  shows "J (fst cs')"
proof (cases "UploadQueue H (snd cs) 0")
  case (Inl er)
  then show ?thesis using assms by (simp add: Flush_def)
next
  case (Inr queue)
  have "\<exists>cs' e' k. flush_loop H C W queue 0 cs None = Some (cs', e') \<and> int (length queue) \<le> k \<and> J (fst cs')"
    using flush_loop_rule [OF assms(2), where I = "\<lambda>k cs. J (fst cs)"] processBatch_keeps assms(3)
    by blast
  then show ?thesis using assms(1) Inr by (auto simp: Flush_def)
qed

lemma poll_loop_keeps: "J c \<Longrightarrow> J (fst (fst (poll_loop H C (c, s) queue e)))"
proof (induction queue arbitrary: c s e)
  case (Cons m rest)
  then show ?case
    by (auto split: prod.splits sum.splits file_status.splits dest: status_keeps)
qed simp

lemma PollFinality_keeps: "J (fst cs) \<Longrightarrow> J (fst (fst (PollFinality H C cs)))"
  using poll_loop_keeps [of "fst cs" H "snd cs"] by (auto simp: PollFinality_def split: sum.splits)

end

text \<open>
  The log of \<open>logged C\<close> is true: every entry is a call that \<open>C\<close> answered as recorded.
\<close>

definition real_calls :: "'c chain \<Rightarrow> chain_call list \<Rightarrow> bool" where
  "real_calls C l \<longleftrightarrow>
     (\<forall>items r. Upload items r \<in> set l \<longrightarrow> (\<exists>c c'. BatchUpload C c items = (c', r)))
     \<and> (\<forall>root a. Ask root a \<in> set l \<longrightarrow> (\<exists>c c'. FileStatusOf C c root = (c', a)))"

interpretation log: chain_keeps "logged C" "\<lambda>cl. real_calls C (snd cl)" for C :: "'c chain"
  by unfold_locales (auto simp: real_calls_def, blast+)

section \<open>The calls of a flush\<close>

fun uploads :: "chain_call list \<Rightarrow> item list list" where
  "uploads [] = []"
| "uploads (Ask r a # calls) = uploads calls"
| "uploads (Upload items r # calls) = items # uploads calls"

lemma uploads_append [simp]: "uploads (xs @ ys) = uploads xs @ uploads ys"
  by (induction xs rule: uploads.induct) auto

lemma uploads_asks: "only_asks xs \<Longrightarrow> uploads xs = []"
  by (induction xs rule: uploads.induct) (auto simp: only_asks_def)

text \<open>Every submission in the list is justified by the calls before it.\<close>

definition safe_calls :: "('b, 'v, 'z) host_scheme \<Rightarrow> 'b store \<Rightarrow> chain_call list \<Rightarrow> bool" where
  "safe_calls H s0 calls \<longleftrightarrow>
     (\<forall>pre items r post. calls = pre @ Upload items r # post \<longrightarrow>
        (\<forall>it \<in> set items. submit_ok H s0 pre it))"

lemma safe_calls_asks: "only_asks xs \<Longrightarrow> safe_calls H s0 xs"
  by (auto simp: safe_calls_def only_asks_def)

lemma safe_calls_append:
  assumes "safe_calls H s0 xs" and "safe_calls H s0 ys"
  shows "safe_calls H s0 (xs @ ys)"
  unfolding safe_calls_def
proof (intro allI impI)
  fix pre items r post
  assume eq: "xs @ ys = pre @ Upload items r # post"
  from eq consider (left) us where "xs = pre @ Upload items r # us"
    | (right) us where "pre = xs @ us" "ys = us @ Upload items r # post"
    by (auto simp: append_eq_append_conv2 append_eq_Cons_conv Cons_eq_append_conv)
  then show "\<forall>it \<in> set items. submit_ok H s0 pre it"
  proof cases
    case left
    with assms(1) show ?thesis by (auto simp: safe_calls_def)
  next
    case right
    with assms(2) have "\<forall>it \<in> set items. submit_ok H s0 us it" by (auto simp: safe_calls_def)
    with right show ?thesis by (auto intro: submit_ok_mono)
  qed
qed

lemma safe_calls_upload:
  assumes "only_asks asks" and "only_asks post" and "\<forall>it \<in> set items. submit_ok H s0 asks it"
  shows "safe_calls H s0 (asks @ Upload items r # post)"
  unfolding safe_calls_def
proof (intro allI impI)
  fix pre items' r' post'
  assume eq: "asks @ Upload items r # post = pre @ Upload items' r' # post'"
  have "Upload items' r' \<notin> set asks" "Upload items' r' \<notin> set post"
    using assms(1,2) by (auto simp: only_asks_def)
  moreover have "Upload items r \<notin> set asks" "Upload items r \<notin> set post"
    using assms(1,2) by (auto simp: only_asks_def)
  ultimately have "asks = pre \<and> items = items'"
    using eq by (auto simp: append_eq_append_conv2 append_eq_Cons_conv Cons_eq_append_conv)
  with assms(3) show "\<forall>it \<in> set items'. submit_ok H s0 pre it" by simp
qed

lemma batch_calls_effect:
  assumes "batch_calls H s0 roots new"
  shows "safe_calls H s0 new \<and> subseq (concat (map (map ItRoot) (uploads new))) roots
    \<and> (\<forall>b \<in> set (uploads new). b \<noteq> [] \<and> length b \<le> length roots)"
  using assms unfolding batch_calls_def
proof
  assume "only_asks new"
  then show ?thesis by (simp add: safe_calls_asks uploads_asks)
next
  assume "\<exists>asks items r post. new = asks @ Upload items r # post \<and> only_asks asks \<and> only_asks post
          \<and> items \<noteq> [] \<and> subseq (map ItRoot items) roots
          \<and> (\<forall>it \<in> set items. submit_ok H s0 asks it)"
  then show ?thesis
    using safe_calls_upload not_subseq_length
    by (fastforce simp: uploads_asks dest: list_emb_length)
qed

text \<open>What a flush of the queue \<open>queue\<close> has done after its first members \<open>done\<close>.\<close>

definition flush_done ::
  "('b, 'v, 'z) host_scheme \<Rightarrow> worker_config \<Rightarrow> 'b store \<Rightarrow> chain_call list \<Rightarrow> string list
     \<Rightarrow> chain_call list \<Rightarrow> 'b store \<Rightarrow> bool" where
  "flush_done H W s0 l0 roots l s \<longleftrightarrow>
     (\<exists>new. l = l0 @ new \<and> touched H (set roots) new s0 s \<and> safe_calls H s0 new
          \<and> subseq (concat (map (map ItRoot) (uploads new))) roots
          \<and> (\<forall>b \<in> set (uploads new). b \<noteq> [] \<and> int (length b) \<le> BatchMax W))"

context store_host
begin

lemma flush_done_step:
  assumes "flush_done H W s0 l0 (map Root before) l s" and "store_inv H s0"
    and "distinct (map Root (before @ batch))"
    and "int (length batch) \<le> BatchMax W"
    and "processBatch H (logged C) W ((c, l), s) batch = (((c', l'), s'), e)"
  shows "flush_done H W s0 l0 (map Root (before @ batch)) l' s'"
proof -
  obtain old where old: "l = l0 @ old" "safe_calls H s0 old"
    "subseq (concat (map (map ItRoot) (uploads old))) (map Root before)"
    "\<forall>b \<in> set (uploads old). b \<noteq> [] \<and> int (length b) \<le> BatchMax W"
    and t: "touched H (Root ` set before) old s0 s"
    using assms(1) by (auto simp: flush_done_def)
  have inv: "store_inv H s" using touched_inv [OF t assms(2)] .
  have at: "meta_at H s (Root m) = meta_at H s0 (Root m)" if "m \<in> set batch" for m
  proof -
    have "Root m \<notin> Root ` set before" using assms(3) that by force
    then show ?thesis by (rule touched_frame [OF t assms(2)])
  qed
  obtain new where new: "l' = l @ new" "touched H (Root ` set batch) new s s'"
    "batch_calls H s0 (map Root batch) new"
    using processBatch_log [OF assms(5) inv] assms(3) at by auto
  note fx = batch_calls_effect [OF new(3)]
  have "touched H (set (map Root (before @ batch))) (old @ new) s0 s'"
    by (rule touched_trans [OF touched_mono [OF new(2)] touched_mono [OF t]]) auto
  moreover have "safe_calls H s0 (old @ new)" using safe_calls_append old(2) fx by blast
  moreover have "subseq (concat (map (map ItRoot) (uploads (old @ new)))) (map Root (before @ batch))"
    using list_emb_append_mono [OF old(3)] fx by simp
  moreover have "\<forall>b \<in> set (uploads (old @ new)). b \<noteq> [] \<and> int (length b) \<le> BatchMax W"
    using old(4) fx assms(4) by fastforce
  ultimately show ?thesis
    unfolding flush_done_def using old(1) new(1) by (metis append_assoc)
qed

lemma Flush_calls:
  fixes C :: "'c chain"
  assumes inv: "store_inv H s" and open_db: "\<not> closed s" and pos: "0 < BatchMax W"
  shows "\<exists>ms c' l' s' e. Flush H (logged C) W ((c, l), s) = Some (((c', l'), s'), e)
     \<and> set ms = {m. meta_at H s (Root m) = Some m \<and> in_upload (Status m)}
     \<and> sorted_wrt (<) (map Root ms)
     \<and> flush_done H W s l (map Root ms) l' s'"
proof -
  have "queue_inv H s" using inv by (simp add: store_inv_def)
  then obtain ms where ms: "UploadQueue H s 0 = Inr ms" "sorted_wrt (<) (map Root ms)"
    "set ms = {m. meta_at H s (Root m) = Some m \<and> in_upload (Status m)}"
    using queue_read [OF inv open_db, of q_upload in_upload 0]
    by (auto simp: UploadQueue_def queue_inv_def)
  let ?I = "\<lambda>k cs. flush_done H W s l (map Root (take (nat k) ms)) (snd (fst cs)) (snd cs)"
  have "\<exists>cs' e' k. flush_loop H (logged C) W ms 0 ((c, l), s) None = Some (cs', e')
      \<and> int (length ms) \<le> k \<and> ?I k cs'"
  proof (rule flush_loop_rule [OF pos])
    fix k :: int and cs :: "('c \<times> chain_call list) \<times> 'b store"
    assume k: "0 \<le> k" "k < int (length ms)" and I: "?I k cs"
    let ?b = "take (nat (min (k + BatchMax W) (int (length ms)) - k)) (drop (nat k) ms)"
    obtain c1 l1 s1 where cs: "cs = ((c1, l1), s1)" by (metis prod.collapse)
    obtain c2 l2 s2 e2 where p: "processBatch H (logged C) W ((c1, l1), s1) ?b = (((c2, l2), s2), e2)"
      by (metis prod.collapse)
    note tk = take_chunk [OF k pos]
    have "distinct (map Root (take (nat k) ms @ ?b))"
      unfolding tk [symmetric] using sorted_strict_distinct [OF ms(2)]
      by (metis distinct_take take_map)
    moreover have "int (length ?b) \<le> BatchMax W" using k pos by auto
    ultimately have "flush_done H W s l (map Root (take (nat k) ms @ ?b)) l2 s2"
      using flush_done_step [OF _ inv _ _ p] I cs by auto
    then show "?I (k + BatchMax W) (fst (processBatch H (logged C) W cs ?b))"
      unfolding cs p by (simp add: tk)
  next
    show "?I 0 ((c, l), s)" by (auto simp: flush_done_def safe_calls_def)
  qed simp
  then obtain c' l' s' e' k where r: "flush_loop H (logged C) W ms 0 ((c, l), s) None = Some (((c', l'), s'), e')"
    "int (length ms) \<le> k" "flush_done H W s l (map Root (take (nat k) ms)) l' s'"
    by (metis prod.collapse)
  have "take (nat k) ms = ms" using r(2) by simp
  with r ms show ?thesis by (auto simp: Flush_def)
qed

end

end
