(* ===== verification/Uploader_Run.thy ===== *)
theory Uploader_Run
  imports Uploader_Facts
begin

text \<open>
  The worker beside its clients: the finality poll, the system of client operations and worker
  passes in any order with its invariant, the accounting of refused batches, and the tick that
  drains the queues when the chain works.
\<close>

section \<open>The finality poll\<close>

lemma poll_log:
  "\<exists>d new t e'. poll_loop H (logged C) ((c, l), s) queue e = (((d, l @ new), t), e')
     \<and> only_asks new \<and> touched H (Root ` set queue) new s t"
proof (induction queue arbitrary: c l s e)
  case Nil
  have "touched H {} [] s s" by simp
  then show ?case by (metis append_Nil2 image_empty list.set(1) only_asks_simps(1) poll_loop.simps(1))
next
  case (Cons m rest)
  obtain d a where a: "FileStatusOf C c (Root m) = (d, a)" by force
  let ?n = "[Ask (Root m) a]"
  have la: "FileStatusOf (logged C) (c, l) (Root m) = ((d, l @ ?n), a)" using a by simp
  have "\<exists>u e1. poll_loop H (logged C) ((c, l), s) (m # rest) e
          = poll_loop H (logged C) ((d, l @ ?n), u) rest e1 \<and> touched H {Root m} ?n s u"
  proof -
    consider (fin) "a = Inr FileFinalized" | (pruned) "a = Inr FilePruned"
      | (other) "a \<noteq> Inr FileFinalized" "a \<noteq> Inr FilePruned" by blast
    then show ?thesis
    proof cases
      case fin
      obtain u r where u: "SetStatus H s (Root m) StatusFinalized [] [] = (u, r)" by force
      have "touched H {Root m} ?n s u"
        using touched_SetStatus [of "Root m" "{Root m}" ?n StatusFinalized H s s "[]" "[]"] fin u by auto
      with la fin u show ?thesis
        by (intro exI [of _ u] exI [of _ "keep_first e r"]) (simp del: logged_simps)
    next
      case pruned
      obtain u r where u: "SetStatus H s (Root m) StatusFailed [] ''pruned'' = (u, r)" by force
      have "touched H {Root m} ?n s u"
        using touched_SetStatus [of "Root m" "{Root m}" ?n StatusFailed H s s "[]" "''pruned''"] pruned u
        by auto
      with la pruned u show ?thesis
        by (intro exI [of _ u] exI [of _ "keep_first e r"]) (simp del: logged_simps)
    next
      case other
      then have "\<exists>e1. poll_loop H (logged C) ((c, l), s) (m # rest) e
          = poll_loop H (logged C) ((d, l @ ?n), s) rest e1"
        using la by (auto simp del: logged_simps split: sum.splits file_status.splits)
      moreover have "touched H {Root m} ?n s s" by simp
      ultimately show ?thesis by blast
    qed
  qed
  then obtain u e1 where u: "poll_loop H (logged C) ((c, l), s) (m # rest) e
          = poll_loop H (logged C) ((d, l @ ?n), u) rest e1" "touched H {Root m} ?n s u"
    by blast
  obtain d2 new t e2 where r: "poll_loop H (logged C) ((d, l @ ?n), u) rest e1
      = (((d2, (l @ ?n) @ new), t), e2)" "only_asks new" "touched H (Root ` set rest) new u t"
    using Cons.IH [of d "l @ ?n" u e1] by blast
  have "touched H (Root ` set (m # rest)) (?n @ new) s t"
    by (rule touched_trans [OF touched_mono [OF r(3)] touched_mono [OF u(2)]]) auto
  with u(1) r(1,2) show ?case
    by (intro exI [of _ d2] exI [of _ "?n @ new"] exI [of _ t] exI [of _ e2]) simp
qed

context store_host
begin

lemma PollFinality_calls:
  assumes "store_inv H s"
  shows "\<exists>d new t e'. PollFinality H (logged C) ((c, l), s) = (((d, l @ new), t), e')
     \<and> only_asks new
     \<and> touched H {r. \<exists>m. meta_at H s r = Some m \<and> Status m = StatusOnchain} new s t"
proof (cases "closed s")
  case True
  then have "PollFinality H (logged C) ((c, l), s) = (((c, l @ []), s), Some ErrDatabaseNotOpen)"
    by (simp add: PollFinality_def FinalizeQueue_def listQueue_def db_view_def)
  then show ?thesis using only_asks_simps(1) touched_refl by blast
next
  case False
  have "queue_inv H s" using assms by (simp add: store_inv_def)
  then obtain ms where ms: "FinalizeQueue H s 0 = Inr ms"
    "set ms = {m. meta_at H s (Root m) = Some m \<and> in_finalize (Status m)}"
    using queue_read [OF assms False, of q_finalize in_finalize 0]
    by (auto simp: FinalizeQueue_def queue_inv_def)
  obtain d new t e' where r: "poll_loop H (logged C) ((c, l), s) ms None = (((d, l @ new), t), e')"
    "only_asks new" "touched H (Root ` set ms) new s t"
    using poll_log [of H C c l s ms None] by blast
  have "touched H {r. \<exists>m. meta_at H s r = Some m \<and> Status m = StatusOnchain} new s t"
    by (rule touched_mono [OF r(3)]) (auto simp: ms(2) in_finalize_def)
  with r ms(1) show ?thesis by (simp add: PollFinality_def)
qed

end

section \<open>The system\<close>

text \<open>
  The worker shares the database with the request handlers. A step is one store operation of a
  handler (which creates objects only as pending, and never sets a status), one batch of a
  flush, a whole flush or a whole poll; batches of a flush whose snapshot is stale are covered
  because a batch may be any list of records with distinct roots.
\<close>

fun client_op :: "store_op \<Rightarrow> bool" where
  "client_op (OpCreate m) = (Status m = StatusPending)"
| "client_op (OpSetStatus r st tx why) = False"
| "client_op (OpIncRetries r) = False"
| "client_op (OpSetSkipTx r v) = False"
| "client_op _ = True"

type_synonym ('c, 'b) world = "('c \<times> chain_call list) \<times> 'b store"

inductive sys_step ::
  "('b, 'v, 'z) host_scheme \<Rightarrow> 'c chain \<Rightarrow> worker_config \<Rightarrow> ('c, 'b) world \<Rightarrow> ('c, 'b) world \<Rightarrow> bool"
  for H :: "('b, 'v, 'z) host_scheme" and C :: "'c chain" and W :: worker_config where
  sys_client: "store_exec H s p = Some (t, x) \<Longrightarrow> op_ok H s p \<Longrightarrow> client_op p \<Longrightarrow>
    sys_step H C W (cl, s) (cl, t)"
| sys_batch: "processBatch H (logged C) W cs batch = (cs', e) \<Longrightarrow> distinct (map Root batch) \<Longrightarrow>
    sys_step H C W cs cs'"
| sys_flush: "Flush H (logged C) W cs = Some (cs', e) \<Longrightarrow> 0 < BatchMax W \<Longrightarrow> sys_step H C W cs cs'"
| sys_poll: "PollFinality H (logged C) cs = (cs', e) \<Longrightarrow> sys_step H C W cs cs'"

inductive_cases sys_stepE: "sys_step H C W cs cs'"

definition sys_start :: "('b, 'v, 'z) host_scheme \<Rightarrow> ('c, 'b) world \<Rightarrow> bool" where
  "sys_start H cs \<longleftrightarrow> store_start H (snd cs) \<and> snd (fst cs) = []"

definition sys_reachable ::
  "('b, 'v, 'z) host_scheme \<Rightarrow> 'c chain \<Rightarrow> worker_config \<Rightarrow> ('c, 'b) world \<Rightarrow> bool" where
  "sys_reachable H C W cs \<longleftrightarrow> (\<exists>cs0. sys_start H cs0 \<and> (sys_step H C W)\<^sup>*\<^sup>* cs0 cs)"

definition sys_inv :: "('b, 'v, 'z) host_scheme \<Rightarrow> ('c, 'b) world \<Rightarrow> bool" where
  "sys_inv H cs \<longleftrightarrow> store_inv H (snd cs)
     \<and> (\<forall>r m. meta_at H (snd cs) r = Some m \<longrightarrow> status_ok (snd (fst cs)) r (Status m))"

context store_host
begin

lemma sys_inv_honest: "sys_inv H ((c, l), s) \<longleftrightarrow> store_inv H s \<and> honest l s"
  by (simp add: sys_inv_def honest_def)

lemma sys_inv_touched:
  assumes "touched H R new s t" and "sys_inv H ((c, l), s)"
  shows "sys_inv H ((c', l @ new), t)"
proof -
  have t: "touched H R (l @ new) s t" using assms(1) by (rule touched_mono) auto
  have s: "store_inv H s" "honest (l @ new) s"
    using assms(2) by (auto simp: sys_inv_honest intro: honest_mono)
  show ?thesis
    using touched_inv [OF t s(1)] touched_honest [OF t s(1)] s(2) by (auto simp: sys_inv_honest)
qed

lemma client_op_honest:
  assumes "store_inv H s" and "store_exec H s p = Some (t, x)" and "op_ok H s p" and "client_op p"
    and "honest l s"
  shows "honest l t"
proof -
  have same: "honest l t" if "objects t = objects s"
    using assms(5) meta_at_cong [OF that, of H] by (simp add: honest_def)
  show ?thesis
  proof (cases p)
    case (OpCreate m)
    with assms(2) have "CreateObject H s m = (t, x)" by simp
    then show ?thesis
    proof (cases rule: CreateObject_cases)
      case (ok m')
      then have "Status m' = StatusPending" using assms(4) OpCreate by simp
      then show ?thesis using assms(5) meta_at_wrote [OF ok(4)] by (auto simp: honest_def)
    qed (use same in \<open>simp add: same_data_def\<close>)
  next
    case (OpReenqueue r)
    with assms(2) obtain y where "mutate H s r reenqueue_fn = (t, y)"
      by (auto simp: Reenqueue_def void_eq)
    then show ?thesis by (rule mutate_honest [OF assms(1)]) (simp_all add: assms(5))
  next
    case (OpTouch r at)
    with assms(2) have "Touch H s r at = (t, x)" by simp
    then show ?thesis
    proof (cases rule: Touch_cases)
      case (ok m raw)
      have "meta_inv H s" using assms(1) by (simp add: store_inv_def)
      then have "Root m = r" using ok(2) meta_inv_at by blast
      then have "meta_at H t q = (if q = r then Some (json_meta (m\<lparr>LastAccess := at\<rparr>)) else meta_at H s q)" for q
        using ok(3,4) by (auto simp: meta_at_def)
      then show ?thesis using assms(5) ok(2) by (auto simp: honest_def)
    qed (use same in \<open>simp_all add: same_data_def\<close>)
  next
    case (OpCreateBucket n now)
    with assms(2) have "S3CreateBucket H s n now = (t, x)" by simp
    then show ?thesis
      by (cases rule: S3CreateBucket_cases) (use same in \<open>auto simp: same_data_def same_objects_def\<close>)
  next
    case (OpDeleteBucket n)
    with assms(2) have "S3DeleteBucket H s n = (t, x)" by simp
    then show ?thesis
      by (cases rule: S3DeleteBucket_cases) (use same in \<open>auto simp: same_data_def same_objects_def\<close>)
  next
    case (OpForceDelete n)
    with assms(2) have "S3ForceDeleteBucket H s n = Some (t, x)" by simp
    then show ?thesis
      by (cases rule: S3ForceDeleteBucket_cases)
        (use same in \<open>auto simp: same_data_def same_objects_def\<close>)
  next
    case (OpPutKey b k r)
    with assms(2) have "S3PutObjectKey H s b k r = (t, x)" by simp
    then show ?thesis
      by (cases rule: S3PutObjectKey_cases) (use same in \<open>auto simp: same_data_def same_objects_def\<close>)
  next
    case (OpDeleteKey b k)
    with assms(2) have "S3DeleteObjectKey H s b k = (t, x)" by simp
    then show ?thesis
      by (cases rule: S3DeleteObjectKey_cases) (use same in \<open>auto simp: same_data_def same_objects_def\<close>)
  qed (use assms(2,4) same in \<open>auto simp: Close_store_def\<close>)
qed

lemma sys_step_inv:
  assumes "sys_step H C W cs cs'" and "sys_inv H cs"
  shows "sys_inv H cs'"
  using assms(1)
proof (cases rule: sys_step.cases)
  case (sys_client s p t x cl)
  obtain c l where cl: "cl = (c, l)" by force
  show ?thesis
    using assms(2) store_exec_inv [OF sys_client(3)] client_op_honest [OF _ sys_client(3,4,5)]
      sys_client(1,2,4) by (auto simp: cl sys_inv_honest)
next
  case (sys_batch batch e)
  obtain c l s where cs: "cs = ((c, l), s)" by (metis prod.collapse)
  obtain c' l' s' where cs': "cs' = ((c', l'), s')" by (metis prod.collapse)
  have "store_inv H s" using assms(2) cs by (simp add: sys_inv_def)
  then obtain new where "l' = l @ new" "touched H (Root ` set batch) new s s'"
    using processBatch_log [of C W c l s batch c' l' s' e s] sys_batch cs cs' by auto
  with sys_inv_touched [of _ new s s' c l c'] assms(2) cs have "sys_inv H ((c', l'), s')" by simp
  then show ?thesis using cs' by simp
next
  case (sys_flush e)
  obtain c l s where cs: "cs = ((c, l), s)" by (metis prod.collapse)
  show ?thesis
  proof (cases "closed s")
    case True
    then show ?thesis
      using sys_flush assms(2) cs by (auto simp: Flush_def UploadQueue_def listQueue_def db_view_def)
  next
    case False
    have "store_inv H s" using assms(2) cs by (simp add: sys_inv_def)
    from Flush_calls [OF this False sys_flush(2), of C c l]
    obtain ms :: "object_meta list" and c' l' s' e' where f: "Flush H (logged C) W ((c, l), s) = Some (((c', l'), s'), e')"
      "flush_done H W s l (map Root ms) l' s'" by blast
    then obtain new where "l' = l @ new" "touched H (set (map Root ms)) new s s'"
      by (auto simp: flush_done_def)
    with sys_inv_touched [of _ new s s' c l c'] assms(2) cs have "sys_inv H ((c', l'), s')" by simp
    then show ?thesis using f(1) sys_flush(1) cs by simp
  qed
next
  case (sys_poll e)
  obtain c l s where cs: "cs = ((c, l), s)" by (metis prod.collapse)
  have inv: "store_inv H s" using assms(2) cs by (simp add: sys_inv_def)
  obtain d new t e' R where "PollFinality H (logged C) ((c, l), s) = (((d, l @ new), t), e')"
    "touched H R new s t"
    using PollFinality_calls [OF inv, of C c l] by blast
  with sys_inv_touched [of R new s t c l d] assms(2) cs sys_poll(1) show ?thesis by simp
qed

lemma sys_start_inv: "sys_start H cs \<Longrightarrow> sys_inv H cs"
proof -
  assume start: "sys_start H cs"
  then have "store_inv H (snd cs)" using store_start_inv by (simp add: sys_start_def)
  moreover obtain cl s where "cs = (cl, s)" by (cases cs)
  then have "meta_at H (snd cs) r = None" for r
    using start get_empty
    by (auto simp: sys_start_def store_start_def Open_store_def create_if_not_exists_def meta_at_def
        split: option.splits)
  ultimately show ?thesis by (simp add: sys_inv_def)
qed

end

sublocale store_host \<subseteq> sys: invariant_system "sys_start H" "sys_step H C W" "sys_inv H"
  for C W
  by unfold_locales (auto intro: sys_start_inv sys_step_inv)

context store_host
begin

lemma sys_reachable_inv: "sys_reachable H C W cs \<Longrightarrow> sys_inv H cs"
  unfolding sys_reachable_def using sys.inv_reachable by blast

end

text \<open>In every reachable state the log of the chain calls is true.\<close>

interpretation real: invariant_system "sys_start H" "sys_step H C W" "\<lambda>cs. real_calls C (snd (fst cs))"
  for H :: "('b, 'v, 'z) host_scheme" and C :: "'c chain" and W
proof unfold_locales
  fix s :: "('c, 'b) world"
  assume "sys_start H s"
  then show "real_calls C (snd (fst s))" by (simp add: sys_start_def real_calls_def)
next
  fix s t :: "('c, 'b) world"
  assume "sys_step H C W s t" and J: "real_calls C (snd (fst s))"
  then show "real_calls C (snd (fst t))"
  proof (cases rule: sys_step.cases)
    case (sys_batch batch e)
    then show ?thesis using log.processBatch_keeps [of C s H W batch] J by simp
  next
    case (sys_flush e)
    then show ?thesis using log.Flush_keeps [of H C W s t e] J by simp
  next
    case (sys_poll e)
    then show ?thesis using log.PollFinality_keeps [of C s H] J by simp
  qed simp
qed

lemma sys_reachable_real: "sys_reachable H C W cs \<Longrightarrow> real_calls C (snd (fst cs))"
  unfolding sys_reachable_def using real.inv_reachable by blast

end
