(* ===== verification/Uploader_Progress.thy ===== *)
theory Uploader_Progress
  imports Uploader_Run
begin

text \<open>
  Progress of the worker on a reliable host: what a batch does to each of its members when the
  nodes answer, the accounting of a refused batch, and the bound on the retries of an object.
\<close>

section \<open>Writes that succeed\<close>

text \<open>A good store: its invariant holds and it is open.\<close>

definition good :: "('b, 'v, 'z) host_scheme \<Rightarrow> 'b store \<Rightarrow> bool" where
  "good H s \<longleftrightarrow> store_inv H s \<and> \<not> closed s"

text \<open>The chain answers every status query; \<open>accepts\<close> is a chain that takes every batch.\<close>

definition answers :: "'c chain \<Rightarrow> bool" where
  "answers C \<longleftrightarrow> (\<forall>c r. \<exists>c' a. FileStatusOf C c r = (c', Inr a))"

definition accepts :: "'c chain \<Rightarrow> bool" where
  "accepts C \<longleftrightarrow> (\<forall>c items. \<exists>c' th. BatchUpload C c items = (c', Inr th))"

context reliable_host
begin

lemma good_mutate:
  assumes "good H s" and "meta_at H s r = Some m" and "\<And>m. Root (fn m) = Root m"
    and "\<And>m. SHA256 (fn m) = SHA256 m"
    and "CreatedAt (fn m) = CreatedAt m" and "LastAccess (fn m) = LastAccess m"
  shows "\<exists>t. mutate H s r fn = (t, Inr ((fn m)\<lparr>UpdatedAt := clock H (txn s)\<rparr>)) \<and> good H t
     \<and> meta_at H t = (meta_at H s)(r \<mapsto> json_meta ((fn m)\<lparr>UpdatedAt := clock H (txn s)\<rparr>))"
proof -
  have inv: "store_inv H s" "\<not> closed s" using assms(1) by (auto simp: good_def)
  obtain t where t: "mutate H s r fn = (t, Inr ((fn m)\<lparr>UpdatedAt := clock H (txn s)\<rparr>))"
    using mutate_succeeds [where fn = fn, OF inv assms(2)] assms(3,5,6) by blast
  have "Root m = r" using meta_inv_at [of H s r m] inv(1) assms(2) by (simp add: store_inv_def)
  from t have "meta_at H t = (meta_at H s)(r \<mapsto> json_meta ((fn m)\<lparr>UpdatedAt := clock H (txn s)\<rparr>))"
  proof (cases rule: mutate_cases)
    case (ok m1 m2)
    then have "m1 = m" using assms(2) by simp
    then show ?thesis
      using meta_at_wrote [OF ok(4)] ok(3) assms(3) \<open>Root m = r\<close> by (auto simp: fun_eq_iff)
  qed simp
  moreover have "good H t"
    using mutate_inv [OF t] assms(3,4) inv mutate_closed [OF t] by (simp add: good_def)
  ultimately show ?thesis using t by blast
qed

lemma good_SetStatus:
  assumes "good H s" and "meta_at H s r = Some m"
  shows "\<exists>t. SetStatus H s r st tx why = (t, Inr ()) \<and> good H t
     \<and> meta_at H t = (meta_at H s)(r \<mapsto>
           json_meta ((set_status_fn st tx why m)\<lparr>UpdatedAt := clock H (txn s)\<rparr>))"
  using good_mutate [OF assms, of "set_status_fn st tx why"]
  by (auto simp: SetStatus_def set_status_fn_eq)

lemma good_SetSkipTx:
  assumes "good H s" and "meta_at H s r = Some m"
  shows "\<exists>t. SetSkipTx H s r v = (t, Inr ()) \<and> good H t
     \<and> meta_at H t = (meta_at H s)(r \<mapsto> json_meta ((set_skip_fn v m)\<lparr>UpdatedAt := clock H (txn s)\<rparr>))"
  using good_mutate [OF assms, of "set_skip_fn v"] by (auto simp: SetSkipTx_def set_skip_fn_def)

lemma good_IncRetries:
  assumes "good H s" and "meta_at H s r = Some m"
  shows "\<exists>t. IncRetries H s r = (t, Inr (Retries m + 1)) \<and> good H t
     \<and> meta_at H t = (meta_at H s)(r \<mapsto> json_meta ((inc_retries_fn m)\<lparr>UpdatedAt := clock H (txn s)\<rparr>))"
  using good_mutate [OF assms, of inc_retries_fn] by (auto simp: inc_retries_fn_def)

end

section \<open>Retry accounting\<close>

text \<open>
  What a refused batch does to one member: \<open>a\<close> is the answer of the node to the status query
  that follows.
\<close>

definition refused :: "worker_config \<Rightarrow> file_status result \<Rightarrow> object_meta \<Rightarrow> object_meta \<Rightarrow> bool" where
  "refused W a m m' \<longleftrightarrow>
     (if a = Inr FileFinalized
      then Status m' = StatusFinalized \<and> Retries m' = Retries m \<and> SkipTx m' = SkipTx m
      else Retries m' = Retries m + 1
        \<and> Status m' = (if MaxRetries W < Retries m + 1 then StatusFailed else StatusPending)
        \<and> SkipTx m' = (SkipTx m \<or> a = Inr FileUploading))"

context reliable_host
begin

lemma reconcile_item_refused:
  assumes "good H s" and "meta_at H s (ItRoot it) = Some m" and "FileStatusOf C c (ItRoot it) = (c', a)"
  shows "\<exists>t m'. reconcile_item H C W e (c, s) it = (c', t) \<and> good H t
     \<and> meta_at H t = (meta_at H s)(ItRoot it \<mapsto> m') \<and> refused W a m m'"
proof (cases "a = Inr FileFinalized")
  case True
  then show ?thesis
    using good_SetStatus [OF assms(1,2), of StatusFinalized "[]" "[]"] assms(3)
    by (auto simp: reconcile_item_def refused_def set_status_fn_eq)
next
  case False
  let ?r = "ItRoot it"
  define s1 where "s1 = (if a = Inr FileUploading then fst (SetSkipTx H s ?r True) else s)"
  have "\<exists>m1. good H s1 \<and> meta_at H s1 = (meta_at H s)(?r \<mapsto> m1) \<and> Retries m1 = Retries m
      \<and> SkipTx m1 = (SkipTx m \<or> a = Inr FileUploading)"
  proof (cases "a = Inr FileUploading")
    case True
    then show ?thesis
      using good_SetSkipTx [OF assms(1,2), of True] by (auto simp: s1_def set_skip_fn_def)
  next
    case False
    have "meta_at H s = (meta_at H s)(?r \<mapsto> m)" using assms(2) by (simp add: fun_upd_idem)
    with False assms(1) show ?thesis by (intro exI [of _ m]) (simp add: s1_def)
  qed
  then obtain m1 where m1: "good H s1" "meta_at H s1 = (meta_at H s)(?r \<mapsto> m1)" "Retries m1 = Retries m"
    "SkipTx m1 = (SkipTx m \<or> a = Inr FileUploading)" by blast
  have "meta_at H s1 ?r = Some m1" using m1(2) by simp
  from good_IncRetries [OF m1(1) this] obtain s2 m2 where
    s2: "IncRetries H s1 ?r = (s2, Inr (Retries m1 + 1))" "good H s2"
    "meta_at H s2 = (meta_at H s1)(?r \<mapsto> m2)"
    and m2: "m2 = json_meta ((inc_retries_fn m1)\<lparr>UpdatedAt := clock H (txn s1)\<rparr>)"
    by blast
  define st where "st = (if MaxRetries W < Retries m + 1 then StatusFailed else StatusPending)"
  define why where "why = (if MaxRetries W < Retries m + 1
    then ''retries exhausted: '' @ err_text e else [])"
  have "meta_at H s2 ?r = Some m2" using s2(3) by simp
  from good_SetStatus [OF s2(2) this, of st "[]" why] obtain t where
    t: "SetStatus H s2 ?r st [] why = (t, Inr ())" "good H t"
    "meta_at H t = (meta_at H s2)(?r \<mapsto>
       json_meta ((set_status_fn st [] why m2)\<lparr>UpdatedAt := clock H (txn s2)\<rparr>))"
    by blast
  have "reconcile_item H C W e (c, s) it = (c', t)"
    using reconcile_item_eq [OF assms(3) False s2(1) [unfolded s1_def]] t(1) m1(3)
    by (auto simp: st_def why_def split: if_splits)
  moreover have "meta_at H t = (meta_at H s)(?r \<mapsto>
      json_meta ((set_status_fn st [] why m2)\<lparr>UpdatedAt := clock H (txn s2)\<rparr>))"
    using t(3) s2(3) m1(2) by simp
  moreover have "refused W a m (json_meta ((set_status_fn st [] why m2)\<lparr>UpdatedAt := clock H (txn s2)\<rparr>))"
    using False m1(3,4) by (simp add: refused_def set_status_fn_eq m2 inc_retries_fn_def st_def)
  ultimately show ?thesis using t(2) by blast
qed

lemma reconcile_refused:
  assumes "good H s" and "distinct (map ItRoot items)"
    and "\<forall>it \<in> set items. meta_at H s (ItRoot it) \<noteq> None"
    and "\<forall>it \<in> set items. \<forall>c. snd (FileStatusOf C c (ItRoot it)) \<in> A (ItRoot it)"
  shows "\<exists>c' t. reconcileFailedBatch H C W (c, s) items e = (c', t) \<and> good H t
     \<and> (\<forall>r. r \<notin> ItRoot ` set items \<longrightarrow> meta_at H t r = meta_at H s r)
     \<and> (\<forall>it \<in> set items. \<exists>m m' a. meta_at H s (ItRoot it) = Some m
           \<and> meta_at H t (ItRoot it) = Some m' \<and> a \<in> A (ItRoot it) \<and> refused W a m m')"
  using assms
proof (induction items arbitrary: c s)
  case (Cons it items)
  obtain m where m: "meta_at H s (ItRoot it) = Some m" using Cons.prems(3) by auto
  obtain c1 a where a: "FileStatusOf C c (ItRoot it) = (c1, a)" by force
  have aA: "a \<in> A (ItRoot it)"
    using Cons.prems(4) a by (metis list.set_intros(1) snd_conv)
  obtain s1 m1 where s1: "reconcile_item H C W e (c, s) it = (c1, s1)" "good H s1"
    "meta_at H s1 = (meta_at H s)(ItRoot it \<mapsto> m1)" "refused W a m m1"
    using reconcile_item_refused [OF Cons.prems(1) m a] by blast
  have new: "ItRoot it \<notin> ItRoot ` set items" using Cons.prems(2) by simp
  have other: "meta_at H s1 (ItRoot x) = meta_at H s (ItRoot x)" if "x \<in> set items" for x
    using new that s1(3) by (metis fun_upd_other imageI)
  have "\<forall>x \<in> set items. meta_at H s1 (ItRoot x) \<noteq> None" using Cons.prems(3) other by simp
  with Cons.IH [OF s1(2), of c1] Cons.prems(2,4) obtain c' t where
    t: "reconcileFailedBatch H C W (c1, s1) items e = (c', t)" "good H t"
    "\<forall>r. r \<notin> ItRoot ` set items \<longrightarrow> meta_at H t r = meta_at H s1 r"
    "\<forall>it \<in> set items. \<exists>m m' a. meta_at H s1 (ItRoot it) = Some m
           \<and> meta_at H t (ItRoot it) = Some m' \<and> a \<in> A (ItRoot it) \<and> refused W a m m'"
    by auto
  have "meta_at H t (ItRoot it) = Some m1" using t(3) new s1(3) by simp
  then have "\<forall>x \<in> set (it # items). \<exists>m m' a. meta_at H s (ItRoot x) = Some m
           \<and> meta_at H t (ItRoot x) = Some m' \<and> a \<in> A (ItRoot x) \<and> refused W a m m'"
    using m s1(4) aA t(4) other by auto
  moreover have "\<forall>r. r \<notin> ItRoot ` set (it # items) \<longrightarrow> meta_at H t r = meta_at H s r"
    using t(3) s1(3) by auto
  ultimately show ?case using s1(1) t(1,2) by simp
qed auto

end

section \<open>One batch\<close>

context reliable_host
begin

lemma collect_good_step:
  assumes "answers C" and "good H s" and "meta_at H s (Root m) = Some cur"
  obtains (final) c1 s1 m1 where
    "collect H C W (c, s) (m # rest) items d = collect H C W (c1, s1) rest items d" "good H s1"
    "meta_at H s1 = (meta_at H s)(Root m \<mapsto> m1)" "Retries m1 = Retries cur" "Status m1 = StatusFinalized"
  | (add) c1 s1 m1 it where
    "collect H C W (c, s) (m # rest) items d = collect H C W (c1, s1) rest (items @ [it]) d"
    "good H s1" "meta_at H s1 = (meta_at H s)(Root m \<mapsto> m1)" "Retries m1 = Retries cur"
    "ItRoot it = Root m"
proof -
  have inv: "meta_inv H s" using assms(2) by (simp add: good_def store_inv_def)
  have get: "Get H s (Root m) = Inr (Some cur)"
    using Get_decodable [OF meta_inv_decodable [OF inv]] assms(2,3) by (simp add: good_def)
  have root: "Root cur = Root m" using meta_inv_at [OF inv assms(3)] by simp
  show thesis
  proof (cases "Status cur = StatusSubmitted \<or> 0 < Retries cur")
    case False
    show thesis
      by (rule add [of c s "mk_item W cur (SkipTx cur)" cur])
        (use False get root assms(2,3) in \<open>simp_all add: mk_item_def fun_upd_idem\<close>)
  next
    case True
    obtain c1 a where a: "FileStatusOf C c (Root m) = (c1, Inr a)"
      using assms(1) unfolding answers_def by meson
    show thesis
    proof (cases "a = FileFinalized")
      case fin: True
      from good_SetStatus [OF assms(2,3), of StatusFinalized "[]" "[]"] obtain t where
        t: "SetStatus H s (Root m) StatusFinalized [] [] = (t, Inr ())" "good H t"
        "meta_at H t = (meta_at H s)(Root m \<mapsto>
           json_meta ((set_status_fn StatusFinalized [] [] cur)\<lparr>UpdatedAt := clock H (txn s)\<rparr>))"
        by blast
      show thesis
        by (rule final [OF _ t(2,3), of c1]) (use True fin get root a t(1) in \<open>simp_all add: set_status_fn_eq\<close>)
    next
      case False
      from good_SetSkipTx [OF assms(2,3), of "a = FileUploading"] obtain t where
        t: "SetSkipTx H s (Root m) (a = FileUploading) = (t, Inr ())" "good H t"
        "meta_at H t = (meta_at H s)(Root m \<mapsto>
           json_meta ((set_skip_fn (a = FileUploading) cur)\<lparr>UpdatedAt := clock H (txn s)\<rparr>))"
        by blast
      show thesis
        by (rule add [OF _ t(2,3), of c1 "mk_item W cur (a = FileUploading)"])
          (use True False get root a t(1) in \<open>cases a; simp add: set_skip_fn_def mk_item_def\<close>)+
    qed
  qed
qed

lemma collect_good:
  assumes "answers C" and "good H s" and "distinct (map Root batch)"
    and "\<forall>m \<in> set batch. meta_at H s (Root m) \<noteq> None"
  shows "\<exists>c' t added. collect H C W (c, s) batch items d = ((c', t), Inr (items @ added, d))
     \<and> good H t \<and> distinct (map ItRoot added) \<and> ItRoot ` set added \<subseteq> Root ` set batch
     \<and> (\<forall>r. r \<notin> Root ` set batch \<longrightarrow> meta_at H t r = meta_at H s r)
     \<and> (\<forall>m \<in> set batch. \<exists>m0 m1. meta_at H s (Root m) = Some m0 \<and> meta_at H t (Root m) = Some m1
          \<and> Retries m1 = Retries m0 \<and> (Root m \<in> ItRoot ` set added \<or> Status m1 = StatusFinalized))"
  using assms(2-4)
proof (induction batch arbitrary: c s items)
  case Nil
  then show ?case by (intro exI [of _ c] exI [of _ s] exI [of _ "[]"]) simp
next
  case (Cons m rest)
  obtain cur where cur: "meta_at H s (Root m) = Some cur" using Cons.prems(3) by auto
  have new: "Root m \<notin> Root ` set rest" using Cons.prems(2) by simp
  have step: ?case
    if r: "collect H C W (c, s) (m # rest) items d = collect H C W (c1, s1) rest (items @ ad) d"
      "good H s1" "meta_at H s1 = (meta_at H s)(Root m \<mapsto> m1)" "Retries m1 = Retries cur"
      and ad: "ad = [] \<and> Status m1 = StatusFinalized \<or> (\<exists>it. ad = [it] \<and> ItRoot it = Root m)"
    for c1 s1 m1 ad
  proof -
    have other: "meta_at H s1 (Root x) = meta_at H s (Root x)" if "x \<in> set rest" for x
      using new that r(3) by (metis fun_upd_other imageI)
    then have "\<forall>x \<in> set rest. meta_at H s1 (Root x) \<noteq> None" using Cons.prems(3) by simp
    moreover have "distinct (map Root rest)" using Cons.prems(2) by simp
    ultimately obtain c' t added where
      t: "collect H C W (c1, s1) rest (items @ ad) d = ((c', t), Inr ((items @ ad) @ added, d))"
      "good H t" "distinct (map ItRoot added)" "ItRoot ` set added \<subseteq> Root ` set rest"
      "\<forall>r. r \<notin> Root ` set rest \<longrightarrow> meta_at H t r = meta_at H s1 r"
      "\<forall>m \<in> set rest. \<exists>m0 m1. meta_at H s1 (Root m) = Some m0 \<and> meta_at H t (Root m) = Some m1
          \<and> Retries m1 = Retries m0 \<and> (Root m \<in> ItRoot ` set added \<or> Status m1 = StatusFinalized)"
      using Cons.IH [OF r(2), of c1 "items @ ad"] by blast
    have head: "meta_at H t (Root m) = Some m1" using t(5) new r(3) by simp
    have "\<forall>x \<in> set (m # rest). \<exists>m0 m1. meta_at H s (Root x) = Some m0 \<and> meta_at H t (Root x) = Some m1
          \<and> Retries m1 = Retries m0
          \<and> (Root x \<in> ItRoot ` set (ad @ added) \<or> Status m1 = StatusFinalized)"
      using t(6) other cur head r(4) ad by auto
    moreover have "distinct (map ItRoot (ad @ added))" using t(3,4) new ad by auto
    moreover have "ItRoot ` set (ad @ added) \<subseteq> Root ` set (m # rest)" using t(4) ad by auto
    moreover have "\<forall>r. r \<notin> Root ` set (m # rest) \<longrightarrow> meta_at H t r = meta_at H s r"
      using t(5) r(3) by simp
    ultimately show ?thesis using r(1) t(1,2) by (metis append_assoc)
  qed
  from assms(1) Cons.prems(1) cur show ?case
  proof (cases rule: collect_good_step [where W = W and c = c and rest = rest and items = items and d = d])
    case (final c1 s1 m1)
    then show ?thesis by (intro step [of c1 s1 "[]" m1]) simp_all
  next
    case (add c1 s1 m1 it)
    then show ?thesis by (intro step [of c1 s1 "[it]" m1]) simp_all
  qed
qed

lemma mark_submitted_good:
  assumes "good H s" and "\<forall>it \<in> set items. meta_at H s (ItRoot it) \<noteq> None"
  shows "\<exists>t. mark_submitted H s items = (t, None) \<and> good H t
     \<and> (\<forall>r. r \<notin> ItRoot ` set items \<longrightarrow> meta_at H t r = meta_at H s r)
     \<and> (\<forall>r m. meta_at H s r = Some m \<longrightarrow> (\<exists>m'. meta_at H t r = Some m' \<and> Retries m' = Retries m))"
  using assms
proof (induction items arbitrary: s)
  case (Cons it items)
  obtain m where m: "meta_at H s (ItRoot it) = Some m" using Cons.prems(2) by auto
  from good_SetStatus [OF Cons.prems(1) m, of StatusSubmitted "[]" "[]"] obtain u m1 where
    u: "SetStatus H s (ItRoot it) StatusSubmitted [] [] = (u, Inr ())" "good H u"
    "meta_at H u = (meta_at H s)(ItRoot it \<mapsto> m1)" "Retries m1 = Retries m"
    by (auto simp: set_status_fn_eq)
  have "\<forall>x \<in> set items. meta_at H u (ItRoot x) \<noteq> None" using Cons.prems(2) u(3) by simp
  from Cons.IH [OF u(2) this] obtain t where
    t: "mark_submitted H u items = (t, None)" "good H t"
    "\<forall>r. r \<notin> ItRoot ` set items \<longrightarrow> meta_at H t r = meta_at H u r"
    "\<forall>r m. meta_at H u r = Some m \<longrightarrow> (\<exists>m'. meta_at H t r = Some m' \<and> Retries m' = Retries m)"
    by blast
  have "\<exists>m'. meta_at H t r = Some m' \<and> Retries m' = Retries x" if x: "meta_at H s r = Some x" for r x
  proof (cases "r = ItRoot it")
    case True
    then have "meta_at H u r = Some m1" "Retries m1 = Retries x" using u(3,4) m x by simp_all
    then show ?thesis using t(4) by metis
  qed (use t(4) u(3) x in simp)
  then show ?case using u t by auto
qed auto

lemma mark_onchain_good:
  assumes "good H s" and "\<forall>it \<in> set items. meta_at H s (ItRoot it) \<noteq> None"
    and "distinct (map ItRoot items)"
  shows "\<exists>t. mark_onchain H th s items = (t, None) \<and> good H t
     \<and> (\<forall>r. r \<notin> ItRoot ` set items \<longrightarrow> meta_at H t r = meta_at H s r)
     \<and> (\<forall>it \<in> set items. \<exists>m m'. meta_at H s (ItRoot it) = Some m \<and> meta_at H t (ItRoot it) = Some m'
          \<and> Status m' = StatusOnchain
          \<and> TxHash m' = json_string (if ItSkipTx it \<or> th = [] then TxHash m else th))"
  using assms
proof (induction items arbitrary: s)
  case (Cons it items)
  obtain m where m: "meta_at H s (ItRoot it) = Some m" using Cons.prems(2) by auto
  define h where "h = (if ItSkipTx it then [] else th)"
  from good_SetStatus [OF Cons.prems(1) m, of StatusOnchain h "[]"] obtain u m1 where
    u: "SetStatus H s (ItRoot it) StatusOnchain h [] = (u, Inr ())" "good H u"
    "meta_at H u = (meta_at H s)(ItRoot it \<mapsto> m1)" "Status m1 = StatusOnchain"
    "TxHash m1 = json_string (if h = [] then TxHash m else h)"
    by (auto simp: set_status_fn_eq json_meta_def)
  have new: "ItRoot it \<notin> ItRoot ` set items" using Cons.prems(3) by simp
  have other: "meta_at H u (ItRoot x) = meta_at H s (ItRoot x)" if "x \<in> set items" for x
    using new that u(3) by (metis fun_upd_other imageI)
  have "\<forall>x \<in> set items. meta_at H u (ItRoot x) \<noteq> None" "distinct (map ItRoot items)"
    using Cons.prems(2,3) u(3) by simp_all
  from Cons.IH [OF u(2) this] obtain t where
    t: "mark_onchain H th u items = (t, None)" "good H t"
    "\<forall>r. r \<notin> ItRoot ` set items \<longrightarrow> meta_at H t r = meta_at H u r"
    "\<forall>it \<in> set items. \<exists>m m'. meta_at H u (ItRoot it) = Some m \<and> meta_at H t (ItRoot it) = Some m'
          \<and> Status m' = StatusOnchain
          \<and> TxHash m' = json_string (if ItSkipTx it \<or> th = [] then TxHash m else th)"
    by blast
  have "meta_at H t (ItRoot it) = Some m1" using t(3) new u(3) by simp
  then have "\<forall>x \<in> set (it # items). \<exists>m m'. meta_at H s (ItRoot x) = Some m
          \<and> meta_at H t (ItRoot x) = Some m' \<and> Status m' = StatusOnchain
          \<and> TxHash m' = json_string (if ItSkipTx x \<or> th = [] then TxHash m else th)"
    using t(4) other m u(4,5) by (auto simp: h_def)
  moreover have "mark_onchain H th s (it # items) = (t, None)"
    using u(1) t(1) by (simp add: h_def)
  ultimately show ?case using t(2,3) u(3) by auto
qed auto

end

section \<open>Batches, flushes and ticks make progress\<close>

text \<open>
  An outstanding object has reached the chain, or (only if the chain may refuse a batch) it has
  one more retry on its count and is pending again within the limit, failed beyond it.
\<close>

definition advanced :: "bool \<Rightarrow> worker_config \<Rightarrow> object_meta \<Rightarrow> object_meta \<Rightarrow> bool" where
  "advanced ok W m m' \<longleftrightarrow>
     Status m' = StatusOnchain \<or> Status m' = StatusFinalized
     \<or> (\<not> ok \<and> Retries m' = Retries m + 1
        \<and> Status m' = (if MaxRetries W < Retries m' then StatusFailed else StatusPending))"

lemma refused_advanced: "refused W a m m' \<Longrightarrow> \<not> ok \<Longrightarrow> advanced ok W m m'"
  by (auto simp: refused_def advanced_def split: if_splits)

context reliable_host
begin

lemma processBatch_progress:
  assumes "answers C" and "good H s" and "distinct (map Root batch)"
    and "\<forall>m \<in> set batch. meta_at H s (Root m) \<noteq> None"
  shows "\<exists>c' t e. processBatch H C W (c, s) batch = ((c', t), e) \<and> good H t
     \<and> (\<forall>r. r \<notin> Root ` set batch \<longrightarrow> meta_at H t r = meta_at H s r)
     \<and> (\<forall>m \<in> set batch. \<exists>m0 m1. meta_at H s (Root m) = Some m0 \<and> meta_at H t (Root m) = Some m1
          \<and> advanced (accepts C) W m0 m1)"
proof -
  obtain c1 s1 items where
    col: "collect H C W (c, s) batch [] None = ((c1, s1), Inr (items, None))" and s1: "good H s1"
    and its: "distinct (map ItRoot items)" "ItRoot ` set items \<subseteq> Root ` set batch"
    and fr1: "\<forall>r. r \<notin> Root ` set batch \<longrightarrow> meta_at H s1 r = meta_at H s r"
    and in1: "\<forall>m \<in> set batch. \<exists>m0 m1. meta_at H s (Root m) = Some m0 \<and> meta_at H s1 (Root m) = Some m1
          \<and> Retries m1 = Retries m0 \<and> (Root m \<in> ItRoot ` set items \<or> Status m1 = StatusFinalized)"
    using collect_good [OF assms, of W c "[]" None] by auto
  have present: "\<forall>it \<in> set items. meta_at H s1 (ItRoot it) \<noteq> None"
  proof
    fix it
    assume "it \<in> set items"
    then obtain m where "m \<in> set batch" "Root m = ItRoot it" using its(2) by (metis imageE imageI subsetD)
    then show "meta_at H s1 (ItRoot it) \<noteq> None" using in1 by (metis option.distinct(1))
  qed
  obtain s2 where ms: "mark_submitted H s1 items = (s2, None)" and s2: "good H s2"
    and fr2: "\<forall>r. r \<notin> ItRoot ` set items \<longrightarrow> meta_at H s2 r = meta_at H s1 r"
    and in2: "\<forall>r m. meta_at H s1 r = Some m \<longrightarrow> (\<exists>m'. meta_at H s2 r = Some m' \<and> Retries m' = Retries m)"
    using mark_submitted_good [OF s1 present] by blast
  have present2: "\<forall>it \<in> set items. meta_at H s2 (ItRoot it) \<noteq> None"
    using present in2 by (metis option.distinct(1) option.exhaust)
  text \<open>It is enough to advance the items from \<open>s2\<close> to the end.\<close>
  have finish: ?thesis
    if p: "processBatch H C W (c, s) batch = ((c', t), e)" "good H t"
      and fr: "\<forall>r. r \<notin> ItRoot ` set items \<longrightarrow> meta_at H t r = meta_at H s2 r"
      and it: "\<forall>x \<in> set items. \<exists>m m'. meta_at H s2 (ItRoot x) = Some m
          \<and> meta_at H t (ItRoot x) = Some m' \<and> advanced (accepts C) W m m'" for c' t e
  proof -
    have "\<exists>m0 m1. meta_at H s (Root m) = Some m0 \<and> meta_at H t (Root m) = Some m1
          \<and> advanced (accepts C) W m0 m1" if m: "m \<in> set batch" for m
    proof -
      obtain m0 m1 where m01: "meta_at H s (Root m) = Some m0" "meta_at H s1 (Root m) = Some m1"
        "Retries m1 = Retries m0" "Root m \<in> ItRoot ` set items \<or> Status m1 = StatusFinalized"
        using in1 m by blast
      show ?thesis
      proof (cases "Root m \<in> ItRoot ` set items")
        case True
        then obtain a b where "meta_at H s2 (Root m) = Some a" "meta_at H t (Root m) = Some b"
          "advanced (accepts C) W a b" using it by auto
        moreover from this in2 m01 have "Retries a = Retries m0" by fastforce
        ultimately show ?thesis using m01(1) by (auto simp: advanced_def)
      next
        case False
        then have "meta_at H t (Root m) = Some m1" using fr fr2 m01(2) by simp
        with m01 False show ?thesis by (auto simp: advanced_def)
      qed
    qed
    moreover have "\<forall>r. r \<notin> Root ` set batch \<longrightarrow> meta_at H t r = meta_at H s r"
      using fr fr1 fr2 its(2) by (metis subsetD)
    ultimately show ?thesis using p by blast
  qed
  show ?thesis
  proof (cases "items = []")
    case True
    then have "processBatch H C W (c, s) batch = ((c1, s1), None)" using col by (simp add: processBatch_def)
    moreover have "s2 = s1" using ms True by simp
    ultimately show ?thesis using finish [of c1 s1 None] s1 True by simp
  next
    case False
    obtain c2 r where up: "BatchUpload C c1 items = (c2, r)" by force
    show ?thesis
    proof (cases r)
      case (Inl er)
      then have no: "\<not> accepts C" using up by (metis accepts_def sum.distinct(1) Pair_inject)
      obtain c3 t where t: "reconcileFailedBatch H C W (c2, s2) items er = (c3, t)" "good H t"
        "\<forall>r. r \<notin> ItRoot ` set items \<longrightarrow> meta_at H t r = meta_at H s2 r"
        "\<forall>it \<in> set items. \<exists>m m' a. meta_at H s2 (ItRoot it) = Some m
           \<and> meta_at H t (ItRoot it) = Some m' \<and> a \<in> UNIV \<and> refused W a m m'"
        using reconcile_refused [OF s2 its(1) present2, of C "\<lambda>_. UNIV" W c2 er] by auto
      show ?thesis
        by (rule finish [OF _ t(2,3), of c3 "Some er"])
          (use False col ms up Inl t(1,4) refused_advanced [OF _ no] in
            \<open>auto simp: processBatch_def; blast\<close>)+
    next
      case (Inr th)
      obtain t where t: "mark_onchain H th s2 items = (t, None)" "good H t"
        "\<forall>r. r \<notin> ItRoot ` set items \<longrightarrow> meta_at H t r = meta_at H s2 r"
        "\<forall>it \<in> set items. \<exists>m m'. meta_at H s2 (ItRoot it) = Some m \<and> meta_at H t (ItRoot it) = Some m'
          \<and> Status m' = StatusOnchain
          \<and> TxHash m' = json_string (if ItSkipTx it \<or> th = [] then TxHash m else th)"
        using mark_onchain_good [OF s2 present2 its(1), of th] by blast
      have adv: "\<forall>it \<in> set items. \<exists>m m'. meta_at H s2 (ItRoot it) = Some m
          \<and> meta_at H t (ItRoot it) = Some m' \<and> advanced (accepts C) W m m'"
        using t(4) by (fastforce simp: advanced_def)
      have "processBatch H C W (c, s) batch = ((c2, t), None)"
        using False col ms up Inr t(1) by (simp add: processBatch_def)
      then show ?thesis using finish [OF _ t(2,3) adv] by blast
    qed
  qed
qed

lemma Flush_progress:
  fixes C :: "'d chain"
  assumes ans: "answers C" and s: "good H s" and pos: "0 < BatchMax W"
  shows "\<exists>c' t e. Flush H C W (c, s) = Some ((c', t), e) \<and> good H t
     \<and> (\<forall>r. if \<exists>m. meta_at H s r = Some m \<and> in_upload (Status m)
            then \<exists>m m'. meta_at H s r = Some m \<and> meta_at H t r = Some m' \<and> advanced (accepts C) W m m'
            else meta_at H t r = meta_at H s r)"
proof -
  have inv: "store_inv H s" "\<not> closed s" using s by (auto simp: good_def)
  then have "queue_inv H s" by (simp add: store_inv_def)
  then obtain ms :: "object_meta list" where ms: "UploadQueue H s 0 = Inr ms" "sorted_wrt (<) (map Root ms)"
    "set ms = {m. meta_at H s (Root m) = Some m \<and> in_upload (Status m)}"
    using queue_read [OF inv, of q_upload in_upload 0] by (auto simp: UploadQueue_def queue_inv_def)
  define I where "I k cs \<longleftrightarrow> good H (snd cs)
     \<and> (\<forall>r. r \<notin> Root ` set (take (nat k) ms) \<longrightarrow> meta_at H (snd cs) r = meta_at H s r)
     \<and> (\<forall>m \<in> set (take (nat k) ms). \<exists>m'. meta_at H (snd cs) (Root m) = Some m' \<and> advanced (accepts C) W m m')"
    for k :: int and cs :: "'d \<times> 'a store"
  have "\<exists>cs' e' k. flush_loop H C W ms 0 (c, s) None = Some (cs', e') \<and> int (length ms) \<le> k \<and> I k cs'"
  proof (rule flush_loop_rule [OF pos])
    fix k :: int and cs :: "'d \<times> 'a store"
    assume k: "0 \<le> k" "k < int (length ms)" and I: "I k cs"
    let ?a = "take (nat k) ms"
    let ?b = "take (nat (min (k + BatchMax W) (int (length ms)) - k)) (drop (nat k) ms)"
    obtain c1 s1 where cs: "cs = (c1, s1)" by force
    note tk = take_chunk [OF k pos]
    have dist: "distinct (map Root (?a @ ?b))"
      unfolding tk [symmetric] using sorted_strict_distinct [OF ms(2)]
      by (metis distinct_take take_map)
    have same: "meta_at H s1 (Root m) = Some m" if "m \<in> set ?b" for m
    proof -
      have "m \<in> set ms" using that by (meson in_set_dropD in_set_takeD)
      then have "meta_at H s (Root m) = Some m" using ms(3) by simp
      moreover have "Root m \<notin> Root ` set ?a" using dist that by force
      ultimately show ?thesis using I cs by (simp add: I_def)
    qed
    obtain c2 s2 e2 where p: "processBatch H C W (c1, s1) ?b = ((c2, s2), e2)" "good H s2"
      "\<forall>r. r \<notin> Root ` set ?b \<longrightarrow> meta_at H s2 r = meta_at H s1 r"
      "\<forall>m \<in> set ?b. \<exists>m0 m1. meta_at H s1 (Root m) = Some m0 \<and> meta_at H s2 (Root m) = Some m1
          \<and> advanced (accepts C) W m0 m1"
      using processBatch_progress [OF ans, of s1 ?b W c1] I cs dist same by (auto simp: I_def)
    have "meta_at H s2 (Root m) = meta_at H s1 (Root m)" if "m \<in> set ?a" for m
    proof -
      have "Root m \<notin> Root ` set ?b" using dist that by force
      then show ?thesis using p(3) by simp
    qed
    then have "\<forall>m \<in> set (?a @ ?b). \<exists>m'. meta_at H s2 (Root m) = Some m' \<and> advanced (accepts C) W m m'"
      using p(4) same I cs by (fastforce simp: I_def)
    moreover have "\<forall>r. r \<notin> Root ` set (?a @ ?b) \<longrightarrow> meta_at H s2 r = meta_at H s r"
      using p(3) I cs by (simp add: I_def image_Un)
    ultimately have "I (k + BatchMax W) (c2, s2)"
      unfolding I_def tk using p(2) by simp
    then show "I (k + BatchMax W) (fst (processBatch H C W cs ?b))"
      unfolding cs p(1) by simp
  next
    show "I 0 (c, s)" using s by (simp add: I_def)
  qed simp
  then obtain c' t e k where r: "flush_loop H C W ms 0 (c, s) None = Some ((c', t), e)"
    "int (length ms) \<le> k" "I k (c', t)" by (metis prod.collapse)
  have "take (nat k) ms = ms" using r(2) by simp
  then have I: "good H t" "\<forall>r. r \<notin> Root ` set ms \<longrightarrow> meta_at H t r = meta_at H s r"
     "\<forall>m \<in> set ms. \<exists>m'. meta_at H t (Root m) = Some m' \<and> advanced (accepts C) W m m'"
    using r(3) by (simp_all add: I_def)
  have "if \<exists>m. meta_at H s r = Some m \<and> in_upload (Status m)
      then \<exists>m m'. meta_at H s r = Some m \<and> meta_at H t r = Some m' \<and> advanced (accepts C) W m m'
      else meta_at H t r = meta_at H s r" for r
  proof (cases "\<exists>m. meta_at H s r = Some m \<and> in_upload (Status m)")
    case True
    then obtain m where m: "meta_at H s r = Some m" "in_upload (Status m)" by blast
    then have "Root m = r" using meta_inv_at [of H s r m] inv(1) by (simp add: store_inv_def)
    with m ms(3) have "m \<in> set ms" by simp
    with I(3) \<open>Root m = r\<close> m show ?thesis by auto
  next
    case False
    then have "r \<notin> Root ` set ms" using ms(3) by auto
    with False I(2) show ?thesis by auto
  qed
  moreover have "Flush H C W (c, s) = Some ((c', t), e)" using r(1) ms(1) by (simp add: Flush_def)
  ultimately show ?thesis using I(1) by blast
qed

text \<open>A poll changes onchain objects only, and takes them out of the queues for good.\<close>

lemma poll_loop_good:
  assumes "good H s" and "\<forall>m \<in> set queue. \<exists>m0. meta_at H s (Root m) = Some m0 \<and> \<not> in_upload (Status m0)"
  shows "\<exists>c' t e'. poll_loop H C (c, s) queue e = ((c', t), e') \<and> good H t
     \<and> (\<forall>r. meta_at H t r = meta_at H s r
          \<or> (\<exists>m. r = Root m \<and> m \<in> set queue) \<and> (\<exists>m'. meta_at H t r = Some m' \<and> \<not> in_upload (Status m')))"
  using assms
proof (induction queue arbitrary: c s e)
  case (Cons m rest)
  obtain c1 a where a: "FileStatusOf C c (Root m) = (c1, a)" by force
  obtain m0 where m0: "meta_at H s (Root m) = Some m0" using Cons.prems(2) by auto
  have "\<exists>s1 e1. poll_loop H C (c, s) (m # rest) e = poll_loop H C (c1, s1) rest e1 \<and> good H s1
      \<and> (meta_at H s1 = meta_at H s
         \<or> (\<exists>m1. meta_at H s1 = (meta_at H s)(Root m \<mapsto> m1) \<and> \<not> in_upload (Status m1)))"
  proof (cases "a = Inr FileFinalized \<or> a = Inr FilePruned")
    case False
    then have "\<exists>e1. poll_loop H C (c, s) (m # rest) e = poll_loop H C (c1, s) rest e1"
      using a by (auto split: sum.splits file_status.splits)
    then show ?thesis using Cons.prems(1) by blast
  next
    case True
    define st where "st = (if a = Inr FileFinalized then StatusFinalized else StatusFailed)"
    define why where "why = (if a = Inr FileFinalized then [] else ''pruned'')"
    obtain u m1 where u: "SetStatus H s (Root m) st [] why = (u, Inr ())" "good H u"
      "meta_at H u = (meta_at H s)(Root m \<mapsto> m1)" "Status m1 = st"
      using good_SetStatus [OF Cons.prems(1) m0, of st "[]" why] by (auto simp: set_status_fn_eq)
    have "poll_loop H C (c, s) (m # rest) e = poll_loop H C (c1, u) rest (keep_first e (Inr ()))"
      using True a u(1) by (auto simp: st_def why_def)
    moreover have "\<not> in_upload (Status m1)" using u(4) by (simp add: st_def)
    ultimately show ?thesis using u(2,3) by blast
  qed
  then obtain s1 e1 where s1: "poll_loop H C (c, s) (m # rest) e = poll_loop H C (c1, s1) rest e1" "good H s1"
    and step: "meta_at H s1 = meta_at H s
         \<or> (\<exists>m1. meta_at H s1 = (meta_at H s)(Root m \<mapsto> m1) \<and> \<not> in_upload (Status m1))"
    by blast
  have "\<forall>x \<in> set rest. \<exists>m0. meta_at H s1 (Root x) = Some m0 \<and> \<not> in_upload (Status m0)"
    using Cons.prems(2) step by auto
  from Cons.IH [OF s1(2) this, of c1 e1] obtain c' t e' where
    t: "poll_loop H C (c1, s1) rest e1 = ((c', t), e')" "good H t"
    "\<forall>r. meta_at H t r = meta_at H s1 r
          \<or> (\<exists>m. r = Root m \<and> m \<in> set rest) \<and> (\<exists>m'. meta_at H t r = Some m' \<and> \<not> in_upload (Status m'))"
    by blast
  have "meta_at H t r = meta_at H s r
          \<or> (\<exists>x. r = Root x \<and> x \<in> set (m # rest)) \<and> (\<exists>m'. meta_at H t r = Some m' \<and> \<not> in_upload (Status m'))"
    for r
    using t(3) [rule_format, of r] step by (auto split: if_splits)
  then show ?case using s1(1) t(1,2) by simp
qed auto

lemma PollFinality_good:
  assumes "good H s"
  shows "\<exists>c' t e'. PollFinality H C (c, s) = ((c', t), e') \<and> good H t
     \<and> (\<forall>r. meta_at H t r = meta_at H s r
          \<or> (\<exists>m m'. meta_at H s r = Some m \<and> Status m = StatusOnchain
               \<and> meta_at H t r = Some m' \<and> \<not> in_upload (Status m')))"
proof -
  have inv: "store_inv H s" "\<not> closed s" using assms by (auto simp: good_def)
  then have "queue_inv H s" by (simp add: store_inv_def)
  then obtain ms :: "object_meta list" where ms: "FinalizeQueue H s 0 = Inr ms"
    "set ms = {m. meta_at H s (Root m) = Some m \<and> in_finalize (Status m)}"
    using queue_read [OF inv, of q_finalize in_finalize 0] by (auto simp: FinalizeQueue_def queue_inv_def)
  have "\<forall>m \<in> set ms. \<exists>m0. meta_at H s (Root m) = Some m0 \<and> \<not> in_upload (Status m0)"
    by (auto simp: ms(2) in_finalize_def)
  from poll_loop_good [OF assms this, of C c None] obtain c' t e' where
    t: "poll_loop H C (c, s) ms None = ((c', t), e')" "good H t"
    "\<forall>r. meta_at H t r = meta_at H s r
          \<or> (\<exists>m. r = Root m \<and> m \<in> set ms) \<and> (\<exists>m'. meta_at H t r = Some m' \<and> \<not> in_upload (Status m'))"
    by blast
  have "meta_at H t r = meta_at H s r
          \<or> (\<exists>m m'. meta_at H s r = Some m \<and> Status m = StatusOnchain
               \<and> meta_at H t r = Some m' \<and> \<not> in_upload (Status m'))" for r
    using t(3) [rule_format, of r] ms(2) by (auto simp: in_finalize_def)
  then show ?thesis using t(1,2) ms(1) by (simp add: PollFinality_def)
qed

text \<open>
  After \<open>n\<close> ticks an object that is still outstanding was outstanding at the start, has
  \<open>n\<close> more retries, and is within the limit.
\<close>

lemma run_ticks_progress:
  assumes ans: "answers C" and pos: "0 < BatchMax W" and s: "good H s"
  shows "\<exists>c' t. run_ticks H C W n (c, s) = Some (c', t) \<and> good H t
     \<and> (\<forall>r m. meta_at H t r = Some m \<and> in_upload (Status m) \<longrightarrow>
          (\<exists>m0. meta_at H s r = Some m0 \<and> in_upload (Status m0) \<and> Retries m = Retries m0 + int n
             \<and> (0 < n \<longrightarrow> \<not> accepts C \<and> Retries m \<le> MaxRetries W)))"
  using s
proof (induction n arbitrary: c s)
  case 0
  then show ?case by simp
next
  case (Suc n)
  obtain c1 s1 e where f: "Flush H C W (c, s) = Some ((c1, s1), e)" "good H s1"
    "\<forall>r. if \<exists>m. meta_at H s r = Some m \<and> in_upload (Status m)
         then \<exists>m m'. meta_at H s r = Some m \<and> meta_at H s1 r = Some m' \<and> advanced (accepts C) W m m'
         else meta_at H s1 r = meta_at H s r"
    using Flush_progress [OF ans Suc.prems pos, of c] by blast
  obtain c2 s2 e2 where p: "PollFinality H C (c1, s1) = ((c2, s2), e2)" "good H s2"
    "\<forall>r. meta_at H s2 r = meta_at H s1 r
          \<or> (\<exists>m m'. meta_at H s1 r = Some m \<and> Status m = StatusOnchain
               \<and> meta_at H s2 r = Some m' \<and> \<not> in_upload (Status m'))"
    using PollFinality_good [OF f(2), of C c1] by blast
  have tick: "\<exists>m0. meta_at H s r = Some m0 \<and> in_upload (Status m0) \<and> Retries m = Retries m0 + 1
      \<and> \<not> accepts C \<and> Retries m \<le> MaxRetries W"
    if m: "meta_at H s2 r = Some m" "in_upload (Status m)" for r m
  proof -
    have m1: "meta_at H s1 r = Some m" using p(3) [rule_format, of r] m by auto
    show ?thesis
      using f(3) [rule_format, of r] m1 m(2) by (auto simp: advanced_def split: if_splits)
  qed
  obtain c' t where t: "run_ticks H C W n (c2, s2) = Some (c', t)" "good H t"
    "\<forall>r m. meta_at H t r = Some m \<and> in_upload (Status m) \<longrightarrow>
          (\<exists>m0. meta_at H s2 r = Some m0 \<and> in_upload (Status m0) \<and> Retries m = Retries m0 + int n
             \<and> (0 < n \<longrightarrow> \<not> accepts C \<and> Retries m \<le> MaxRetries W))"
    using Suc.IH [OF p(2), of c2] by blast
  have "\<exists>m0. meta_at H s r = Some m0 \<and> in_upload (Status m0) \<and> Retries m = Retries m0 + int (Suc n)
             \<and> \<not> accepts C \<and> Retries m \<le> MaxRetries W"
    if m: "meta_at H t r = Some m" "in_upload (Status m)" for r m
  proof -
    obtain m2 where m2: "meta_at H s2 r = Some m2" "in_upload (Status m2)" "Retries m = Retries m2 + int n"
      "0 < n \<longrightarrow> \<not> accepts C \<and> Retries m \<le> MaxRetries W"
      using t(3) m by blast
    with tick [OF m2(1,2)] show ?thesis by (cases n) auto
  qed
  with f(1) p(1) t(1,2) show ?case by simp
qed

end

end
