(* ===== verification/Uploader_Props.thy ===== *)
theory Uploader_Props
  imports Uploader_Progress Store_Example
begin

text \<open>The properties of the upload worker, and a chain for their witnesses.\<close>

section \<open>An example chain\<close>

text \<open>
  The state counts the batches the chain will still refuse; a status query is answered with
  "unknown" until it accepts, then with "finalized".
\<close>

definition ex_chain :: "nat chain" where
  "ex_chain =
     \<lparr>BatchUpload = (\<lambda>c items. case c of 0 \<Rightarrow> (0, Inr ''0xaa'') | Suc k \<Rightarrow> (k, Inl (ErrSDK ''nonce''))),
      FileStatusOf = (\<lambda>c r. (c, Inr (if c = 0 then FileFinalized else FileUnknown)))\<rparr>"

definition ex_config :: worker_config where
  "ex_config = New_worker \<lparr>BatchMax = 0, MaxRetries = 0, PathOf = (\<lambda>r. ''objects/'' @ r)\<rparr>"

lemma ex_config_simps [simp]:
  "BatchMax ex_config = 10" "MaxRetries ex_config = 5" "PathOf ex_config r = ''objects/'' @ r"
  by (simp_all add: ex_config_def New_worker_def Let_def)

lemma ex_answers: "answers ex_chain"
  by (simp add: answers_def ex_chain_def)

definition ex_item :: item where
  "ex_item = \<lparr>ItRoot = ''0x11'', ItPath = ''objects/0x11'', ItSkipTx = False\<rparr>"

lemma ex_pending:
  "\<exists>m. meta_at ref_host ex_created ''0x11'' = Some m \<and> Status m = StatusPending \<and> Retries m = 0
     \<and> SkipTx m = False"
  by (simp add: ex_defs store_eval)

lemma ex_only: "meta_at ref_host ex_created r = Some m \<Longrightarrow> r = ''0x11''"
  by (simp add: ex_defs store_eval split: if_splits)

lemma ex_created_open: "\<not> closed ex_created"
  by (simp add: ex_defs store_eval)

lemma ex_good: "good ref_host ex_created"
  using ref.reachable_inv [OF ex_reachable(1)] ex_created_open by (simp add: good_def)

section \<open>Submission\<close>

text \<open>
  C12: A flush never submits blindly and never twice. On every reachable open database, for any
  chain and any positive batch size, \<open>Flush\<close> returns, and in the list of calls it made each
  submitted batch is non-empty and no larger than \<open>BatchMax\<close>, no object is in two batches or
  twice in one, and every member was outstanding at the start and either pending with no
  attempt behind it, or its status had been asked and answered earlier in the same flush, not
  with "finalized", and \<open>SkipTx\<close> is set exactly when the answer was that the entry is on
  chain.
\<close>

theorem flush_submits_safely:
  assumes "store_host H" and "reachable_store H s" and "\<not> closed s" and "0 < BatchMax W"
  shows "\<exists>c' new s' e. Flush H (logged C) W ((c, l), s) = Some (((c', l @ new), s'), e)
     \<and> distinct (concat (map (map ItRoot) (uploads new)))
     \<and> (\<forall>pre items r post. new = pre @ Upload items r # post \<longrightarrow>
          items \<noteq> [] \<and> int (length items) \<le> BatchMax W
          \<and> (\<forall>it \<in> set items. \<exists>m. meta_at H s (ItRoot it) = Some m
               \<and> (Status m = StatusPending \<or> Status m = StatusSubmitted)
               \<and> (Status m = StatusPending \<and> Retries m \<le> 0 \<and> ItSkipTx it = SkipTx m
                  \<or> (\<exists>a. Ask (ItRoot it) (Inr a) \<in> set pre \<and> a \<noteq> FileFinalized
                       \<and> ItSkipTx it = (a = FileUploading)))))"
proof -
  note inv = store_host.reachable_inv [OF assms(1,2)]
  obtain ms :: "object_meta list" and c' l' s' e where
    f: "Flush H (logged C) W ((c, l), s) = Some (((c', l'), s'), e)"
    and ms: "set ms = {m. meta_at H s (Root m) = Some m \<and> in_upload (Status m)}"
      "sorted_wrt (<) (map Root ms)"
    and fd: "flush_done H W s l (map Root ms) l' s'"
    using store_host.Flush_calls [OF assms(1) inv assms(3,4), of C c l] by blast
  from fd obtain new where new: "l' = l @ new" "safe_calls H s new"
    "subseq (concat (map (map ItRoot) (uploads new))) (map Root ms)"
    "\<forall>b \<in> set (uploads new). b \<noteq> [] \<and> int (length b) \<le> BatchMax W"
    by (auto simp: flush_done_def)
  have dist: "distinct (concat (map (map ItRoot) (uploads new)))"
    by (rule subseq_distinct [OF new(3) sorted_strict_distinct [OF ms(2)]])
  have up: "items \<in> set (uploads new)" if "new = pre @ Upload items r # post" for pre items r post
    using that by simp
  have queued: "\<exists>m. meta_at H s (ItRoot it) = Some m \<and> in_upload (Status m)"
    if "items \<in> set (uploads new)" "it \<in> set items" for items it
  proof -
    have "ItRoot it \<in> set (concat (map (map ItRoot) (uploads new)))" using that by auto
    then have "ItRoot it \<in> set (map Root ms)" using subseq_set [OF new(3)] by blast
    then show ?thesis using ms(1) by auto
  qed
  have "items \<noteq> [] \<and> int (length items) \<le> BatchMax W
          \<and> (\<forall>it \<in> set items. \<exists>m. meta_at H s (ItRoot it) = Some m
               \<and> (Status m = StatusPending \<or> Status m = StatusSubmitted)
               \<and> (Status m = StatusPending \<and> Retries m \<le> 0 \<and> ItSkipTx it = SkipTx m
                  \<or> (\<exists>a. Ask (ItRoot it) (Inr a) \<in> set pre \<and> a \<noteq> FileFinalized
                       \<and> ItSkipTx it = (a = FileUploading))))"
    if eq: "new = pre @ Upload items r # post" for pre items r post
    using new(2,4) eq up [OF eq] queued [OF up [OF eq]]
    by (fastforce simp: safe_calls_def submit_ok_def in_upload_def)
  with f dist new(1) show ?thesis by blast
qed

theorem flush_submits_safely_witness:
  "\<exists>c' new s' e. Flush ref_host (logged ex_chain) ex_config ((2, []), ex_created)
     = Some (((c', new), s'), e) \<and> distinct (concat (map (map ItRoot) (uploads new)))"
  using flush_submits_safely [OF ref_store_host ex_reachable(1) ex_created_open, of ex_config ex_chain 2 "[]"]
  by auto

text \<open>
  The worker touches only its queues. On every reachable open database a flush leaves the
  record of every object that is not pending or submitted exactly as it is, a finality poll
  the record of every object that is not onchain, and both end in a reachable database, so
  every property of reachable databases keeps holding.
\<close>

theorem worker_touches_only_its_queues:
  assumes "store_host H" and "reachable_store H s" and "\<not> closed s" and "0 < BatchMax W"
  shows "(\<exists>c' l' s' e. Flush H (logged C) W ((c, l), s) = Some (((c', l'), s'), e)
            \<and> reachable_store H s'
            \<and> (\<forall>r. (\<nexists>m. meta_at H s r = Some m \<and> (Status m = StatusPending \<or> Status m = StatusSubmitted))
                 \<longrightarrow> meta_at H s' r = meta_at H s r))
       \<and> (\<exists>c' l' s' e. PollFinality H (logged C) ((c, l), s) = (((c', l'), s'), e)
            \<and> reachable_store H s'
            \<and> (\<forall>r. (\<nexists>m. meta_at H s r = Some m \<and> Status m = StatusOnchain)
                 \<longrightarrow> meta_at H s' r = meta_at H s r))"
proof -
  note inv = store_host.reachable_inv [OF assms(1,2)]
  note frame = store_host.touched_frame [OF assms(1) _ inv]
  obtain ms :: "object_meta list" and c1 l1 s1 e1 where
    f: "Flush H (logged C) W ((c, l), s) = Some (((c1, l1), s1), e1)"
    and ms: "set ms = {m. meta_at H s (Root m) = Some m \<and> in_upload (Status m)}"
    and "flush_done H W s l (map Root ms) l1 s1"
    using store_host.Flush_calls [OF assms(1) inv assms(3,4), of C c l] by blast
  then obtain new where t1: "touched H (set (map Root ms)) new s s1" by (auto simp: flush_done_def)
  obtain d l2 s2 e2 where p: "PollFinality H (logged C) ((c, l), s) = (((d, l @ l2), s2), e2)"
    and t2: "touched H {r. \<exists>m. meta_at H s r = Some m \<and> Status m = StatusOnchain} l2 s s2"
    using store_host.PollFinality_calls [OF assms(1) inv, of C c l] by blast
  have "meta_at H s1 r = meta_at H s r"
    if "\<nexists>m. meta_at H s r = Some m \<and> (Status m = StatusPending \<or> Status m = StatusSubmitted)" for r
    using frame [OF t1, of r] that ms by (auto simp: in_upload_def)
  moreover have "meta_at H s2 r = meta_at H s r"
    if "\<nexists>m. meta_at H s r = Some m \<and> Status m = StatusOnchain" for r
    using frame [OF t2, of r] that by auto
  ultimately show ?thesis
    using f p touched_reachable [OF t1 assms(2)] touched_reachable [OF t2 assms(2)] by blast
qed

theorem worker_touches_only_its_queues_witness:
  "\<exists>c' l' s' e. Flush ref_host (logged ex_chain) ex_config ((0, []), ex_onchain) = Some (((c', l'), s'), e)
     \<and> meta_at ref_host s' ''0x11'' = meta_at ref_host ex_onchain ''0x11''"
proof -
  obtain m where "meta_at ref_host ex_onchain ''0x11'' = Some m" "Status m = StatusOnchain"
    using ex_onchain_status by blast
  then show ?thesis
    using worker_touches_only_its_queues [OF ref_store_host ex_reachable(4) ex_open(2),
        of ex_config ex_chain 0 "[]"]
    by fastforce
qed

section \<open>Statuses and the chain\<close>

text \<open>
  C4: A status is never invented. In every state that the gateway reaches from an empty
  database by any interleaving of client operations, batches, flushes and polls, an onchain
  object was a member of a batch that the chain acknowledged, a finalized object was reported
  finalized by a status query, a failed object was in a refused batch or was reported pruned,
  and no object has the empty status.
\<close>

theorem status_honest:
  assumes "store_host H" and "sys_reachable H C W ((c, calls), s)" and "meta_at H s r = Some m"
  shows "Status m \<noteq> StatusNone
       \<and> (Status m = StatusOnchain \<longrightarrow>
            (\<exists>items txHash. Upload items (Inr txHash) \<in> set calls \<and> r \<in> ItRoot ` set items))
       \<and> (Status m = StatusFinalized \<longrightarrow> Ask r (Inr FileFinalized) \<in> set calls)
       \<and> (Status m = StatusFailed \<longrightarrow>
            (\<exists>items e. Upload items (Inl e) \<in> set calls \<and> r \<in> ItRoot ` set items)
            \<or> Ask r (Inr FilePruned) \<in> set calls)"
proof -
  have "status_ok calls r (Status m)"
    using store_host.sys_reachable_inv [OF assms(1,2)] assms(3) by (simp add: sys_inv_def)
  then show ?thesis by (cases "Status m") auto
qed

definition ex_accepting :: "unit chain" where
  "ex_accepting =
     \<lparr>BatchUpload = (\<lambda>c items. (c, Inr ''0xaa'')), FileStatusOf = (\<lambda>c r. (c, Inr FileFinalized))\<rparr>"

lemma ex_accepting: "answers (logged ex_accepting)" "accepts (logged ex_accepting)"
  by (auto simp: answers_def accepts_def ex_accepting_def logged_def)

lemma ex_flushed:
  "\<exists>c' l s e. Flush ref_host (logged ex_accepting) ex_config (((), []), ex_created) = Some (((c', l), s), e)
     \<and> (\<exists>m. meta_at ref_host s ''0x11'' = Some m \<and> (Status m = StatusOnchain \<or> Status m = StatusFinalized))"
proof -
  obtain m where m: "meta_at ref_host ex_created ''0x11'' = Some m" "in_upload (Status m)"
    using ex_pending by auto
  obtain cl s e where f: "Flush ref_host (logged ex_accepting) ex_config (((), []), ex_created) = Some ((cl, s), e)"
    "\<forall>r. if \<exists>m. meta_at ref_host ex_created r = Some m \<and> in_upload (Status m)
         then \<exists>m m'. meta_at ref_host ex_created r = Some m \<and> meta_at ref_host s r = Some m'
                \<and> advanced (accepts (logged ex_accepting)) ex_config m m'
         else meta_at ref_host s r = meta_at ref_host ex_created r"
    using ref_reliable.Flush_progress [OF ex_accepting(1) ex_good, of ex_config "((), [])"] by auto
  from f(2) [rule_format, of "''0x11''"] m ex_accepting(2)
  have "\<exists>m'. meta_at ref_host s ''0x11'' = Some m' \<and> (Status m' = StatusOnchain \<or> Status m' = StatusFinalized)"
    by (auto simp: advanced_def)
  with f(1) show ?thesis by (cases cl) auto
qed

theorem status_honest_witness:
  "\<exists>s calls m. sys_reachable ref_host ex_accepting ex_config (((), calls), s)
     \<and> meta_at ref_host s ''0x11'' = Some m
     \<and> (Status m = StatusOnchain \<and>
          (\<exists>items txHash. Upload items (Inr txHash) \<in> set calls \<and> ''0x11'' \<in> ItRoot ` set items)
        \<or> Status m = StatusFinalized \<and> Ask ''0x11'' (Inr FileFinalized) \<in> set calls)"
proof -
  obtain calls s e m where
    f: "Flush ref_host (logged ex_accepting) ex_config (((), []), ex_created) = Some ((((), calls), s), e)"
    and m: "meta_at ref_host s ''0x11'' = Some m" "Status m = StatusOnchain \<or> Status m = StatusFinalized"
    using ex_flushed by auto
  have start: "sys_start ref_host (((), []), ex_start)" by (simp add: sys_start_def ex_start)
  have "sys_step ref_host ex_accepting ex_config (((), []), ex_start) (((), []), ex_created)"
    by (rule sys_client [where p = "OpCreate ex_obj"
          and x = "snd (CreateObject ref_host ex_start ex_obj)"])
      (simp_all add: ex_created_def, simp_all add: ex_obj_def zero_meta_def)
  moreover have "sys_step ref_host ex_accepting ex_config (((), []), ex_created) (((), calls), s)"
    by (rule sys_flush [OF f]) simp
  ultimately have r: "sys_reachable ref_host ex_accepting ex_config (((), calls), s)"
    unfolding sys_reachable_def using start by (meson converse_rtranclp_into_rtranclp rtranclp.rtrancl_refl)
  from status_honest [OF ref_store_host r m(1)] r m show ?thesis by blast
qed

section \<open>Retries\<close>

text \<open>
  Retry accounting of a refused batch. On a host whose commits succeed, when the chain
  refuses a batch every member is settled by its own status query, whatever the other members
  are: finalized on the nodes makes it finalized with its retry count unchanged; any other
  answer or a failed query adds one retry and makes it pending again, or failed once the count
  exceeds \<open>MaxRetries\<close>; an entry seen on chain sets \<open>SkipTx\<close>. No other object changes.
\<close>

theorem refused_batch_accounting:
  assumes "reliable_host H" and "reachable_store H s" and "\<not> closed s"
    and "distinct (map ItRoot items)" and "\<forall>it \<in> set items. meta_at H s (ItRoot it) \<noteq> None"
    and "\<forall>it \<in> set items. \<forall>c. snd (FileStatusOf C c (ItRoot it)) = ans (ItRoot it)"
  shows "\<exists>c' t. reconcileFailedBatch H C W (c, s) items e = (c', t)
     \<and> (\<forall>r. r \<notin> ItRoot ` set items \<longrightarrow> meta_at H t r = meta_at H s r)
     \<and> (\<forall>it \<in> set items. \<exists>m m'. meta_at H s (ItRoot it) = Some m \<and> meta_at H t (ItRoot it) = Some m'
          \<and> (if ans (ItRoot it) = Inr FileFinalized
             then Status m' = StatusFinalized \<and> Retries m' = Retries m \<and> SkipTx m' = SkipTx m
             else Retries m' = Retries m + 1
               \<and> Status m' = (if MaxRetries W < Retries m + 1 then StatusFailed else StatusPending)
               \<and> SkipTx m' = (SkipTx m \<or> ans (ItRoot it) = Inr FileUploading)))"
proof -
  have "good H s"
    using store_host.reachable_inv [OF reliable_host.axioms(1) [OF assms(1)] assms(2)] assms(3)
    by (simp add: good_def)
  moreover have "\<forall>it \<in> set items. \<forall>c. snd (FileStatusOf C c (ItRoot it)) \<in> {ans (ItRoot it)}"
    using assms(6) by simp
  ultimately have "\<exists>c' t. reconcileFailedBatch H C W (c, s) items e = (c', t) \<and> good H t
     \<and> (\<forall>r. r \<notin> ItRoot ` set items \<longrightarrow> meta_at H t r = meta_at H s r)
     \<and> (\<forall>it \<in> set items. \<exists>m m'. meta_at H s (ItRoot it) = Some m
           \<and> meta_at H t (ItRoot it) = Some m' \<and> refused W (ans (ItRoot it)) m m')"
    using reliable_host.reconcile_refused [OF assms(1) _ assms(4,5), of C "\<lambda>r. {ans r}" W c e]
    by simp
  then show ?thesis unfolding refused_def by blast
qed

theorem refused_batch_accounting_witness:
  "\<exists>c t m'. reconcileFailedBatch ref_host
       \<lparr>BatchUpload = BatchUpload ex_chain, FileStatusOf = (\<lambda>c r. (c, Inr FileUploading))\<rparr>
       ex_config (0, ex_created) [ex_item] (ErrSDK ''x'') = (c, t)
     \<and> meta_at ref_host t ''0x11'' = Some m' \<and> Status m' = StatusPending \<and> Retries m' = 1 \<and> SkipTx m'"
proof -
  let ?C = "\<lparr>BatchUpload = BatchUpload ex_chain, FileStatusOf = (\<lambda>c r. (c, Inr FileUploading))\<rparr>"
  obtain m where m: "meta_at ref_host ex_created ''0x11'' = Some m" "Retries m = 0" using ex_pending by blast
  have "\<exists>c' t. reconcileFailedBatch ref_host ?C ex_config (0, ex_created) [ex_item] (ErrSDK ''x'') = (c', t)
      \<and> (\<exists>m'. meta_at ref_host t ''0x11'' = Some m' \<and> Retries m' = 1 \<and> Status m' = StatusPending \<and> SkipTx m')"
    using refused_batch_accounting [OF ref_reliable.reliable_host_axioms ex_reachable(1) ex_created_open,
        of "[ex_item]" ?C "\<lambda>_. Inr FileUploading" ex_config 0 "ErrSDK ''x''"] m
    by (auto simp: ex_item_def)
  then show ?thesis by blast
qed

text \<open>
  C27: What a flush achieves when the database and the nodes work. Premises: the database is open
  and reachable, its commits and encodings succeed (\<open>reliable_host\<close>), and some node answers every
  status query (\<open>answers\<close>; an object whose query fails is deferred unchanged to a later flush). Then
  a flush returns for every configuration that \<open>New\<close> makes, and every object that was pending or
  submitted is onchain or finalized afterwards, or (only when the chain may refuse a batch) its retry
  count grew by exactly one and it is pending again, failed if the count now exceeds the limit.
\<close>

theorem flush_outcome:
  assumes "reliable_host H" and "answers C" and "reachable_store H s" and "\<not> closed s"
    and "W = New_worker cfg"
  shows "\<exists>c' t e. Flush H C W (c, s) = Some ((c', t), e)
     \<and> (\<forall>r m. meta_at H s r = Some m \<and> (Status m = StatusPending \<or> Status m = StatusSubmitted) \<longrightarrow>
          (\<exists>m'. meta_at H t r = Some m'
             \<and> (Status m' = StatusOnchain \<or> Status m' = StatusFinalized
                \<or> \<not> accepts C \<and> Retries m' = Retries m + 1
                   \<and> Status m' = (if MaxRetries W < Retries m' then StatusFailed else StatusPending))))"
proof -
  have g: "good H s"
    using store_host.reachable_inv [OF reliable_host.axioms(1) [OF assms(1)] assms(3)] assms(4)
    by (simp add: good_def)
  have pos: "0 < BatchMax W" by (simp add: assms(5) New_worker_def Let_def)
  obtain c' t e where f: "Flush H C W (c, s) = Some ((c', t), e)"
    "\<forall>r. if \<exists>m. meta_at H s r = Some m \<and> in_upload (Status m)
            then \<exists>m m'. meta_at H s r = Some m \<and> meta_at H t r = Some m' \<and> advanced (accepts C) W m m'
            else meta_at H t r = meta_at H s r"
    using reliable_host.Flush_progress [OF assms(1,2) g pos, of c] by blast
  have "\<exists>m'. meta_at H t r = Some m' \<and> advanced (accepts C) W m m'"
    if "meta_at H s r = Some m" "in_upload (Status m)" for r m
    using f(2) [rule_format, of r] that by (auto split: if_splits)
  with f(1) show ?thesis unfolding advanced_def in_upload_def by blast
qed

theorem flush_outcome_witness:
  "\<exists>c' t e m'. Flush ref_host ex_chain ex_config (1, ex_created) = Some ((c', t), e)
     \<and> meta_at ref_host t ''0x11'' = Some m'
     \<and> (Status m' = StatusOnchain \<or> Status m' = StatusFinalized \<or> Retries m' = 1 \<and> Status m' = StatusPending)"
  using flush_outcome [OF ref_reliable.reliable_host_axioms ex_answers ex_reachable(1) ex_created_open
      ex_config_def, of 1] ex_pending
  by fastforce

text \<open>
  C9: No object is retried for ever when the database and the nodes work. Premises: the database is
  open and reachable with no negative retry count, its commits and encodings succeed
  (\<open>reliable_host\<close>), and some node answers every status query (\<open>answers\<close>; while all nodes are
  unreachable an object stays queued, which is intended). Then, whatever the chain does with the
  batches, \<open>Run\<close> gets through any number of ticks, and after more than \<open>MaxRetries\<close> of them without
  client operations in between nothing that is stored is pending or submitted any more; if the
  chain accepts every batch, one tick is enough.
\<close>

theorem retries_bounded:
  assumes "reliable_host H" and "answers C" and "reachable_store H s" and "\<not> closed s"
    and "W = New_worker cfg"
    and "\<forall>r m. meta_at H s r = Some m \<longrightarrow> 0 \<le> Retries m"
    and "MaxRetries W < int n \<or> accepts C \<and> 0 < n"
  shows "\<exists>c' t. run_ticks H C W n (c, s) = Some (c', t)
     \<and> (\<forall>r m. meta_at H t r = Some m \<longrightarrow> Status m \<noteq> StatusPending \<and> Status m \<noteq> StatusSubmitted)"
proof -
  have g: "good H s"
    using store_host.reachable_inv [OF reliable_host.axioms(1) [OF assms(1)] assms(3)] assms(4)
    by (simp add: good_def)
  have pos: "0 < BatchMax W" "0 < MaxRetries W" by (simp_all add: assms(5) New_worker_def Let_def)
  obtain c' t where t: "run_ticks H C W n (c, s) = Some (c', t)"
    "\<forall>r m. meta_at H t r = Some m \<and> in_upload (Status m) \<longrightarrow>
          (\<exists>m0. meta_at H s r = Some m0 \<and> in_upload (Status m0) \<and> Retries m = Retries m0 + int n
             \<and> (0 < n \<longrightarrow> \<not> accepts C \<and> Retries m \<le> MaxRetries W))"
    using reliable_host.run_ticks_progress [OF assms(1,2) pos(1) g, of n c] by blast
  have "\<not> in_upload (Status m)" if "meta_at H t r = Some m" for r m
  proof
    assume "in_upload (Status m)"
    then obtain m0 where "meta_at H s r = Some m0" "Retries m = Retries m0 + int n"
      "0 < n \<longrightarrow> \<not> accepts C \<and> Retries m \<le> MaxRetries W" using t(2) \<open>meta_at H t r = Some m\<close> by blast
    moreover from this assms(6) have "0 \<le> Retries m0" by blast
    ultimately show False using assms(7) pos(2) by auto
  qed
  with t(1) show ?thesis by (auto simp: in_upload_def)
qed

theorem retries_bounded_witness:
  "\<exists>c' t. run_ticks ref_host ex_chain ex_config 6 (100, ex_created) = Some (c', t)
     \<and> (\<forall>m. meta_at ref_host t ''0x11'' = Some m \<longrightarrow> Status m \<noteq> StatusPending)"
proof -
  have "\<forall>r m. meta_at ref_host ex_created r = Some m \<longrightarrow> 0 \<le> Retries m"
    using ex_only ex_pending by fastforce
  from retries_bounded [OF ref_reliable.reliable_host_axioms ex_answers ex_reachable(1) ex_created_open
      ex_config_def this, of 6 100] show ?thesis by auto
qed

end
