(* ===== verification/Chain.thy ===== *)
theory Chain
  imports Uploader Go_Text "HOL-Library.Multiset" "HOL-Library.Word"
begin

text \<open>
  \<open>internal/chain/backend.go\<close>: the real 0G backend behind the worker's \<open>Chain\<close> interface and
  the object service's \<open>Downloader\<close>. The 0G SDK, go-ethereum and web3go are not part of the
  repository: they are the record \<open>sdk\<close> of the calls that the backend makes, on a state \<open>'w\<close> of
  everything outside the process, with handles \<open>'h\<close> for clients and files and hashes \<open>'x\<close>.
\<close>

section \<open>The SDK\<close>

record file_info =
  InfoPruned :: bool
  InfoFinalized :: bool

record upload_option =
  OptExpectedReplica :: "64 word"
  OptSkipTx :: bool

text \<open>\<open>FinalityRequired\<close> is \<open>TransactionPacked\<close> in every option, so it is not a field.\<close>

record uploader_config =
  UcNodes :: "string list"
  UcLogLevel :: nat

text \<open>\<open>logrus.InfoLevel\<close>; level 0 is \<open>PanicLevel\<close>.\<close>

definition InfoLevel :: nat where
  "InfoLevel = 4"

record ('w, 'h, 'x) sdk =
  HexToECDSA :: "string \<Rightarrow> err option"
  NewWeb3 :: "'w \<Rightarrow> string \<Rightarrow> string \<Rightarrow> 'w \<times> 'h result"
  NewUploaderFromConfig :: "'w \<Rightarrow> 'h \<Rightarrow> uploader_config \<Rightarrow> 'w \<times> ('h \<times> 'h) result"
  NewZgsClient :: "'w \<Rightarrow> string \<Rightarrow> 'w \<times> 'h result"
  NewDownloader :: "'w \<Rightarrow> 'h list \<Rightarrow> 'w \<times> 'h result"
  close_handle :: "'w \<Rightarrow> 'h \<Rightarrow> 'w"
  core_Open :: "'w \<Rightarrow> string \<Rightarrow> 'w \<times> 'h result"
  sdk_BatchUpload :: "'w \<Rightarrow> 'h \<Rightarrow> ('h \<times> upload_option) list \<Rightarrow> 'w \<times> ('x \<times> 'x list) result"
  GetFileInfo :: "'w \<Rightarrow> 'h \<Rightarrow> 'x \<Rightarrow> 'w \<times> file_info option result"
  sdk_Download :: "'w \<Rightarrow> 'h \<Rightarrow> string \<Rightarrow> string \<Rightarrow> bool \<Rightarrow> 'w \<times> err option"
  HexToHash :: "string \<Rightarrow> 'x"
  hash_Hex :: "'x \<Rightarrow> string"
  zero_hash :: 'x

section \<open>Construction and release\<close>

record options =
  Nodes :: "string list"
  EthRPC :: string
  PrivateKey :: string
  ExpectedReplica :: "64 word"

record 'h backend =
  w3 :: 'h
  up :: 'h
  upCloser :: "'h option"
  clients :: "'h list"
  dl :: 'h
  replica :: "64 word"

definition close_all :: "('w, 'h, 'x) sdk \<Rightarrow> 'w \<Rightarrow> 'h list \<Rightarrow> 'w" where
  "close_all S w hs = foldl (close_handle S) w hs"

text \<open>The loop over the node URLs, with the release of everything on the first failure.\<close>

fun connect_nodes ::
  "('w, 'h, 'x) sdk \<Rightarrow> 'h \<Rightarrow> 'h \<Rightarrow> 'w \<Rightarrow> string list \<Rightarrow> 'h list \<Rightarrow> 'w \<times> 'h list result" where
  "connect_nodes S closer web3 w [] cs = (w, Inr cs)"
| "connect_nodes S closer web3 w (url # urls) cs =
     (case NewZgsClient S w url of
        (w1, Inl e) \<Rightarrow>
          (close_all S (close_handle S (close_handle S w1 closer) web3) cs,
           Inl (Wrapped (''connect storage node '' @ url) e))
      | (w1, Inr c) \<Rightarrow> connect_nodes S closer web3 w1 urls (cs @ [c]))"

definition New_backend :: "('w, 'h, 'x) sdk \<Rightarrow> 'w \<Rightarrow> options \<Rightarrow> 'w \<times> 'h backend result" where
  "New_backend S w opt =
     (if Nodes opt = [] then (w, Inl (ErrMsg ''no storage nodes configured''))
      else
        (let opt = (if ExpectedReplica opt = 0 then opt\<lparr>ExpectedReplica := 1\<rparr> else opt) in
         (case HexToECDSA S (trim_prefix (PrivateKey opt) ''0x'') of
            Some e \<Rightarrow> (w, Inl (Wrapped ''invalid private key'' e))
          | None \<Rightarrow>
              (case NewWeb3 S w (EthRPC opt) (PrivateKey opt) of
                 (w1, Inl e) \<Rightarrow> (w1, Inl (Wrapped ''connect eth rpc'' e))
               | (w1, Inr web3) \<Rightarrow>
                   (case NewUploaderFromConfig S w1 web3
                           \<lparr>UcNodes = Nodes opt, UcLogLevel = InfoLevel\<rparr> of
                      (w2, Inl e) \<Rightarrow> (close_handle S w2 web3, Inl (Wrapped ''create uploader'' e))
                    | (w2, Inr (upl, closer)) \<Rightarrow>
                        (case connect_nodes S closer web3 w2 (Nodes opt) [] of
                           (w3', Inl e) \<Rightarrow> (w3', Inl e)
                         | (w3', Inr cs) \<Rightarrow>
                             (case NewDownloader S w3' cs of
                                (w4, Inl e) \<Rightarrow>
                                  (close_all S (close_handle S (close_handle S w4 closer) web3) cs,
                                   Inl (Wrapped ''create downloader'' e))
                              | (w4, Inr d) \<Rightarrow>
                                  (w4, Inr \<lparr>w3 = web3, up = upl, upCloser = Some closer, clients = cs,
                                            dl = d, replica = ExpectedReplica opt\<rparr>))))))))"

definition Close_backend :: "('w, 'h, 'x) sdk \<Rightarrow> 'w \<Rightarrow> 'h backend \<Rightarrow> 'w" where
  "Close_backend S w b =
     (let w1 = (case upCloser b of None \<Rightarrow> w | Some closer \<Rightarrow> close_handle S w closer);
          w2 = close_all S w1 (clients b)
      in close_handle S w2 (w3 b))"

section \<open>BatchUpload\<close>

text \<open>
  The loop that opens the cache files. The files opened so far are returned with the result:
  the deferred function closes them on every way out.
\<close>

fun open_items ::
  "('w, 'h, 'x) sdk \<Rightarrow> 'h backend \<Rightarrow> 'w \<Rightarrow> item list \<Rightarrow> ('h \<times> upload_option) list
     \<Rightarrow> 'w \<times> ('h \<times> upload_option) list \<times> err option" where
  "open_items S b w [] datas = (w, datas, None)"
| "open_items S b w (it # items) datas =
     (case core_Open S w (ItPath it) of
        (w1, Inl e) \<Rightarrow> (w1, datas, Some (Wrapped (''open cache file for '' @ ItRoot it) e))
      | (w1, Inr f) \<Rightarrow>
          open_items S b w1 items
            (datas @ [(f, \<lparr>OptExpectedReplica = replica b, OptSkipTx = ItSkipTx it\<rparr>)]))"

fun check_roots :: "('w, 'h, 'x) sdk \<Rightarrow> nat \<Rightarrow> 'x list \<Rightarrow> item list \<Rightarrow> err option" where
  "check_roots S i (r # rs) (it # items) =
     (if \<not> equal_fold (hash_Hex S r) (ItRoot it)
      then Some (ErrMsg (''root mismatch at index '' @ itoa (int i) @ '': gateway computed ''
                  @ ItRoot it @ '', 0g returned '' @ hash_Hex S r))
      else check_roots S (Suc i) rs items)"
| "check_roots S i [] items = None"
| "check_roots S i (r # rs) [] = None"

definition batch_result ::
  "('w, 'h, 'x) sdk \<Rightarrow> item list \<Rightarrow> ('x \<times> 'x list) result \<Rightarrow> string result" where
  "batch_result S items r =
     (case r of
        Inl e \<Rightarrow> Inl e
      | Inr (txHash, roots) \<Rightarrow>
          if length roots \<noteq> length items
          then Inl (ErrMsg (''0g returned '' @ itoa (int (length roots)) @ '' roots for ''
                     @ itoa (int (length items)) @ '' uploaded items''))
          else
            (case check_roots S 0 roots items of
               Some e \<Rightarrow> Inl e
             | None \<Rightarrow> if txHash = zero_hash S then Inr [] else Inr (hash_Hex S txHash)))"

definition BatchUpload_backend ::
  "('w, 'h, 'x) sdk \<Rightarrow> 'h backend \<Rightarrow> 'w \<Rightarrow> item list \<Rightarrow> 'w \<times> string result" where
  "BatchUpload_backend S b w items =
     (case open_items S b w items [] of
        (w1, datas, Some e) \<Rightarrow> (close_all S w1 (map fst datas), Inl e)
      | (w1, datas, None) \<Rightarrow>
          (case sdk_BatchUpload S w1 (up b) datas of
             (w2, r) \<Rightarrow> (close_all S w2 (map fst datas), batch_result S items r)))"

section \<open>FileStatus and Download\<close>

text \<open>
  The loop over the node clients. The four accumulators are the Go variables
  \<open>sawUploading\<close>, \<open>sawPruned\<close>, \<open>lastErr\<close> and \<open>reachable\<close>; an early return is \<open>Inl\<close>.
\<close>

type_synonym status_acc = "bool \<times> bool \<times> err option \<times> nat"

fun status_loop ::
  "('w, 'h, 'x) sdk \<Rightarrow> 'x \<Rightarrow> 'w \<Rightarrow> 'h list \<Rightarrow> status_acc \<Rightarrow> 'w \<times> (file_status + status_acc)" where
  "status_loop S root w [] acc = (w, Inr acc)"
| "status_loop S root w (c # cs) (sawUploading, sawPruned, lastErr, reachable) =
     (case GetFileInfo S w c root of
        (w1, Inl e) \<Rightarrow> status_loop S root w1 cs (sawUploading, sawPruned, Some e, reachable)
      | (w1, Inr None) \<Rightarrow> status_loop S root w1 cs (sawUploading, sawPruned, lastErr, Suc reachable)
      | (w1, Inr (Some info)) \<Rightarrow>
          if InfoPruned info
          then status_loop S root w1 cs (sawUploading, True, lastErr, Suc reachable)
          else if InfoFinalized info then (w1, Inl FileFinalized)
          else status_loop S root w1 cs (True, sawPruned, lastErr, Suc reachable))"

text \<open>With no client at all \<open>lastErr\<close> is nil and \<open>%w\<close> prints it as such.\<close>

definition unreachable_error :: "err option \<Rightarrow> err" where
  "unreachable_error lastErr =
     (case lastErr of
        None \<Rightarrow> ErrMsg ''all storage nodes unreachable: %!w(<nil>)''
      | Some e \<Rightarrow> Wrapped ''all storage nodes unreachable'' e)"

definition FileStatus_backend ::
  "('w, 'h, 'x) sdk \<Rightarrow> 'h backend \<Rightarrow> 'w \<Rightarrow> string \<Rightarrow> 'w \<times> file_status result" where
  "FileStatus_backend S b w rootHex =
     (case status_loop S (HexToHash S rootHex) w (clients b) (False, False, None, 0) of
        (w1, Inl st) \<Rightarrow> (w1, Inr st)
      | (w1, Inr (sawUploading, sawPruned, lastErr, reachable)) \<Rightarrow>
          if reachable = 0 then (w1, Inl (unreachable_error lastErr))
          else if sawUploading then (w1, Inr FileUploading)
          else if sawPruned then (w1, Inr FilePruned)
          else (w1, Inr FileUnknown))"

definition Download_backend ::
  "('w, 'h, 'x) sdk \<Rightarrow> 'h backend \<Rightarrow> 'w \<Rightarrow> string \<Rightarrow> string \<Rightarrow> 'w \<times> err option" where
  "Download_backend S b w root dest = sdk_Download S w (dl b) root dest True"

text \<open>The backend as the worker's \<open>Chain\<close>.\<close>

definition backend_chain :: "('w, 'h, 'x) sdk \<Rightarrow> 'h backend \<Rightarrow> 'w chain" where
  "backend_chain S b =
     \<lparr>BatchUpload = BatchUpload_backend S b, FileStatusOf = FileStatus_backend S b\<rparr>"

lemma backend_chain_simps [simp]:
  "BatchUpload (backend_chain S b) = BatchUpload_backend S b"
  "FileStatusOf (backend_chain S b) = FileStatus_backend S b"
  by (simp_all add: backend_chain_def)

section \<open>The handles of the SDK\<close>

text \<open>
  What the backend relies on when it releases resources: a constructor that succeeds hands
  out handles, one that fails leaves none behind, and closing releases a handle. The uploader
  and the downloader borrow the clients they are given, and the calls on them open nothing
  that they do not close. \<open>opened w\<close> is the multiset of the open handles.
\<close>

locale sdk_handles =
  fixes S :: "('w, 'h, 'x) sdk" and opened :: "'w \<Rightarrow> 'h multiset"
  assumes web3_ok: "NewWeb3 S w rpc key = (w', Inr h) \<Longrightarrow> opened w' = add_mset h (opened w)"
    and web3_err: "NewWeb3 S w rpc key = (w', Inl e) \<Longrightarrow> opened w' = opened w"
    and uploader_ok: "NewUploaderFromConfig S w h cfg = (w', Inr (u, closer)) \<Longrightarrow>
          opened w' = add_mset closer (opened w)"
    and uploader_err: "NewUploaderFromConfig S w h cfg = (w', Inl e) \<Longrightarrow> opened w' = opened w"
    and client_ok: "NewZgsClient S w url = (w', Inr h) \<Longrightarrow> opened w' = add_mset h (opened w)"
    and client_err: "NewZgsClient S w url = (w', Inl e) \<Longrightarrow> opened w' = opened w"
    and downloader_same: "NewDownloader S w hs = (w', r) \<Longrightarrow> opened w' = opened w"
    and file_ok: "core_Open S w path = (w', Inr h) \<Longrightarrow> opened w' = add_mset h (opened w)"
    and file_err: "core_Open S w path = (w', Inl e) \<Longrightarrow> opened w' = opened w"
    and close_removes: "opened (close_handle S w h) = opened w - {#h#}"
    and upload_same: "sdk_BatchUpload S w u datas = (w', r2) \<Longrightarrow> opened w' = opened w"
    and info_same: "GetFileInfo S w h x = (w', r3) \<Longrightarrow> opened w' = opened w"
    and download_same: "sdk_Download S w h root dest proof_ok = (w', r4) \<Longrightarrow> opened w' = opened w"
begin

lemma close_all_opened: "opened (close_all S w hs) = opened w - mset hs"
proof (induction hs arbitrary: w)
  case (Cons h hs)
  have "opened w - {#h#} - mset hs = opened w - add_mset h (mset hs)"
    by (metis add_mset_add_single diff_diff_add_mset union_commute)
  with Cons show ?case by (simp add: close_all_def close_removes)
qed (simp add: close_all_def)

lemma connect_nodes_opened:
  assumes "connect_nodes S closer web3 w urls cs = (w', r)"
    and "opened w = mset (closer # web3 # cs) + M"
  shows "case r of Inl e \<Rightarrow> opened w' = M
    | Inr hs \<Rightarrow> opened w' = mset (closer # web3 # hs) + M \<and> length hs = length cs + length urls"
  using assms
proof (induction urls arbitrary: w cs)
  case (Cons url urls)
  obtain w1 x where x: "NewZgsClient S w url = (w1, x)" by force
  show ?case
  proof (cases x)
    case (Inl e)
    then have "opened w1 = mset (closer # web3 # cs) + M" using client_err x Cons.prems(2) by simp
    then show ?thesis using Cons.prems(1) x Inl by (auto simp: close_all_opened close_removes)
  next
    case (Inr c)
    then have "opened w1 = mset (closer # web3 # (cs @ [c])) + M"
      using client_ok x Cons.prems(2) by simp
    with Cons.IH [of w1 "cs @ [c]"] Cons.prems(1) x Inr show ?thesis by (auto split: sum.splits)
  qed
qed auto

text \<open>\<open>New\<close> leaks nothing when it fails, and \<open>Close\<close> undoes a success.\<close>

lemma New_backend_opened:
  assumes "New_backend S w opt = (w', r)"
  shows "case r of Inl e \<Rightarrow> opened w' = opened w
    | Inr b \<Rightarrow> \<exists>closer. upCloser b = Some closer
        \<and> opened w' = mset (closer # w3 b # clients b) + opened w
        \<and> length (clients b) = length (Nodes opt)"
proof (cases "Nodes opt = []")
  case True
  then show ?thesis using assms by (auto simp: New_backend_def)
next
  case False
  define o1 where "o1 = (if ExpectedReplica opt = 0 then opt\<lparr>ExpectedReplica := 1\<rparr> else opt)"
  have o1: "Nodes o1 = Nodes opt" by (simp add: o1_def)
  show ?thesis
  proof (cases "HexToECDSA S (trim_prefix (PrivateKey o1) ''0x'')")
    case (Some e)
    then show ?thesis using assms False by (auto simp: New_backend_def o1_def [symmetric])
  next
    case key: None
    obtain w1 x where x: "NewWeb3 S w (EthRPC o1) (PrivateKey o1) = (w1, x)" by force
    show ?thesis
    proof (cases x)
      case (Inl e)
      then show ?thesis using assms False key x web3_err
        by (auto simp: New_backend_def o1_def [symmetric])
    next
      case web3: (Inr web3)
      have p1: "opened w1 = add_mset web3 (opened w)" using web3_ok x web3 by simp
      obtain w2 y where y: "NewUploaderFromConfig S w1 web3 \<lparr>UcNodes = Nodes o1, UcLogLevel = InfoLevel\<rparr>
        = (w2, y)" by force
      show ?thesis
      proof (cases y)
        case (Inl e)
        then show ?thesis using assms False key x web3 y uploader_err p1
          by (auto simp: New_backend_def o1_def [symmetric] close_removes)
      next
        case (Inr uc)
        obtain u closer where uc: "uc = (u, closer)" by force
        have p2: "opened w2 = mset (closer # web3 # []) + opened w"
          using uploader_ok y Inr uc p1 by simp
        obtain wc z where z: "connect_nodes S closer web3 w2 (Nodes o1) [] = (wc, z)" by force
        note zc = connect_nodes_opened [OF z p2]
        show ?thesis
        proof (cases z)
          case (Inl e)
          then show ?thesis using assms False key x web3 y Inr uc z zc
            by (auto simp: New_backend_def o1_def [symmetric])
        next
          case cs: (Inr cs)
          obtain wd d where d: "NewDownloader S wc cs = (wd, d)" by force
          have pd: "opened wd = mset (closer # web3 # cs) + opened w"
            using downloader_same [OF d] zc cs by simp
          show ?thesis
            using assms False key x web3 y Inr uc z zc cs d pd o1
            by (cases d) (auto simp: New_backend_def o1_def [symmetric] close_all_opened close_removes)
        qed
      qed
    qed
  qed
qed

lemma Close_backend_opened:
  assumes "opened w = mset (closer # w3 b # clients b) + M" and "upCloser b = Some closer"
  shows "opened (Close_backend S w b) = M"
  using assms by (simp add: Close_backend_def Let_def close_all_opened close_removes)

lemma open_items_opened:
  assumes "open_items S b w items datas = (w', datas', e)"
    and "opened w = mset (map fst datas) + M"
  shows "opened w' = mset (map fst datas') + M"
  using assms
proof (induction items arbitrary: w datas)
  case (Cons it items)
  obtain w1 x where x: "core_Open S w (ItPath it) = (w1, x)" by force
  show ?case
  proof (cases x)
    case (Inl er)
    then show ?thesis using Cons.prems x file_err by auto
  next
    case (Inr f)
    then have "opened w1 = mset (map fst (datas @ [(f, \<lparr>OptExpectedReplica = replica b, OptSkipTx = ItSkipTx it\<rparr>)])) + M"
      using file_ok x Cons.prems(2) by simp
    with Cons.IH Cons.prems(1) x Inr show ?thesis by simp
  qed
qed simp

lemma BatchUpload_opened: "BatchUpload_backend S b w items = (w', r) \<Longrightarrow> opened w' = opened w"
proof -
  assume run: "BatchUpload_backend S b w items = (w', r)"
  obtain w1 datas e where o: "open_items S b w items [] = (w1, datas, e)" by (metis prod.collapse)
  have w1: "opened w1 = mset (map fst datas) + opened w" using open_items_opened [OF o] by simp
  obtain w2 x where x: "sdk_BatchUpload S w1 (up b) datas = (w2, x)" by force
  show ?thesis
    using run o w1 x upload_same [OF x]
    by (cases e) (auto simp: BatchUpload_backend_def close_all_opened)
qed

lemma status_loop_opened: "status_loop S root w cs acc = (w', r) \<Longrightarrow> opened w' = opened w"
proof (induction cs arbitrary: w acc)
  case (Cons c cs)
  obtain a p l n where acc: "acc = (a, p, l, n)" by (metis prod.collapse)
  obtain w1 x where x: "GetFileInfo S w c root = (w1, x)" by force
  show ?case
    using Cons.prems Cons.IH [of w1] info_same [OF x] x acc
    by (auto split: sum.splits option.splits if_splits)
qed simp

lemma FileStatus_opened: "FileStatus_backend S b w root = (w', r) \<Longrightarrow> opened w' = opened w"
  using status_loop_opened
  by (auto simp: FileStatus_backend_def split: prod.splits sum.splits if_splits)

end

end
