(* ===== verification/Chain_Facts.thy ===== *)
theory Chain_Facts
  imports Chain Uploader_Facts
begin

text \<open>
  What the backend's operations return: the aggregation of the node answers, and what a
  successful batch upload has checked. The SDK contract gives the worker's chain contract:
  no call of the worker changes the set of open handles.
\<close>

sublocale sdk_handles \<subseteq> worker: chain_keeps "backend_chain S b" "\<lambda>w. opened w = M"
  for b M
  by unfold_locales (auto dest: BatchUpload_opened FileStatus_opened)

section \<open>Aggregation of the node answers\<close>

text \<open>One node's answer as a status.\<close>

definition node_view :: "file_info option result \<Rightarrow> file_status result" where
  "node_view a =
     (case a of
        Inl e \<Rightarrow> Inl e
      | Inr None \<Rightarrow> Inr FileUnknown
      | Inr (Some i) \<Rightarrow>
          Inr (if InfoPruned i then FilePruned
               else if InfoFinalized i then FileFinalized else FileUploading))"

text \<open>The aggregate over the views of all nodes.\<close>

definition aggregate :: "file_status result list \<Rightarrow> file_status result" where
  "aggregate vs =
     (if Inr FileFinalized \<in> set vs then Inr FileFinalized
      else if \<forall>v \<in> set vs. isl v
        then Inl (unreachable_error (if vs = [] then None else Some (projl (last vs))))
      else if Inr FileUploading \<in> set vs then Inr FileUploading
      else if Inr FilePruned \<in> set vs then Inr FilePruned
      else Inr FileUnknown)"

text \<open>
  The answers in order of what they are worth: a node that has never seen the file knows least, a
  node that pruned it knows that it was there, and a node that has it final decides.
\<close>

fun status_rank :: "file_status \<Rightarrow> nat" where
  "status_rank FileUnknown = 0"
| "status_rank FilePruned = 1"
| "status_rank FileUploading = 2"
| "status_rank FileFinalized = 3"

lemma status_rank_inj: "status_rank x = status_rank y \<longleftrightarrow> x = y"
  by (cases x; cases y) simp_all

instantiation file_status :: linorder
begin

definition less_eq_file_status :: "file_status \<Rightarrow> file_status \<Rightarrow> bool" where
  "less_eq_file_status x y \<longleftrightarrow> status_rank x \<le> status_rank y"

definition less_file_status :: "file_status \<Rightarrow> file_status \<Rightarrow> bool" where
  "less_file_status x y \<longleftrightarrow> status_rank x < status_rank y"

instance
  by standard (auto simp: less_eq_file_status_def less_file_status_def status_rank_inj [symmetric])

end

lemma file_status_finite [simp]: "finite (X :: file_status set)"
proof (rule finite_subset)
  show "X \<subseteq> {FileUnknown, FilePruned, FileUploading, FileFinalized}"
    using file_status.exhaust by blast
qed simp

lemma Max_file_status:
  assumes "X \<noteq> {}"
  shows "Max X =
    (if FileFinalized \<in> X then FileFinalized else if FileUploading \<in> X then FileUploading
     else if FilePruned \<in> X then FilePruned else FileUnknown)"
proof -
  obtain x where "x \<in> X" using assms by blast
  then have "FileUnknown \<in> X" if "FileFinalized \<notin> X" "FileUploading \<notin> X" "FilePruned \<notin> X"
    using that by (cases x) auto
  moreover have "y \<le> (if FileFinalized \<in> X then FileFinalized else if FileUploading \<in> X then FileUploading
     else if FilePruned \<in> X then FilePruned else FileUnknown)" if "y \<in> X" for y
    using that by (cases y) (auto simp: less_eq_file_status_def)
  ultimately show ?thesis by (intro Max_eqI) auto
qed

lemma node_view_cases:
  obtains (err) e where "a = Inl e" "node_view a = Inl e"
  | (unknown) "a = Inr None" "node_view a = Inr FileUnknown"
  | (pruned) i where "a = Inr (Some i)" "InfoPruned i" "node_view a = Inr FilePruned"
  | (finalized) i where "a = Inr (Some i)" "\<not> InfoPruned i" "InfoFinalized i"
      "node_view a = Inr FileFinalized"
  | (uploading) i where "a = Inr (Some i)" "\<not> InfoPruned i" "\<not> InfoFinalized i"
      "node_view a = Inr FileUploading"
proof (cases a)
  case (Inr o')
  then show thesis using that by (cases o') (auto simp: node_view_def)
qed (use that in \<open>simp add: node_view_def\<close>)

text \<open>The state of the loop after the views \<open>vs\<close>, none of them "finalized".\<close>

definition acc_ok :: "file_status result list \<Rightarrow> status_acc \<Rightarrow> bool" where
  "acc_ok vs acc \<longleftrightarrow>
     (case acc of (u, p, e, n) \<Rightarrow>
        (u \<longleftrightarrow> Inr FileUploading \<in> set vs) \<and> (p \<longleftrightarrow> Inr FilePruned \<in> set vs)
        \<and> (n = 0 \<longleftrightarrow> (\<forall>v \<in> set vs. isl v))
        \<and> (n = 0 \<longrightarrow> e = (if vs = [] then None else Some (projl (last vs))))
        \<and> Inr FileFinalized \<notin> set vs)"

lemma status_loop_views:
  assumes "\<forall>c \<in> set cs. \<forall>w. snd (GetFileInfo S w c root) = ans c" and "acc_ok vs acc"
  shows "(Inr FileFinalized \<in> set (map (node_view \<circ> ans) cs)
            \<longrightarrow> snd (status_loop S root w cs acc) = Inl FileFinalized)
       \<and> (Inr FileFinalized \<notin> set (map (node_view \<circ> ans) cs)
            \<longrightarrow> (\<exists>acc'. snd (status_loop S root w cs acc) = Inr acc'
                  \<and> acc_ok (vs @ map (node_view \<circ> ans) cs) acc'))"
  using assms
proof (induction cs arbitrary: w vs acc)
  case (Cons c cs)
  obtain u p e n where acc: "acc = (u, p, e, n)" by (metis prod.collapse)
  obtain w1 where x: "GetFileInfo S w c root = (w1, ans c)"
    using Cons.prems(1) by (metis list.set_intros(1) prod.collapse)
  have rest: "\<forall>c \<in> set cs. \<forall>w. snd (GetFileInfo S w c root) = ans c" using Cons.prems(1) by simp
  have go: ?case
    if r: "status_loop S root w (c # cs) acc = status_loop S root w1 cs acc1"
      and ok: "acc_ok (vs @ [node_view (ans c)]) acc1" and nf: "node_view (ans c) \<noteq> Inr FileFinalized"
    for acc1
    using Cons.IH [OF rest ok, of w1] r nf by auto
  show ?case
  proof (cases rule: node_view_cases [of "ans c"])
    case (err er)
    show ?thesis
      by (rule go [of "(u, p, Some er, n)"])
        (use err x acc Cons.prems(2) in \<open>auto simp: acc_ok_def\<close>)
  next
    case unknown
    show ?thesis
      by (rule go [of "(u, p, e, Suc n)"])
        (use unknown x acc Cons.prems(2) in \<open>auto simp: acc_ok_def\<close>)
  next
    case (pruned i)
    show ?thesis
      by (rule go [of "(u, True, e, Suc n)"])
        (use pruned x acc Cons.prems(2) in \<open>auto simp: acc_ok_def\<close>)
  next
    case (finalized i)
    then show ?thesis using x acc by auto
  next
    case (uploading i)
    show ?thesis
      by (rule go [of "(True, p, e, Suc n)"])
        (use uploading x acc Cons.prems(2) in \<open>auto simp: acc_ok_def\<close>)
  qed
qed simp

lemma FileStatus_views:
  assumes "\<forall>c \<in> set (clients b). \<forall>w. snd (GetFileInfo S w c (HexToHash S root)) = ans c"
  shows "snd (FileStatus_backend S b w root) = aggregate (map (node_view \<circ> ans) (clients b))"
proof -
  let ?vs = "map (node_view \<circ> ans) (clients b)"
  have "acc_ok [] (False, False, None, 0)" by (simp add: acc_ok_def)
  note loop = status_loop_views [OF assms this, of w]
  obtain w1 r where r: "status_loop S (HexToHash S root) w (clients b) (False, False, None, 0) = (w1, r)"
    by force
  show ?thesis
  proof (cases "Inr FileFinalized \<in> set ?vs")
    case True
    with loop r show ?thesis by (simp add: FileStatus_backend_def aggregate_def)
  next
    case False
    with loop r obtain u p e n where "r = Inr (u, p, e, n)" "acc_ok ?vs (u, p, e, n)" by auto
    with False r show ?thesis
      by (auto simp: FileStatus_backend_def aggregate_def acc_ok_def)
  qed
qed

lemma aggregate_max:
  "aggregate vs =
     (if \<forall>v \<in> set vs. isl v then Inl (unreachable_error (if vs = [] then None else Some (projl (last vs))))
      else Inr (Max {st. Inr st \<in> set vs}))"
proof (cases "\<forall>v \<in> set vs. isl v")
  case True
  then have "Inr st \<notin> set vs" for st by force
  then show ?thesis using True by (simp add: aggregate_def)
next
  case False
  then obtain v where v: "v \<in> set vs" "\<not> isl v" by blast
  from v(2) obtain st where "v = Inr st" by (cases v) simp_all
  then have some: "{st. Inr st \<in> set vs} \<noteq> {}" using v(1) by blast
  show ?thesis unfolding aggregate_def Max_file_status [OF some] using False by auto
qed

section \<open>What a successful batch upload has checked\<close>

text \<open>
  What the backend does to the world of the SDK before the upload: it opens the paths one after the
  other, each in the world that the one before has left, and every opening succeeds.
\<close>

inductive opens ::
  "('w, 'h, 'x) sdk \<Rightarrow> 'w \<Rightarrow> string list \<Rightarrow> 'w \<Rightarrow> 'h list \<Rightarrow> bool"
  for S :: "('w, 'h, 'x) sdk"
where
  opens_none: "opens S w [] w []"
| opens_next: "core_Open S w p = (w1, Inr h) \<Longrightarrow> opens S w1 ps w2 hs \<Longrightarrow> opens S w (p # ps) w2 (h # hs)"

inductive_simps opens_simps [simp]:
  "opens S w [] w' hs"
  "opens S w (p # ps) w' hs"

lemma opens_length: "opens S w ps w' hs \<Longrightarrow> length hs = length ps"
  by (induction rule: opens.induct) simp_all

definition upload_option_of :: "'h backend \<Rightarrow> item \<Rightarrow> upload_option" where
  "upload_option_of b it = \<lparr>OptExpectedReplica = replica b, OptSkipTx = ItSkipTx it\<rparr>"

lemma open_items_opens:
  "open_items S b w items datas = (w', datas', None) \<longleftrightarrow>
     (\<exists>hs. opens S w (map ItPath items) w' hs \<and> datas' = datas @ zip hs (map (upload_option_of b) items))"
proof (induction items arbitrary: w datas)
  case (Cons it items)
  show ?case by (cases "core_Open S w (ItPath it)"; cases "snd (core_Open S w (ItPath it))")
    (auto simp: Cons.IH upload_option_of_def)
qed auto

lemma open_items_fails:
  assumes "opens S w (map ItPath pre) w1 hs" and "core_Open S w1 (ItPath it) = (w2, Inl e)"
  shows "open_items S b w (pre @ it # post) datas
    = (w2, datas @ zip hs (map (upload_option_of b) pre), Some (Wrapped (''open cache file for '' @ ItRoot it) e))"
  using assms
proof (induction pre arbitrary: w datas hs)
  case (Cons i pre)
  then show ?case by (auto simp: upload_option_of_def)
qed auto

lemma check_roots_iff:
  "length roots = length items \<Longrightarrow>
   check_roots S i roots items = None \<longleftrightarrow> list_all2 (\<lambda>r it. equal_fold (hash_Hex S r) (ItRoot it)) roots items"
  by (induction S i roots items rule: check_roots.induct) auto

lemma batch_result_ok:
  "batch_result S items x = Inr h \<longleftrightarrow>
     (\<exists>txHash roots. x = Inr (txHash, roots) \<and> list_all2 (\<lambda>r it. equal_fold (hash_Hex S r) (ItRoot it)) roots items
        \<and> h = (if txHash = zero_hash S then [] else hash_Hex S txHash))"
proof (cases x)
  case (Inr y)
  obtain txHash roots where y: "y = (txHash, roots)" by force
  show ?thesis
  proof (cases "length roots = length items")
    case True
    then show ?thesis
      using check_roots_iff [OF True, of S 0] Inr y by (auto simp: batch_result_def split: option.splits)
  next
    case False
    then show ?thesis using Inr y list_all2_lengthD by (fastforce simp: batch_result_def)
  qed
qed (simp add: batch_result_def)

lemma BatchUpload_ok_iff:
  "BatchUpload_backend S b w items = (w', Inr h) \<longleftrightarrow>
     (\<exists>w1 hs w2 txHash roots. opens S w (map ItPath items) w1 hs
        \<and> sdk_BatchUpload S w1 (up b) (zip hs (map (upload_option_of b) items)) = (w2, Inr (txHash, roots))
        \<and> list_all2 (\<lambda>r it. equal_fold (hash_Hex S r) (ItRoot it)) roots items
        \<and> h = (if txHash = zero_hash S then [] else hash_Hex S txHash)
        \<and> w' = close_all S w2 hs)" (is "_ \<longleftrightarrow> ?R")
proof
  assume run: "BatchUpload_backend S b w items = (w', Inr h)"
  obtain w1 datas e where o: "open_items S b w items [] = (w1, datas, e)" by (metis prod.collapse)
  obtain w2 x where x: "sdk_BatchUpload S w1 (up b) datas = (w2, x)" by force
  have "e = None" and r: "batch_result S items x = Inr h" and w': "w' = close_all S w2 (map fst datas)"
    using run o x by (auto simp: BatchUpload_backend_def split: option.splits)
  then obtain hs where hs: "opens S w (map ItPath items) w1 hs" "datas = zip hs (map (upload_option_of b) items)"
    using o by (auto simp: open_items_opens)
  then have "map fst datas = hs" using opens_length [OF hs(1)] by simp
  moreover obtain txHash roots where "x = Inr (txHash, roots)"
    "list_all2 (\<lambda>r it. equal_fold (hash_Hex S r) (ItRoot it)) roots items"
    "h = (if txHash = zero_hash S then [] else hash_Hex S txHash)"
    using r unfolding batch_result_ok by blast
  ultimately show ?R using hs x w' by (intro exI conjI) (assumption | simp)+
next
  assume ?R
  then obtain w1 hs w2 txHash roots where o: "opens S w (map ItPath items) w1 hs"
    and u: "sdk_BatchUpload S w1 (up b) (zip hs (map (upload_option_of b) items)) = (w2, Inr (txHash, roots))"
    and r: "batch_result S items (Inr (txHash, roots)) = Inr h" and w': "w' = close_all S w2 hs"
    unfolding batch_result_ok by blast
  have "open_items S b w items [] = (w1, zip hs (map (upload_option_of b) items), None)"
    unfolding open_items_opens using o by auto
  then show "BatchUpload_backend S b w items = (w', Inr h)"
    using u r w' opens_length [OF o] by (simp add: BatchUpload_backend_def)
qed

lemma BatchUpload_open_fails:
  assumes "opens S w (map ItPath pre) w1 hs" and "core_Open S w1 (ItPath it) = (w2, Inl e)"
  shows "BatchUpload_backend S b w (pre @ it # post)
    = (close_all S w2 hs, Inl (Wrapped (''open cache file for '' @ ItRoot it) e))"
  using open_items_fails [OF assms] opens_length [OF assms(1)] by (simp add: BatchUpload_backend_def)

end
