(* ===== verification/Chain_Props.thy ===== *)
theory Chain_Props
  imports Chain_Facts Uploader_Run Store_Example
begin

text \<open>
  The properties of the 0G backend, a reference SDK for their witnesses, and the guarantee that
  backend and worker give together.
\<close>

section \<open>A reference SDK\<close>

text \<open>
  Handles are numbered in the order they are opened; the file behind a handle is remembered,
  and a batch upload returns the roots that the file names carry. Handles with an odd number
  report every file finalized, the others have not seen it; the node "down" cannot be reached
  and the file "missing" cannot be opened.
\<close>

record ref_world =
  rw_next :: nat
  rw_open :: "nat multiset"
  rw_path :: "nat \<Rightarrow> string"

definition ref_new :: "ref_world \<Rightarrow> string \<Rightarrow> ref_world" where
  "ref_new w path =
     w\<lparr>rw_next := Suc (rw_next w), rw_open := add_mset (rw_next w) (rw_open w),
       rw_path := (rw_path w)(rw_next w := path)\<rparr>"

definition ref_sdk :: "(ref_world, nat, string) sdk" where
  "ref_sdk =
     \<lparr>HexToECDSA = (\<lambda>k. if k = [] then Some (ErrSDK ''invalid length'') else None),
      NewWeb3 = (\<lambda>w rpc key. (ref_new w rpc, Inr (rw_next w))),
      NewUploaderFromConfig = (\<lambda>w h cfg. (ref_new w [], Inr (h, rw_next w))),
      NewZgsClient = (\<lambda>w url. if url = ''down'' then (w, Inl (ErrSDK ''refused''))
                              else (ref_new w url, Inr (rw_next w))),
      NewDownloader = (\<lambda>w hs. (w, Inr 0)),
      close_handle = (\<lambda>w h. w\<lparr>rw_open := rw_open w - {#h#}\<rparr>),
      core_Open = (\<lambda>w path. if path = ''objects/missing'' then (w, Inl ErrNotExist)
                            else (ref_new w path, Inr (rw_next w))),
      sdk_BatchUpload = (\<lambda>w u datas. (w, Inr (''0xaa'', map (\<lambda>d. drop 8 (rw_path w (fst d))) datas))),
      GetFileInfo = (\<lambda>w h x. (w, Inr (if odd h then Some \<lparr>InfoPruned = False, InfoFinalized = True\<rparr>
                                       else None))),
      sdk_Download = (\<lambda>w h root dest check. (w, None)),
      HexToHash = (\<lambda>x. x), hash_Hex = (\<lambda>x. x), zero_hash = []\<rparr>"

lemma ref_sdk_handles: "sdk_handles ref_sdk rw_open"
  by unfold_locales (auto simp: ref_sdk_def ref_new_def split: if_splits)

interpretation ref_sdk: sdk_handles ref_sdk rw_open
  by (rule ref_sdk_handles)

definition ex_world :: ref_world where
  "ex_world = \<lparr>rw_next = 0, rw_open = {#}, rw_path = (\<lambda>_. [])\<rparr>"

definition ex_options :: options where
  "ex_options = \<lparr>Nodes = [''n1'', ''n2''], EthRPC = ''rpc'', PrivateKey = ''0xkey'', ExpectedReplica = 0\<rparr>"

definition ex_backend :: "nat backend" where
  "ex_backend = \<lparr>w3 = 0, up = 0, upCloser = Some 1, clients = [2, 3], dl = 0, replica = 1\<rparr>"

section \<open>Properties\<close>

text \<open>
  The status of a file is decided by the set of the nodes' answers, not by their order.
  With \<open>ans c\<close> the answer of node \<open>c\<close>: finalized exactly when some node reports it finalized
  and not pruned; otherwise an error exactly when every node failed to answer, uploading when
  some node has it without either mark, pruned when none has and some node pruned it, unknown
  when the nodes that answered have not seen it.
\<close>

theorem file_status_aggregates:
  assumes "\<forall>c \<in> set (clients b). \<forall>w. snd (GetFileInfo S w c (HexToHash S root)) = ans c"
    and "fin \<longleftrightarrow> (\<exists>c \<in> set (clients b). \<exists>i. ans c = Inr (Some i) \<and> \<not> InfoPruned i \<and> InfoFinalized i)"
    and "upl \<longleftrightarrow> (\<exists>c \<in> set (clients b). \<exists>i. ans c = Inr (Some i) \<and> \<not> InfoPruned i \<and> \<not> InfoFinalized i)"
    and "prn \<longleftrightarrow> (\<exists>c \<in> set (clients b). \<exists>i. ans c = Inr (Some i) \<and> InfoPruned i)"
    and "st = snd (FileStatus_backend S b w root)"
  shows "(st = Inr FileFinalized \<longleftrightarrow> fin)
       \<and> (isl st \<longleftrightarrow> (\<forall>c \<in> set (clients b). isl (ans c)))
       \<and> (st = Inr FileUploading \<longleftrightarrow> \<not> fin \<and> upl)
       \<and> (st = Inr FilePruned \<longleftrightarrow> \<not> fin \<and> \<not> upl \<and> prn)
       \<and> (st = Inr FileUnknown \<longleftrightarrow>
            \<not> fin \<and> \<not> upl \<and> \<not> prn \<and> (\<exists>c \<in> set (clients b). ans c = Inr None))"
proof -
  let ?vs = "map (node_view \<circ> ans) (clients b)"
  have st: "st = aggregate ?vs" using FileStatus_views [OF assms(1)] assms(5) by simp
  have view: "node_view a = Inr FileFinalized \<longleftrightarrow> (\<exists>i. a = Inr (Some i) \<and> \<not> InfoPruned i \<and> InfoFinalized i)"
    "node_view a = Inr FileUploading \<longleftrightarrow> (\<exists>i. a = Inr (Some i) \<and> \<not> InfoPruned i \<and> \<not> InfoFinalized i)"
    "node_view a = Inr FilePruned \<longleftrightarrow> (\<exists>i. a = Inr (Some i) \<and> InfoPruned i)"
    "isl (node_view a) = isl a" for a
    by (cases rule: node_view_cases [of a]; simp)+
  have mem: "Inr FileFinalized \<in> set ?vs \<longleftrightarrow> fin" "Inr FileUploading \<in> set ?vs \<longleftrightarrow> upl"
    "Inr FilePruned \<in> set ?vs \<longleftrightarrow> prn" "(\<forall>v \<in> set ?vs. isl v) \<longleftrightarrow> (\<forall>c \<in> set (clients b). isl (ans c))"
    using view assms(2-4) by (auto simp: image_iff eq_commute [of "Inr _"])
  have each: "isl (ans c) \<or> ans c = Inr None" if "\<not> fin" "\<not> upl" "\<not> prn" "c \<in> set (clients b)" for c
    by (cases rule: node_view_cases [of "ans c"]) (use that assms(2-4) in blast | simp)+
  then have none: "(\<exists>c \<in> set (clients b). ans c = Inr None) \<longleftrightarrow>
      \<not> (\<forall>c \<in> set (clients b). isl (ans c))" if "\<not> fin" "\<not> upl" "\<not> prn"
    using that by force
  have errs: "\<not> fin \<and> \<not> upl \<and> \<not> prn" if all: "\<forall>c \<in> set (clients b). isl (ans c)"
  proof -
    have "ans c \<noteq> Inr x" if "c \<in> set (clients b)" for c x using all that by (metis sum.disc(2))
    then show ?thesis using assms(2-4) by blast
  qed
  show ?thesis
    using none errs unfolding st aggregate_def mem by auto
qed

theorem file_status_aggregates_witness:
  "snd (FileStatus_backend ref_sdk ex_backend ex_world ''0x11'') = Inr FileFinalized"
  using file_status_aggregates [of ex_backend ref_sdk "''0x11''"
      "\<lambda>c. Inr (if odd c then Some \<lparr>InfoPruned = False, InfoFinalized = True\<rparr> else None)"
      True False False "snd (FileStatus_backend ref_sdk ex_backend ex_world ''0x11'')" ex_world]
  by (simp add: ref_sdk_def ex_backend_def)

text \<open>
  C14: The status of a file is the maximum of the nodes' answers. When no node answers, \<open>FileStatus\<close>
  returns an error that wraps the last node's; otherwise it returns the greatest of the answers in
  the order unknown, pruned, uploading, finalized, where a pruned file does not count as finalized.
  So neither the order of the nodes nor nodes that fail can change it.
\<close>

theorem file_status_is_max:
  assumes "\<forall>c \<in> set (clients b). \<forall>w. snd (GetFileInfo S w c (HexToHash S root)) = ans c"
  shows "snd (FileStatus_backend S b w root) =
    (if \<forall>c \<in> set (clients b). isl (ans c)
     then Inl (unreachable_error (if clients b = [] then None else Some (projl (ans (last (clients b))))))
     else Inr (Max {st. \<exists>c \<in> set (clients b). node_view (ans c) = Inr st}))"
proof -
  have err: "isl (node_view a) = isl a" "isl a \<Longrightarrow> node_view a = Inl (projl a)" for a
    by (cases rule: node_view_cases [of a]; simp)+
  have "{st. Inr st \<in> set (map (node_view \<circ> ans) (clients b))} = {st. \<exists>c \<in> set (clients b). node_view (ans c) = Inr st}"
    by (auto simp: image_iff eq_commute [of "Inr _"])
  then show ?thesis
    unfolding FileStatus_views [OF assms] aggregate_max by (auto simp: err last_map)
qed

theorem file_status_is_max_witness:
  "snd (FileStatus_backend ref_sdk ex_backend ex_world ''0x11'') = Inr FileFinalized"
proof -
  have "Max {st. FileUnknown = st \<or> FileFinalized = st} = FileFinalized"
    by (subst Max_file_status) auto
  then show ?thesis
    using file_status_is_max [of ex_backend ref_sdk "''0x11''"
        "\<lambda>c. Inr (if odd c then Some \<lparr>InfoPruned = False, InfoFinalized = True\<rparr> else None)" ex_world]
    by (auto simp: ref_sdk_def ex_backend_def node_view_def)
qed

text \<open>
  C29: A batch that the backend reports as done has been confirmed by 0G root by root. The backend
  returns \<open>h\<close> without error exactly when it opened the cache file of every item, in order, then
  called the SDK once with these files, each with the configured number of replicas and the item's
  own \<open>SkipTx\<close>, and the SDK returned as many roots as items, each the item's root up to the case of
  the hex digits; \<open>h\<close> is the transaction's hash, or empty when the SDK reports that no transaction
  was made, and afterwards the opened files are closed and nothing else has happened. When a cache
  file cannot be opened, the SDK is not called, the files opened so far are closed and the error
  names the item.
\<close>

theorem batch_upload_confirms_roots:
  "(BatchUpload_backend S b w items = (w', Inr h) \<longleftrightarrow>
     (\<exists>w1 hs w2 txHash roots.
        opens S w (map ItPath items) w1 hs
        \<and> sdk_BatchUpload S w1 (up b)
             (zip hs (map (\<lambda>it. \<lparr>OptExpectedReplica = replica b, OptSkipTx = ItSkipTx it\<rparr>) items))
           = (w2, Inr (txHash, roots))
        \<and> length roots = length items
        \<and> (\<forall>i < length items. equal_fold (hash_Hex S (roots ! i)) (ItRoot (items ! i)))
        \<and> h = (if txHash = zero_hash S then [] else hash_Hex S txHash)
        \<and> w' = foldl (close_handle S) w2 hs))
   \<and> (\<forall>pre it post w1 hs w2 e.
        items = pre @ it # post \<and> opens S w (map ItPath pre) w1 hs \<and> core_Open S w1 (ItPath it) = (w2, Inl e)
        \<longrightarrow> BatchUpload_backend S b w items
            = (foldl (close_handle S) w2 hs, Inl (Wrapped (''open cache file for '' @ ItRoot it) e)))"
proof (intro conjI allI impI)
  have opt: "(\<lambda>it. \<lparr>OptExpectedReplica = replica b, OptSkipTx = ItSkipTx it\<rparr>) = upload_option_of b"
    by (simp add: fun_eq_iff upload_option_of_def)
  have roots: "list_all2 (\<lambda>r it. equal_fold (hash_Hex S r) (ItRoot it)) rs items \<longleftrightarrow>
      length rs = length items \<and> (\<forall>i < length items. equal_fold (hash_Hex S (rs ! i)) (ItRoot (items ! i)))" for rs
    by (auto simp: list_all2_conv_all_nth)
  show "BatchUpload_backend S b w items = (w', Inr h) \<longleftrightarrow>
     (\<exists>w1 hs w2 txHash roots.
        opens S w (map ItPath items) w1 hs
        \<and> sdk_BatchUpload S w1 (up b)
             (zip hs (map (\<lambda>it. \<lparr>OptExpectedReplica = replica b, OptSkipTx = ItSkipTx it\<rparr>) items))
           = (w2, Inr (txHash, roots))
        \<and> length roots = length items
        \<and> (\<forall>i < length items. equal_fold (hash_Hex S (roots ! i)) (ItRoot (items ! i)))
        \<and> h = (if txHash = zero_hash S then [] else hash_Hex S txHash)
        \<and> w' = foldl (close_handle S) w2 hs)"
    unfolding BatchUpload_ok_iff roots opt close_all_def conj_assoc by (rule refl)
  show "BatchUpload_backend S b w items
      = (foldl (close_handle S) w2 hs, Inl (Wrapped (''open cache file for '' @ ItRoot it) e))"
    if "items = pre @ it # post \<and> opens S w (map ItPath pre) w1 hs \<and> core_Open S w1 (ItPath it) = (w2, Inl e)"
    for pre it post w1 hs w2 e
    using that BatchUpload_open_fails by (fastforce simp: close_all_def)
qed

definition ex_items :: "item list" where
  "ex_items = [\<lparr>ItRoot = ''0x1A'', ItPath = ''objects/0x1a'', ItSkipTx = False\<rparr>,
               \<lparr>ItRoot = ''0x2b'', ItPath = ''objects/0x2b'', ItSkipTx = True\<rparr>]"

lemma ex_fold: "equal_fold ''0x1a'' ''0x1A''"
  by code_simp

lemma ex_batch: "snd (BatchUpload_backend ref_sdk ex_backend ex_world ex_items) = Inr ''0xaa''"
  by (simp add: BatchUpload_backend_def ex_items_def ref_sdk_def ref_new_def ex_world_def
      batch_result_def ex_fold close_all_def)

theorem batch_upload_confirms_roots_witness:
  "(\<exists>w1 w2 roots. opens ref_sdk ex_world [''objects/0x1a'', ''objects/0x2b''] w1 [0, 1]
      \<and> sdk_BatchUpload ref_sdk w1 0 [(0, \<lparr>OptExpectedReplica = 1, OptSkipTx = False\<rparr>),
          (1, \<lparr>OptExpectedReplica = 1, OptSkipTx = True\<rparr>)] = (w2, Inr (''0xaa'', roots))
      \<and> length roots = 2 \<and> equal_fold (roots ! 0) ''0x1A'')
   \<and> snd (BatchUpload_backend ref_sdk ex_backend ex_world
         [\<lparr>ItRoot = ''0x3c'', ItPath = ''objects/missing'', ItSkipTx = False\<rparr>])
     = Inl (Wrapped ''open cache file for 0x3c'' ErrNotExist)"
proof -
  let ?it = "\<lparr>ItRoot = ''0x3c'', ItPath = ''objects/missing'', ItSkipTx = False\<rparr>"
  have core: "core_Open ref_sdk ex_world ''objects/missing'' = (ex_world, Inl ErrNotExist)" by (simp add: ref_sdk_def)
  obtain w' where "BatchUpload_backend ref_sdk ex_backend ex_world ex_items = (w', Inr ''0xaa'')"
    using ex_batch by (metis prod.collapse)
  then obtain w1 hs w2 txHash roots where r: "opens ref_sdk ex_world (map ItPath ex_items) w1 hs"
    "sdk_BatchUpload ref_sdk w1 (up ex_backend)
       (zip hs (map (\<lambda>it. \<lparr>OptExpectedReplica = replica ex_backend, OptSkipTx = ItSkipTx it\<rparr>) ex_items))
     = (w2, Inr (txHash, roots))"
    "length roots = length ex_items"
    "\<forall>i < length ex_items. equal_fold (hash_Hex ref_sdk (roots ! i)) (ItRoot (ex_items ! i))"
    using batch_upload_confirms_roots [of ref_sdk ex_backend ex_world ex_items w' "''0xaa''"] by blast
  have hs: "hs = [0, 1]"
    using r(1) by (auto simp: ex_items_def ref_sdk_def ref_new_def ex_world_def)
  have "equal_fold (roots ! 0) ''0x1A''" using r(4) [rule_format, of 0] by (simp add: ex_items_def ref_sdk_def)
  moreover have "txHash = ''0xaa''" using r(2) by (simp add: ref_sdk_def)
  moreover have "length roots = 2" using r(3) by (simp add: ex_items_def)
  moreover have "snd (BatchUpload_backend ref_sdk ex_backend ex_world
       [\<lparr>ItRoot = ''0x3c'', ItPath = ''objects/missing'', ItSkipTx = False\<rparr>])
     = Inl (Wrapped ''open cache file for 0x3c'' ErrNotExist)"
    using batch_upload_confirms_roots [THEN conjunct2, rule_format, of "[?it]" "[]" ?it "[]" ref_sdk ex_world ex_world "[]"
        ex_world ErrNotExist ex_backend]
    by (simp add: core)
  ultimately show ?thesis using r(1,2) hs by (auto simp: ex_backend_def ex_items_def)
qed

text \<open>
  C33: The backend leaks no connection and no file. For an SDK whose calls account for their
  handles, \<open>New\<close> leaves the open handles as they were on every failure (no nodes, a bad key,
  an unreachable RPC or node, a failed uploader or downloader) and otherwise opens exactly the
  web3 client, the uploader and one client per node, which \<open>Close\<close> releases again; a batch
  upload and a status query leave the open handles as they were whatever they return.
\<close>

theorem backend_releases_handles:
  assumes "sdk_handles S opened"
  shows "(\<forall>w opt w' e. New_backend S w opt = (w', Inl e) \<longrightarrow> opened w' = opened w)
       \<and> (\<forall>w opt w' b. New_backend S w opt = (w', Inr b) \<longrightarrow>
            (\<exists>closer. opened w' = mset (closer # w3 b # clients b) + opened w)
            \<and> length (clients b) = length (Nodes opt) \<and> opened (Close_backend S w' b) = opened w)
       \<and> (\<forall>b w items. opened (fst (BatchUpload_backend S b w items)) = opened w)
       \<and> (\<forall>b w root. opened (fst (FileStatus_backend S b w root)) = opened w)"
proof (intro conjI allI impI)
  fix w opt w' e
  assume "New_backend S w opt = (w', Inl e)"
  then show "opened w' = opened w" using sdk_handles.New_backend_opened [OF assms] by fastforce
next
  fix w opt w' b
  assume "New_backend S w opt = (w', Inr b)"
  from sdk_handles.New_backend_opened [OF assms this] obtain closer where
    c: "upCloser b = Some closer" "opened w' = mset (closer # w3 b # clients b) + opened w"
    "length (clients b) = length (Nodes opt)" by auto
  then show "\<exists>closer. opened w' = mset (closer # w3 b # clients b) + opened w"
    and "length (clients b) = length (Nodes opt)"
    by blast+
  show "opened (Close_backend S w' b) = opened w"
    by (rule sdk_handles.Close_backend_opened [OF assms c(2,1)])
next
  show "opened (fst (BatchUpload_backend S b w items)) = opened w" for b w items
    using sdk_handles.BatchUpload_opened [OF assms] by (metis prod.collapse)
  show "opened (fst (FileStatus_backend S b w root)) = opened w" for b w root
    using sdk_handles.FileStatus_opened [OF assms] by (metis prod.collapse)
qed

theorem backend_releases_handles_witness:
  "(let w = fst (New_backend ref_sdk ex_world (ex_options\<lparr>Nodes := [''n1'', ''n2'', ''down'']\<rparr>))
    in rw_open w = {#} \<and> rw_next w = 4)
   \<and> rw_open (fst (BatchUpload_backend ref_sdk ex_backend ex_world
        (ex_items @ [\<lparr>ItRoot = ''missing'', ItPath = ''objects/missing'', ItSkipTx = False\<rparr>]))) = {#}"
proof -
  have run: "\<exists>w e. New_backend ref_sdk ex_world (ex_options\<lparr>Nodes := [''n1'', ''n2'', ''down'']\<rparr>) = (w, Inl e)
      \<and> rw_next w = 4"
    by (simp add: New_backend_def ref_sdk_def ref_new_def ex_world_def ex_options_def Let_def
        trim_prefix_def close_all_def)
  then obtain w e where w: "New_backend ref_sdk ex_world (ex_options\<lparr>Nodes := [''n1'', ''n2'', ''down'']\<rparr>) = (w, Inl e)"
    "rw_next w = 4" by blast
  note none = backend_releases_handles [OF ref_sdk_handles]
  have ex: "rw_open ex_world = {#}" by (simp add: ex_world_def)
  have "rw_open w = rw_open ex_world" using none w(1) by blast
  moreover have "rw_open (fst (BatchUpload_backend ref_sdk ex_backend ex_world items)) = rw_open ex_world"
    for items using none by blast
  ultimately show ?thesis using w ex by (simp add: Let_def)
qed

text \<open>
  C28: An onchain status is backed by 0G. When the worker runs on the real backend, then in
  every state that any interleaving of client operations and worker passes reaches, an onchain
  object was in a batch for which the SDK returned, at the object's position, a root equal to
  the object's own; a finalized object was reported finalized by a status query of the backend.
\<close>

theorem onchain_confirmed_by_0g:
  assumes "store_host H" and "sys_reachable H (backend_chain S b) W ((w, calls), s)"
    and "meta_at H s r = Some m"
  shows "(Status m = StatusOnchain \<longrightarrow>
            (\<exists>w1 w2 datas txHash roots i. sdk_BatchUpload S w1 (up b) datas = (w2, Inr (txHash, roots))
               \<and> i < length roots \<and> equal_fold (hash_Hex S (roots ! i)) r))
       \<and> (Status m = StatusFinalized \<longrightarrow>
            (\<exists>w1 w2. FileStatus_backend S b w1 r = (w2, Inr FileFinalized)))"
proof (intro conjI impI)
  have ok: "status_ok calls r (Status m)"
    using store_host.sys_reachable_inv [OF assms(1,2)] assms(3) by (simp add: sys_inv_def)
  have real: "real_calls (backend_chain S b) calls" using sys_reachable_real [OF assms(2)] by simp
  {
    assume "Status m = StatusOnchain"
    then obtain items th it where "Upload items (Inr th) \<in> set calls" "it \<in> set items" "ItRoot it = r"
      using ok by auto
    moreover from this real obtain w1 w2 where "BatchUpload_backend S b w1 items = (w2, Inr th)"
      unfolding real_calls_def backend_chain_simps by meson
    from this [unfolded BatchUpload_ok_iff] obtain w3 w4 datas txHash roots where
      u: "sdk_BatchUpload S w3 (up b) datas = (w4, Inr (txHash, roots))"
      "list_all2 (\<lambda>r it. equal_fold (hash_Hex S r) (ItRoot it)) roots items"
      by blast
    ultimately show "\<exists>w1 w2 datas txHash roots i. sdk_BatchUpload S w1 (up b) datas = (w2, Inr (txHash, roots))
               \<and> i < length roots \<and> equal_fold (hash_Hex S (roots ! i)) r"
      by (metis in_set_conv_nth list_all2_conv_all_nth)
  next
    assume "Status m = StatusFinalized"
    then have "Ask r (Inr FileFinalized) \<in> set calls" using ok by simp
    with real show "\<exists>w1 w2. FileStatus_backend S b w1 r = (w2, Inr FileFinalized)"
      by (auto simp: real_calls_def)
  }
qed

definition ex_worker :: worker_config where
  "ex_worker = \<lparr>BatchMax = 10, MaxRetries = 5, PathOf = (\<lambda>r. ''objects/'' @ r)\<rparr>"

lemma ex_batch_run:
  "\<exists>w calls s e m. processBatch ref_host (logged (backend_chain ref_sdk ex_backend)) ex_worker
       ((ex_world, []), ex_created) [ex_obj] = (((w, calls), s), e)
     \<and> meta_at ref_host s ''0x11'' = Some m \<and> Status m = StatusOnchain"
  by (simp add: processBatch_def ex_worker_def mk_item_def Get_def logged_def BatchUpload_backend_def
      ref_sdk_def ref_new_def ex_world_def batch_result_def close_all_def ex_backend_def
      ex_defs store_eval)

theorem onchain_confirmed_by_0g_witness:
  "\<exists>w1 w2 datas txHash roots i. sdk_BatchUpload ref_sdk w1 0 datas = (w2, Inr (txHash, roots))
     \<and> i < length roots \<and> equal_fold (roots ! i) ''0x11''"
proof -
  let ?C = "backend_chain ref_sdk ex_backend"
  obtain w calls s e m where
    run: "processBatch ref_host (logged ?C) ex_worker ((ex_world, []), ex_created) [ex_obj] = (((w, calls), s), e)"
    and m: "meta_at ref_host s ''0x11'' = Some m" "Status m = StatusOnchain"
    using ex_batch_run by blast
  have start: "sys_start ref_host ((ex_world, []), ex_start)" by (simp add: sys_start_def ex_start)
  have "sys_step ref_host ?C ex_worker ((ex_world, []), ex_start) ((ex_world, []), ex_created)"
    by (rule sys_client [where p = "OpCreate ex_obj"
          and x = "snd (CreateObject ref_host ex_start ex_obj)"])
      (simp_all add: ex_created_def, simp_all add: ex_obj_def zero_meta_def)
  moreover have "sys_step ref_host ?C ex_worker ((ex_world, []), ex_created) ((w, calls), s)"
    by (rule sys_batch [OF run]) simp
  ultimately have r: "sys_reachable ref_host ?C ex_worker ((w, calls), s)"
    unfolding sys_reachable_def using start by (meson converse_rtranclp_into_rtranclp rtranclp.rtrancl_refl)
  from onchain_confirmed_by_0g [OF ref_store_host r m(1)] m(2)
  show ?thesis by (simp add: ref_sdk_def ex_backend_def)
qed

end
