(* ===== verification/Object.thy ===== *)
theory Object
  imports Store Go_Text "HOL-Library.Multiset"
begin

text \<open>
  \<open>internal/object/service.go\<close>: the PUT and GET pipeline over the store, the cache directory
  and the spool directory. The service's state is passed explicitly; every system call that
  can fail asks a fault oracle indexed by the number of calls made so far, so a theorem for
  every oracle covers every combination of failing calls.
\<close>

section \<open>The host of the service\<close>

text \<open>
  A directory is an association list from names to its nodes: a regular file with its bytes,
  or a subdirectory with the size that \<open>Stat\<close> reports. The entry \<open>root\<close> of the cache
  directory stands for the path \<open>CachePath(root)\<close>, and a subdirectory is not empty, so it
  cannot be removed or renamed over.
\<close>

datatype fnode = RegFile string | SubDir int

type_synonym dir = "(string \<times> fnode) list"

definition dir_put :: "dir \<Rightarrow> string \<Rightarrow> fnode \<Rightarrow> dir" where
  "dir_put d n x = (n, x) # filter (\<lambda>e. fst e \<noteq> n) d"

definition dir_del :: "dir \<Rightarrow> string \<Rightarrow> dir" where
  "dir_del d n = filter (\<lambda>e. fst e \<noteq> n) d"

fun node_size :: "fnode \<Rightarrow> int" where
  "node_size (RegFile b) = int (length b)"
| "node_size (SubDir n) = n"

text \<open>
  Beside the store's host: \<open>os_fault n\<close> is the error of the n-th system call (\<open>None\<close> when it
  succeeds) and \<open>os_partial n\<close> how many bytes a failing write got through; \<open>temp_name\<close> is the
  name \<open>os.CreateTemp\<close> picks beside the existing ones, \<open>rand63\<close> and \<open>wall\<close> are
  \<open>rand.Int63\<close> and \<open>time.Now\<close>; \<open>sort_lru\<close> is what \<open>sort.Slice\<close>, which is not stable,
  makes of the eviction candidates. The two digests are in hex. \<open>merkle_root\<close> is the root that
  the 0G SDK computes from a file, as hex, and \<open>download\<close> the \<open>Downloader\<close> interface on its
  own state: what it leaves in the destination file, and its error.
\<close>

record ('b, 'v, 'd) svc_host = "('b, 'v) host" +
  os_fault :: "nat \<Rightarrow> err option"
  os_partial :: "nat \<Rightarrow> nat"
  temp_name :: "string list \<Rightarrow> nat \<Rightarrow> string"
  rand63 :: "nat \<Rightarrow> int"
  wall :: "nat \<Rightarrow> int"
  sort_lru :: "cache_entry list \<Rightarrow> cache_entry list"
  sha256_hex :: "string \<Rightarrow> string"
  md5_hex :: "string \<Rightarrow> string"
  merkle_root :: "string \<Rightarrow> string result"
  download :: "'d \<Rightarrow> string \<Rightarrow> 'd \<times> string option \<times> err option"

record svc_config =
  DataDir :: string
  MaxSize :: int
  CacheMaxBytes :: int

record ('b, 'd) svc =
  sv_store :: "'b store"
  sv_dl :: 'd
  objs :: dir
  tmps :: dir
  cacheBytes :: int
  evicting :: bool
  tick :: nat

text \<open>One system call: the call counter advances and the oracle says whether it fails.\<close>

definition os_call ::
  "('b, 'v, 'd, 'z) svc_host_scheme \<Rightarrow> ('b, 'd) svc \<Rightarrow> ('b, 'd) svc \<times> err option" where
  "os_call H s = (s\<lparr>tick := Suc (tick s)\<rparr>, os_fault H (tick s))"

definition join_path :: "string \<Rightarrow> string \<Rightarrow> string" where
  "join_path d n = d @ ''/'' @ n"

definition CachePath :: "svc_config \<Rightarrow> string \<Rightarrow> string" where
  "CachePath G root = join_path (join_path (DataDir G) ''objects'') root"

text \<open>\<open>os.Remove\<close> of an entry of the spool directory, its error ignored.\<close>

definition remove_tmp ::
  "('b, 'v, 'd, 'z) svc_host_scheme \<Rightarrow> ('b, 'd) svc \<Rightarrow> string \<Rightarrow> ('b, 'd) svc" where
  "remove_tmp H s n =
     (case os_call H s of
        (s1, Some e) \<Rightarrow> s1
      | (s1, None) \<Rightarrow> s1\<lparr>tmps := dir_del (tmps s1) n\<rparr>)"

text \<open>
  \<open>os.Rename\<close> of a spool entry into the cache directory; it replaces a regular file and fails
  on a subdirectory or a missing source.
\<close>

definition rename_into_cache ::
  "('b, 'v, 'd, 'z) svc_host_scheme \<Rightarrow> ('b, 'd) svc \<Rightarrow> string \<Rightarrow> string
     \<Rightarrow> ('b, 'd) svc \<times> err option" where
  "rename_into_cache H s n dst =
     (case os_call H s of
        (s1, Some e) \<Rightarrow> (s1, Some e)
      | (s1, None) \<Rightarrow>
          (case (map_of (tmps s1) n, map_of (objs s1) dst) of
             (None, _) \<Rightarrow> (s1, Some ErrNotExist)
           | (Some _, Some (SubDir k)) \<Rightarrow> (s1, Some (ErrOS ''file exists''))
           | (Some x, _) \<Rightarrow>
               (s1\<lparr>tmps := dir_del (tmps s1) n, objs := dir_put (objs s1) dst x\<rparr>, None)))"

text \<open>\<open>fileExists\<close>: a \<open>Stat\<close> that fails for any reason counts as absence.\<close>

definition fileExists ::
  "('b, 'v, 'd, 'z) svc_host_scheme \<Rightarrow> ('b, 'd) svc \<Rightarrow> string \<Rightarrow> ('b, 'd) svc \<times> bool" where
  "fileExists H s root =
     (case os_call H s of (s1, f) \<Rightarrow> (s1, f = None \<and> map_of (objs s1) root \<noteq> None))"

section \<open>Directory scans\<close>

fun clear_loop ::
  "('b, 'v, 'd, 'z) svc_host_scheme \<Rightarrow> ('b, 'd) svc \<Rightarrow> dir \<Rightarrow> ('b, 'd) svc" where
  "clear_loop H s [] = s"
| "clear_loop H s ((n, SubDir k) # es) = clear_loop H s es"
| "clear_loop H s ((n, RegFile b) # es) = clear_loop H (remove_tmp H s n) es"

text \<open>\<open>clearDir\<close>, called on the spool directory.\<close>

definition clearDir :: "('b, 'v, 'd, 'z) svc_host_scheme \<Rightarrow> ('b, 'd) svc \<Rightarrow> ('b, 'd) svc" where
  "clearDir H s =
     (case os_call H s of
        (s1, Some e) \<Rightarrow> s1
      | (s1, None) \<Rightarrow> clear_loop H s1 (tmps s1))"

fun size_loop ::
  "('b, 'v, 'd, 'z) svc_host_scheme \<Rightarrow> ('b, 'd) svc \<Rightarrow> dir \<Rightarrow> int \<Rightarrow> ('b, 'd) svc \<times> int" where
  "size_loop H s [] acc = (s, acc)"
| "size_loop H s ((n, SubDir k) # es) acc = size_loop H s es acc"
| "size_loop H s ((n, RegFile b) # es) acc =
     (case os_call H s of
        (s1, Some e) \<Rightarrow> size_loop H s1 es acc
      | (s1, None) \<Rightarrow> size_loop H s1 es (int64 (acc + int (length b))))"

text \<open>\<open>dirSize\<close>, called on the cache directory.\<close>

definition dirSize ::
  "('b, 'v, 'd, 'z) svc_host_scheme \<Rightarrow> ('b, 'd) svc \<Rightarrow> ('b, 'd) svc \<times> int result" where
  "dirSize H s =
     (case os_call H s of
        (s1, Some e) \<Rightarrow> (s1, Inl e)
      | (s1, None) \<Rightarrow> (case size_loop H s1 (objs s1) 0 of (s2, n) \<Rightarrow> (s2, Inr n)))"

section \<open>Eviction\<close>

fun evict_loop ::
  "('b, 'v, 'd, 'z) svc_host_scheme \<Rightarrow> int \<Rightarrow> ('b, 'd) svc \<Rightarrow> cache_entry list \<Rightarrow> ('b, 'd) svc" where
  "evict_loop H low s [] = s"
| "evict_loop H low s (c # cands) =
     (if cacheBytes s \<le> low then s
      else
        (case os_call H s of
           (s1, Some e) \<Rightarrow> evict_loop H low s1 cands
         | (s1, None) \<Rightarrow>
             (case map_of (objs s1) (CERoot c) of
                None \<Rightarrow> evict_loop H low s1 cands
              | Some x \<Rightarrow>
                  (case os_call H s1 of
                     (s2, Some e) \<Rightarrow> evict_loop H low s2 cands
                   | (s2, None) \<Rightarrow>
                       (case x of
                          SubDir k \<Rightarrow> evict_loop H low s2 cands
                        | RegFile b \<Rightarrow>
                            evict_loop H low
                              (s2\<lparr>objs := dir_del (objs s2) (CERoot c),
                                  cacheBytes := int64 (cacheBytes s2 - int (length b))\<rparr>)
                              cands)))))"

definition evictIfNeeded ::
  "('b, 'v, 'd, 'z) svc_host_scheme \<Rightarrow> svc_config \<Rightarrow> ('b, 'd) svc \<Rightarrow> ('b, 'd) svc" where
  "evictIfNeeded H G s =
     (let limit = CacheMaxBytes G in
      if limit \<le> 0 \<or> cacheBytes s \<le> limit then s
      else if evicting s then s
      else
        (let s1 = s\<lparr>evicting := True\<rparr>;
             low = limit - limit div 10
         in case FinalizedCacheEntries H (sv_store s1) of
              Inl e \<Rightarrow> s1\<lparr>evicting := False\<rparr>
            | Inr cands \<Rightarrow> (evict_loop H low s1 (sort_lru H cands))\<lparr>evicting := False\<rparr>))"

definition noteAdded ::
  "('b, 'v, 'd, 'z) svc_host_scheme \<Rightarrow> svc_config \<Rightarrow> ('b, 'd) svc \<Rightarrow> int \<Rightarrow> ('b, 'd) svc" where
  "noteAdded H G s n =
     (if CacheMaxBytes G \<le> 0 then s
      else evictIfNeeded H G (s\<lparr>cacheBytes := int64 (cacheBytes s + n)\<rparr>))"

definition ShouldRejectWrite ::
  "('b, 'v, 'd, 'z) svc_host_scheme \<Rightarrow> svc_config \<Rightarrow> ('b, 'd) svc \<Rightarrow> ('b, 'd) svc \<times> bool" where
  "ShouldRejectWrite H G s =
     (if CacheMaxBytes G \<le> 0 then (s, False)
      else let s1 = evictIfNeeded H G s in (s1, CacheMaxBytes G < cacheBytes s1))"

text \<open>One minute in nanoseconds.\<close>

definition touchInterval :: int where
  "touchInterval = 60 * 1000000000"

text \<open>The store's \<open>Touch\<close> with the current time; its error is logged or dropped.\<close>

definition touch_now ::
  "('b, 'v, 'd, 'z) svc_host_scheme \<Rightarrow> ('b, 'd) svc \<Rightarrow> string \<Rightarrow> ('b, 'd) svc" where
  "touch_now H s root =
     s\<lparr>sv_store := fst (Touch H (sv_store s) root (wall H (tick s))), tick := Suc (tick s)\<rparr>"

definition touch_svc ::
  "('b, 'v, 'd, 'z) svc_host_scheme \<Rightarrow> svc_config \<Rightarrow> ('b, 'd) svc \<Rightarrow> string \<Rightarrow> int \<Rightarrow> ('b, 'd) svc" where
  "touch_svc H G s root at =
     (if CacheMaxBytes G \<le> 0 then s
      else
        (let s1 = s\<lparr>tick := Suc (tick s)\<rparr>
         in if wall H (tick s) - at < touchInterval then s1 else touch_now H s1 root))"

section \<open>Construction\<close>

text \<open>
  \<open>New\<close> on the directories and the store as they are on disk; \<open>cacheBytes\<close> and
  \<open>evicting\<close> start at their zero values.
\<close>

definition New_service ::
  "('b, 'v, 'd, 'z) svc_host_scheme \<Rightarrow> svc_config \<Rightarrow> ('b, 'd) svc \<Rightarrow> ('b, 'd) svc \<times> unit result" where
  "New_service H G disk =
     (case os_call H (disk\<lparr>cacheBytes := 0, evicting := False\<rparr>) of
        (s1, Some e) \<Rightarrow> (s1, Inl e)
      | (s1, None) \<Rightarrow>
          (case os_call H s1 of
             (s2, Some e) \<Rightarrow> (s2, Inl e)
           | (s2, None) \<Rightarrow>
               (let s3 = clearDir H s2 in
                if 0 < CacheMaxBytes G
                then (case dirSize H s3 of
                        (s4, Inl e) \<Rightarrow> (s4, Inl (Wrapped ''size cache dir'' e))
                      | (s4, Inr n) \<Rightarrow> (evictIfNeeded H G (s4\<lparr>cacheBytes := n\<rparr>), Inr ()))
                else (s3, Inr ()))))"

section \<open>Put\<close>

text \<open>
  The request body: the bytes it delivers and then its error, \<open>None\<close> for \<open>io.EOF\<close>.
\<close>

record reader =
  rd_data :: string
  rd_err :: "err option"

text \<open>\<open>io.LimitReader\<close>: at most \<open>n\<close> bytes, then the end of the stream.\<close>

definition limit_reader :: "reader \<Rightarrow> int \<Rightarrow> reader" where
  "limit_reader r n =
     (if int (length (rd_data r)) < n then r
      else \<lparr>rd_data = take (nat n) (rd_data r), rd_err = None\<rparr>)"

text \<open>
  \<open>io.Copy\<close> into the spool file and the two digests: the bytes written to the file, and the
  number of bytes copied or the error.
\<close>

definition io_copy ::
  "('b, 'v, 'd, 'z) svc_host_scheme \<Rightarrow> ('b, 'd) svc \<Rightarrow> string \<Rightarrow> reader
     \<Rightarrow> ('b, 'd) svc \<times> string result" where
  "io_copy H s tmp r =
     (case os_call H s of
        (s1, Some e) \<Rightarrow>
          (s1\<lparr>tmps := dir_put (tmps s1) tmp (RegFile (take (os_partial H (tick s)) (rd_data r)))\<rparr>, Inl e)
      | (s1, None) \<Rightarrow>
          (let s2 = s1\<lparr>tmps := dir_put (tmps s1) tmp (RegFile (rd_data r))\<rparr> in
           (case rd_err r of Some e \<Rightarrow> (s2, Inl e) | None \<Rightarrow> (s2, Inr (rd_data r)))))"

text \<open>\<open>materialize\<close>: fsync, close and rename; the spool is removed on any failure.\<close>

definition materialize ::
  "('b, 'v, 'd, 'z) svc_host_scheme \<Rightarrow> ('b, 'd) svc \<Rightarrow> string \<Rightarrow> string \<Rightarrow> ('b, 'd) svc \<times> err option" where
  "materialize H s tmp dst =
     (case os_call H s of
        (s1, Some e) \<Rightarrow> (remove_tmp H s1 tmp, Some e)
      | (s1, None) \<Rightarrow>
          (case os_call H s1 of
             (s2, Some e) \<Rightarrow> (remove_tmp H s2 tmp, Some e)
           | (s2, None) \<Rightarrow>
               (case rename_into_cache H s2 tmp dst of
                  (s3, Some e) \<Rightarrow> (remove_tmp H s3 tmp, Some e)
                | (s3, None) \<Rightarrow> (s3, None))))"

text \<open>\<open>m, _, err = s.st.Get(root)\<close>: an absent object is the zero record.\<close>

definition get_record ::
  "('b, 'v, 'd, 'z) svc_host_scheme \<Rightarrow> ('b, 'd) svc \<Rightarrow> string \<Rightarrow> object_meta result" where
  "get_record H s root =
     (case Get H (sv_store s) root of
        Inl e \<Rightarrow> Inl e
      | Inr None \<Rightarrow> Inr zero_meta
      | Inr (Some m) \<Rightarrow> Inr m)"

definition with_store :: "('b, 'd) svc \<Rightarrow> 'b store \<times> 'a \<Rightarrow> ('b, 'd) svc \<times> 'a" where
  "with_store s x = (case x of (t, a) \<Rightarrow> (s\<lparr>sv_store := t\<rparr>, a))"

text \<open>
  The dedup branch of \<open>Put\<close>: the content is known as \<open>m\<close>, the upload is in the spool entry
  \<open>tmp\<close>.
\<close>

definition Put_known ::
  "('b, 'v, 'd, 'z) svc_host_scheme \<Rightarrow> svc_config \<Rightarrow> ('b, 'd) svc \<Rightarrow> string \<Rightarrow> object_meta
     \<Rightarrow> ('b, 'd) svc \<times> (object_meta \<times> bool) result" where
  "Put_known H G s tmp m =
     (case (if Status m \<noteq> StatusFinalized
            then (case fileExists H s (Root m) of (s1, there) \<Rightarrow> (s1, \<not> there))
            else (s, False)) of
        (s1, needsCache) \<Rightarrow>
          if needsCache
          then
            (case materialize H s1 tmp (Root m) of
               (s2, Some e) \<Rightarrow> (s2, Inl e)
             | (s2, None) \<Rightarrow>
                 (let s3 = noteAdded H G s2 (Size m) in
                  (case with_store s3 (Reenqueue H (sv_store s3) (Root m)) of
                     (s4, Inl e) \<Rightarrow> (s4, Inl e)
                   | (s4, Inr _) \<Rightarrow> (s4, map_sum id (\<lambda>m'. (m', True)) (get_record H s4 (Root m))))))
          else if Status m = StatusFailed
          then
            (let s2 = remove_tmp H s1 tmp in
             (case with_store s2 (Reenqueue H (sv_store s2) (Root m)) of
                (s3, Inl e) \<Rightarrow> (s3, Inl e)
              | (s3, Inr _) \<Rightarrow>
                  (s3, Inr (case get_record H s3 (Root m) of Inl e \<Rightarrow> zero_meta | Inr m' \<Rightarrow> m', True))))
          else (remove_tmp H s1 tmp, Inr (m, True)))"

text \<open>The branch of \<open>Put\<close> for content whose hash is not known yet.\<close>

definition Put_fresh ::
  "('b, 'v, 'd, 'z) svc_host_scheme \<Rightarrow> svc_config \<Rightarrow> ('b, 'd) svc \<Rightarrow> string \<Rightarrow> string \<Rightarrow> string \<Rightarrow> string
     \<Rightarrow> ('b, 'd) svc \<times> (object_meta \<times> bool) result" where
  "Put_fresh H G s tmp data filename contentType =
     (case os_call H s of
        (s1, Some e) \<Rightarrow> (remove_tmp H s1 tmp, Inl e)
      | (s1, None) \<Rightarrow>
          (case os_call H s1 of
             (s2, Some e) \<Rightarrow> (remove_tmp H s2 tmp, Inl e)
           | (s2, None) \<Rightarrow>
               (case merkle_root H data of
                  Inl e \<Rightarrow> (remove_tmp H s2 tmp, Inl (Wrapped ''merkle root'' e))
                | Inr root \<Rightarrow>
                    (case rename_into_cache H s2 tmp root of
                       (s3, Some e) \<Rightarrow> (remove_tmp H s3 tmp, Inl e)
                     | (s3, None) \<Rightarrow>
                         (let n = int (length data);
                              s4 = noteAdded H G s3 n;
                              m = zero_meta\<lparr>Root := root, SHA256 := sha256_hex H data,
                                    MD5 := md5_hex H data, Size := n, Filename := filename,
                                    ContentType := contentType, Status := StatusPending\<rparr>
                          in (case with_store s4 (CreateObject H (sv_store s4) m) of
                                (s5, Inl e) \<Rightarrow>
                                  if errors_is e ErrExists
                                  then (s5, map_sum id (\<lambda>m'. (m', True)) (get_record H s5 root))
                                  else (s5, Inl e)
                              | (s5, Inr _) \<Rightarrow>
                                  (s5, map_sum id (\<lambda>m'. (m', False)) (get_record H s5 root))))))))"

definition Put ::
  "('b, 'v, 'd, 'z) svc_host_scheme \<Rightarrow> svc_config \<Rightarrow> ('b, 'd) svc \<Rightarrow> reader \<Rightarrow> string \<Rightarrow> string
     \<Rightarrow> ('b, 'd) svc \<times> (object_meta \<times> bool) result" where
  "Put H G s r filename contentType =
     (case os_call H s of
        (s1, Some e) \<Rightarrow> (s1, Inl e)
      | (s1, None) \<Rightarrow>
          (let tmp = temp_name H (map fst (tmps s1)) (tick s);
               s2 = s1\<lparr>tmps := dir_put (tmps s1) tmp (RegFile [])\<rparr>;
               src = (if 0 < MaxSize G then limit_reader r (int64 (MaxSize G + 1)) else r)
           in (case io_copy H s2 tmp src of
                 (s3, Inl e) \<Rightarrow> (remove_tmp H s3 tmp, Inl e)
               | (s3, Inr data) \<Rightarrow>
                   let n = int (length data) in
                   if n = 0 then (remove_tmp H s3 tmp, Inl ErrEmpty)
                   else if 0 < MaxSize G \<and> MaxSize G < n then (remove_tmp H s3 tmp, Inl ErrTooLarge)
                   else
                     (case BySHA256 H (sv_store s3) (sha256_hex H data) of
                        Inl e \<Rightarrow> (remove_tmp H s3 tmp, Inl e)
                      | Inr (Some m) \<Rightarrow> Put_known H G s3 tmp m
                      | Inr None \<Rightarrow> Put_fresh H G s3 tmp data filename contentType))))"

section \<open>Open\<close>

text \<open>
  The local part of \<open>Open\<close>: the file when it can be opened and has the recorded size, nothing
  when the object has to be restored, or the error of \<open>os.Open\<close>.
\<close>

definition open_cached ::
  "('b, 'v, 'd, 'z) svc_host_scheme \<Rightarrow> ('b, 'd) svc \<Rightarrow> string \<Rightarrow> object_meta
     \<Rightarrow> ('b, 'd) svc \<times> fnode option result" where
  "open_cached H s root m =
     (case os_call H s of
        (s1, Some e) \<Rightarrow> (s1, if e = ErrNotExist then Inr None else Inl e)
      | (s1, None) \<Rightarrow>
          (case map_of (objs s1) root of
             None \<Rightarrow> (s1, Inr None)
           | Some x \<Rightarrow>
               (case os_call H s1 of (s2, f) \<Rightarrow>
                  (s2, if f = None \<and> node_size x = Size m then Inr (Some x) else Inr None))))"

text \<open>
  The cold read. \<open>root[:16]\<close> panics on a root of fewer than 16 characters after \<open>0x\<close>. The
  downloader may leave a file behind even when it fails.
\<close>

definition restore ::
  "('b, 'v, 'd, 'z) svc_host_scheme \<Rightarrow> svc_config \<Rightarrow> ('b, 'd) svc \<Rightarrow> string \<Rightarrow> object_meta
     \<Rightarrow> ('b, 'd) svc \<times> (fnode \<times> object_meta) result" where
  "restore H G s root m =
     (let short = trim_prefix root ''0x'' in
      if length short < 16 then (s, Inl ErrPanic)
      else
        (let tmp = ''dl-'' @ take 16 short @ ''-'' @ itoa (rand63 H (tick s)) in
         (case download H (sv_dl s) root of (d', left_file, derr) \<Rightarrow>
            (let s1 = s\<lparr>sv_dl := d', tick := Suc (tick s)\<rparr>;
                 s2 = (case left_file of
                         None \<Rightarrow> s1
                       | Some b \<Rightarrow> s1\<lparr>tmps := dir_put (tmps s1) tmp (RegFile b)\<rparr>)
             in (case derr of
                   Some e \<Rightarrow> (remove_tmp H s2 tmp, Inl (Wrapped ''restore from 0g'' e))
                 | None \<Rightarrow>
                     (case rename_into_cache H s2 tmp root of
                        (s3, Some e) \<Rightarrow> (remove_tmp H s3 tmp, Inl e)
                      | (s3, None) \<Rightarrow>
                          (case os_call H s3 of
                             (s4, Some e) \<Rightarrow> (s4, Inl e)
                           | (s4, None) \<Rightarrow>
                               (case map_of (objs s4) root of
                                  None \<Rightarrow> (s4, Inl ErrNotExist)
                                | Some x \<Rightarrow>
                                    (let s5 = (if 0 < CacheMaxBytes G then touch_now H s4 root else s4)
                                     in (noteAdded H G s5 (Size m), Inr (x, m)))))))))))"

definition Open ::
  "('b, 'v, 'd, 'z) svc_host_scheme \<Rightarrow> svc_config \<Rightarrow> ('b, 'd) svc \<Rightarrow> string
     \<Rightarrow> ('b, 'd) svc \<times> (fnode \<times> object_meta) result" where
  "Open H G s root =
     (case Get H (sv_store s) root of
        Inl e \<Rightarrow> (s, Inl e)
      | Inr None \<Rightarrow> (s, Inl ErrNotFound)
      | Inr (Some m) \<Rightarrow>
          (case open_cached H s root m of
             (s1, Inl e) \<Rightarrow> (s1, Inl e)
           | (s1, Inr (Some x)) \<Rightarrow> (touch_svc H G s1 root (LastAccess m), Inr (x, m))
           | (s1, Inr None) \<Rightarrow> restore H G s1 root m))"

end
