(* ===== verification/Object_Facts.thy ===== *)
theory Object_Facts
  imports Object Uploader_Run
begin

text \<open>
  Facts about the object service: what the store operations keep of an object's content
  record, what eviction and the file helpers do to the directories, and the invariant of the
  service with its preservation by \<open>Put\<close> and \<open>Open\<close> under any combination of failing
  system calls.
\<close>

section \<open>The content record of an object\<close>

definition content_of :: "('b, 'v, 'z) host_scheme \<Rightarrow> 'b store \<Rightarrow> string \<Rightarrow> (string \<times> int) option" where
  "content_of H s r = map_option (\<lambda>m. (SHA256 m, Size m)) (meta_at H s r)"

definition finalized :: "('b, 'v, 'z) host_scheme \<Rightarrow> 'b store \<Rightarrow> string \<Rightarrow> bool" where
  "finalized H s r \<longleftrightarrow> (\<exists>m. meta_at H s r = Some m \<and> Status m = StatusFinalized)"

lemma content_of_iff: "content_of H s r = Some (x, n) \<longleftrightarrow> (\<exists>m. meta_at H s r = Some m \<and> SHA256 m = x \<and> Size m = n)"
  by (auto simp: content_of_def)

lemma content_of_cong: "objects s = objects t \<Longrightarrow> content_of H s = content_of H t"
  using meta_at_cong [of s t H] by (simp add: content_of_def fun_eq_iff)

context store_host
begin

lemma mutate_content:
  assumes "store_inv H s" and "mutate H s r fn = (t, x)" and "\<And>m. Root (fn m) = Root m"
    and "\<And>m. SHA256 (fn m) = SHA256 m" and "\<And>m. Size (fn m) = Size m"
  shows "content_of H t = content_of H s"
  using assms(2)
proof (cases rule: mutate_cases)
  case (failed e)
  then show ?thesis by (intro content_of_cong) (simp add: same_data_def)
next
  case (ok m m')
  have "meta_inv H s" using assms(1) by (simp add: store_inv_def)
  then have m: "Root m = r" "ascii (SHA256 m)" using ok(2) meta_inv_at [of H s r m] by auto
  then have "Root m' = r" "SHA256 m' = SHA256 m" "Size m' = Size m" using ok(3) assms(3-5) by simp_all
  then show ?thesis
    using meta_at_wrote [OF ok(4)] ok(2) m(2) by (auto simp: content_of_def fun_eq_iff)
qed

lemma CreateObject_content:
  assumes "CreateObject H s m = (t, r)" and "ascii (SHA256 m)"
  shows "content_of H t = content_of H s
    \<or> r = Inr () \<and> meta_at H s (Root m) = None
      \<and> content_of H t = (content_of H s)(Root m \<mapsto> (SHA256 m, Size m))
      \<and> (\<exists>m'. meta_at H t (Root m) = Some m' \<and> Status m' = Status m)
      \<and> (\<forall>q. q \<noteq> Root m \<longrightarrow> meta_at H t q = meta_at H s q)"
  using assms(1)
proof (cases rule: CreateObject_cases)
  case (failed e)
  then have "content_of H t = content_of H s" by (intro content_of_cong) (simp add: same_data_def)
  then show ?thesis ..
next
  case (ok m')
  then have "Root m' = Root m" "SHA256 m' = SHA256 m" "Size m' = Size m" "Status m' = Status m" by simp_all
  then show ?thesis
    using meta_at_wrote [OF ok(4)] ok(1,2) assms(2)
    by (auto simp: content_of_def fun_eq_iff meta_at_def)
qed

lemma Touch_frame:
  assumes "store_inv H s" and "Touch H s root at = (t, r)"
  shows "content_of H t = content_of H s" and "finalized H t = finalized H s"
    and "sha_index t = sha_index s" and "closed t = closed s"
    and "meta_at H t q = map_option (\<lambda>m. if q = root \<and> r = Inr () then json_meta (m\<lparr>LastAccess := at\<rparr>) else m)
           (meta_at H s q)"
proof -
  have "content_of H t = content_of H s \<and> finalized H t = finalized H s
     \<and> sha_index t = sha_index s \<and> closed t = closed s \<and> meta_at H t q
      = map_option (\<lambda>m. if q = root \<and> r = Inr () then json_meta (m\<lparr>LastAccess := at\<rparr>) else m) (meta_at H s q)"
    using assms(2)
  proof (cases rule: Touch_cases)
    case (failed e)
    then have "meta_at H t = meta_at H s" by (intro meta_at_cong) (simp add: same_data_def)
    then show ?thesis using failed
      by (auto simp: content_of_def finalized_def fun_eq_iff same_data_def option.map_ident)
  next
    case absent
    then have "meta_at H t = meta_at H s" by (intro meta_at_cong) (simp add: same_data_def)
    then show ?thesis using absent
      by (cases "meta_at H s q")
        (auto simp: content_of_def finalized_def fun_eq_iff same_data_def)
  next
    case (ok m raw)
    have "meta_inv H s" using assms(1) by (simp add: store_inv_def)
    then have m: "Root m = root" "ascii (SHA256 m)" using ok(2) meta_inv_at [of H s root m] by auto
    have at: "meta_at H t q = (if q = root then Some (json_meta (m\<lparr>LastAccess := at\<rparr>)) else meta_at H s q)" for q
      using ok(3,4) m(1) by (simp add: meta_at_def)
    have "sha_index t = sha_index s" "closed t = closed s" by (subst ok(6), simp)+
    then show ?thesis
      using ok(1,2) m(2) at
      by (cases "meta_at H s q") (auto simp: content_of_def finalized_def fun_eq_iff)
  qed
  then show "content_of H t = content_of H s" "finalized H t = finalized H s"
    "sha_index t = sha_index s" "closed t = closed s"
    "meta_at H t q = map_option (\<lambda>m. if q = root \<and> r = Inr () then json_meta (m\<lparr>LastAccess := at\<rparr>) else m)
           (meta_at H s q)"
    by blast+
qed

lemma store_exec_content:
  assumes "store_inv H s" and "store_exec H s p = Some (t, x)" and "\<And>m. p \<noteq> OpCreate m"
  shows "content_of H t = content_of H s"
proof -
  have same: "content_of H t = content_of H s" if "objects t = objects s"
    using content_of_cong [OF that] .
  show ?thesis
  proof (cases p)
    case (OpSetStatus r st tx why)
    with assms(2) obtain y where "mutate H s r (set_status_fn st tx why) = (t, y)"
      by (auto simp: SetStatus_def void_eq)
    then show ?thesis by (rule mutate_content [OF assms(1)]) simp_all
  next
    case (OpReenqueue r)
    with assms(2) obtain y where "mutate H s r reenqueue_fn = (t, y)" by (auto simp: Reenqueue_def void_eq)
    then show ?thesis by (rule mutate_content [OF assms(1)]) simp_all
  next
    case (OpIncRetries r)
    with assms(2) obtain y where "mutate H s r inc_retries_fn = (t, y)"
      by (auto simp: IncRetries_def void_def split: prod.splits)
    then show ?thesis by (rule mutate_content [OF assms(1)]) simp_all
  next
    case (OpSetSkipTx r v)
    with assms(2) obtain y where "mutate H s r (set_skip_fn v) = (t, y)"
      by (auto simp: SetSkipTx_def void_eq)
    then show ?thesis by (rule mutate_content [OF assms(1)]) simp_all
  next
    case (OpTouch r at)
    with assms(2) have "Touch H s r at = (t, x)" by simp
    then show ?thesis using Touch_frame(1) assms(1) by blast
  next
    case (OpCreateBucket n now)
    with assms(2) have "S3CreateBucket H s n now = (t, x)" by simp
    then show ?thesis
      by (cases rule: S3CreateBucket_cases) (use same in \<open>auto simp: same_data_def same_objects_def\<close>)
  next
    case (OpDeleteBucket n)
    with assms(2) have "S3DeleteBucket H s n = (t, x)" by simp
    then show ?thesis
      by (cases rule: S3DeleteBucket_cases) (use same in \<open>auto simp: same_data_def same_objects_def\<close>)
  next
    case (OpForceDelete n)
    with assms(2) have "S3ForceDeleteBucket H s n = Some (t, x)" by simp
    then show ?thesis
      by (cases rule: S3ForceDeleteBucket_cases) (use same in \<open>auto simp: same_data_def same_objects_def\<close>)
  next
    case (OpPutKey b k r)
    with assms(2) have "S3PutObjectKey H s b k r = (t, x)" by simp
    then show ?thesis
      by (cases rule: S3PutObjectKey_cases) (use same in \<open>auto simp: same_data_def same_objects_def\<close>)
  next
    case (OpDeleteKey b k)
    with assms(2) have "S3DeleteObjectKey H s b k = (t, x)" by simp
    then show ?thesis
      by (cases rule: S3DeleteObjectKey_cases) (use same in \<open>auto simp: same_data_def same_objects_def\<close>)
  qed (use assms same in \<open>auto simp: Close_store_def\<close>)
qed

end

section \<open>Directories\<close>

lemma map_of_dir_put [simp]: "map_of (dir_put d n x) = (map_of d)(n \<mapsto> x)"
  by (simp add: dir_put_def map_of_filter_neq)

lemma map_of_dir_del [simp]: "map_of (dir_del d n) = (map_of d)(n := None)"
  by (simp add: dir_del_def map_of_filter_neq)

text \<open>
  \<open>shrunk F s t\<close>: from \<open>s\<close> to \<open>t\<close> the cache only lost entries of \<open>F\<close>; the store, the
  downloader and the spool are as before.
\<close>

definition shrunk :: "string set \<Rightarrow> ('b, 'd) svc \<Rightarrow> ('b, 'd) svc \<Rightarrow> bool" where
  "shrunk F s t \<longleftrightarrow>
     sv_store t = sv_store s \<and> sv_dl t = sv_dl s \<and> tmps t = tmps s
     \<and> (\<forall>r. map_of (objs t) r = map_of (objs s) r \<or> r \<in> F \<and> map_of (objs t) r = None)"

lemma shrunk_refl [simp, intro]: "shrunk F s s"
  by (simp add: shrunk_def)

lemma shrunk_trans: "shrunk F s t \<Longrightarrow> shrunk F t u \<Longrightarrow> shrunk F s u"
  unfolding shrunk_def by metis

lemma shrunk_mono: "shrunk F s t \<Longrightarrow> F \<subseteq> F' \<Longrightarrow> shrunk F' s t"
  by (auto simp: shrunk_def)

lemma shrunk_fields [simp]:
  "shrunk F s (t\<lparr>evicting := b\<rparr>) = shrunk F s t"
  "shrunk F (s\<lparr>evicting := b\<rparr>) t = shrunk F s t"
  "shrunk F s (t\<lparr>cacheBytes := n\<rparr>) = shrunk F s t"
  "shrunk F (s\<lparr>cacheBytes := n\<rparr>) t = shrunk F s t"
  "shrunk F s (t\<lparr>tick := k\<rparr>) = shrunk F s t"
  "shrunk F (s\<lparr>tick := k\<rparr>) t = shrunk F s t"
  by (simp_all add: shrunk_def)

lemma os_call_eq: "os_call H s = (s1, f) \<longleftrightarrow> s1 = s\<lparr>tick := Suc (tick s)\<rparr> \<and> f = os_fault H (tick s)"
  by (auto simp: os_call_def)

text \<open>One candidate: the loop stops, or goes on with at most the candidate's file removed.\<close>

lemma evict_loop_step:
  "evict_loop H low s (c # cands) = s
   \<or> (\<exists>u. evict_loop H low s (c # cands) = evict_loop H low u cands \<and> shrunk {CERoot c} s u)"
proof -
  let ?s1 = "s\<lparr>tick := Suc (tick s)\<rparr>" and ?s2 = "s\<lparr>tick := Suc (Suc (tick s))\<rparr>"
  have s12: "shrunk {CERoot c} s ?s1" "shrunk {CERoot c} s ?s2" by simp_all
  note red = os_call_def
  consider (stop) "cacheBytes s \<le> low"
    | (stat) "\<not> cacheBytes s \<le> low" "os_fault H (tick s) \<noteq> None \<or> map_of (objs s) (CERoot c) = None"
    | (remove) x where "\<not> cacheBytes s \<le> low" "os_fault H (tick s) = None"
        "map_of (objs s) (CERoot c) = Some x" "os_fault H (Suc (tick s)) \<noteq> None \<or> (\<exists>k. x = SubDir k)"
    | (removed) b where "\<not> cacheBytes s \<le> low" "os_fault H (tick s) = None"
        "map_of (objs s) (CERoot c) = Some (RegFile b)" "os_fault H (Suc (tick s)) = None"
    by (metis fnode.exhaust option.exhaust)
  then show ?thesis
  proof cases
    case stat
    then have "evict_loop H low s (c # cands) = evict_loop H low ?s1 cands"
      by (auto simp: red split: option.splits)
    with s12 show ?thesis by blast
  next
    case remove
    then have "evict_loop H low s (c # cands) = evict_loop H low ?s2 cands"
      by (auto simp: red split: option.splits fnode.splits)
    with s12 show ?thesis by blast
  next
    case (removed b)
    let ?u = "s\<lparr>tick := Suc (Suc (tick s)), objs := dir_del (objs s) (CERoot c),
      cacheBytes := int64 (cacheBytes s - int (length b))\<rparr>"
    have "shrunk {CERoot c} s ?u" by (simp add: shrunk_def)
    moreover have "evict_loop H low s (c # cands) = evict_loop H low ?u cands"
      using removed by (simp add: red)
    ultimately show ?thesis by blast
  qed simp
qed

lemma evict_loop_shrunk: "shrunk (CERoot ` set cands) s (evict_loop H low s cands)"
proof (induction cands arbitrary: s)
  case (Cons c cands)
  from evict_loop_step [of H low s c cands] show ?case
  proof
    assume "\<exists>u. evict_loop H low s (c # cands) = evict_loop H low u cands \<and> shrunk {CERoot c} s u"
    then obtain u where u: "evict_loop H low s (c # cands) = evict_loop H low u cands"
      "shrunk {CERoot c} s u" by blast
    have "shrunk (CERoot ` set (c # cands)) s (evict_loop H low u cands)"
      by (rule shrunk_trans [OF shrunk_mono [OF u(2)] shrunk_mono [OF Cons.IH]]) auto
    then show ?thesis unfolding u(1) .
  qed (metis shrunk_refl)
qed simp

section \<open>The contracts of the service's host\<close>

text \<open>
  \<open>svc_env\<close>: \<open>sort.Slice\<close> orders by last access and loses nothing, \<open>os.CreateTemp\<close> picks a
  new name with the asked prefix, digests and roots are hex, a download that reports success left a file that
  the SDK has verified against the root, and no library error wraps the store's \<open>ErrExists\<close>. \<open>collision_free\<close> is the idealisation that the
  gateway rests on: neither digest collides.
\<close>

locale svc_env = store_host H for H :: "('b, 'v, 'd, 'z) svc_host_scheme" +
  assumes sort_mset: "mset (sort_lru H es) = mset es"
    and sort_sorted: "sorted (map CELastAccess (sort_lru H es))"
    and temp_fresh: "temp_name H ns n \<notin> set ns"
    and temp_prefix: "prefix ''spool-'' (temp_name H ns n)"
    and sha_ascii: "ascii (sha256_hex H b)"
    and root_ascii: "merkle_root H b = Inr r \<Longrightarrow> ascii r"
    and download_verified: "download H d r = (d', f, None) \<Longrightarrow> \<exists>b. f = Some b \<and> merkle_root H b = Inr r"
    and foreign_errors: "commit_err H n = Some e \<Longrightarrow> \<not> errors_is e ErrExists"
      "bput H q k v = Inl e \<Longrightarrow> \<not> errors_is e ErrExists"
      "bdelete H q k = Inl e \<Longrightarrow> \<not> errors_is e ErrExists"
      "marshalMeta H m = Inl e \<Longrightarrow> \<not> errors_is e ErrExists"

locale collision_free = svc_env +
  assumes sha_inj: "sha256_hex H x = sha256_hex H y \<Longrightarrow> x = y"
    and root_inj: "merkle_root H x = Inr r \<Longrightarrow> merkle_root H y = Inr r \<Longrightarrow> x = y"

context svc_env
begin

text \<open>\<open>CreateObject\<close> reports \<open>ErrExists\<close> only for a root that is there.\<close>

lemma putMeta_foreign: "putMeta H s m = Inl e \<Longrightarrow> \<not> errors_is e ErrExists"
  using foreign_errors by (auto simp: putMeta_def split: sum.splits)

lemma requeue_foreign: "requeue H s m = Inl e \<Longrightarrow> \<not> errors_is e ErrExists"
  using foreign_errors by (auto simp: requeue_def Let_def split: sum.splits if_splits)

lemma CreateObject_exists:
  assumes "CreateObject H s m = (t, Inl e)" and "errors_is e ErrExists"
  shows "bget H (objects s) (Root m) \<noteq> None"
  using assms foreign_errors putMeta_foreign requeue_foreign
  by (auto simp: CreateObject_def db_update_def Let_def split: sum.splits if_splits option.splits)

lemma sort_set [simp]: "set (sort_lru H es) = set es"
  using sort_mset by (metis set_mset_mset)

text \<open>Eviction removes cache files of finalized objects only.\<close>

lemma evictIfNeeded_shrunk:
  assumes "store_inv H (sv_store s)"
  shows "shrunk {r. finalized H (sv_store s) r} s (evictIfNeeded H G s)"
proof (cases "FinalizedCacheEntries H (sv_store s)")
  case (Inl e)
  then show ?thesis by (auto simp: evictIfNeeded_def Let_def)
next
  case (Inr es)
  have "\<not> closed (sv_store s)" using Inr by (auto simp: FinalizedCacheEntries_def db_view_def split: if_splits)
  then have "CERoot ` set es \<subseteq> {r. finalized H (sv_store s) r}"
    using cache_entries_read [OF assms] Inr by (auto simp: finalized_def)
  then have "shrunk {r. finalized H (sv_store s) r} u (evict_loop H low u (sort_lru H es))" for low u
    using evict_loop_shrunk [of "sort_lru H es"] shrunk_mono by (metis sort_set)
  from this [of "s\<lparr>evicting := True\<rparr>" "CacheMaxBytes G - CacheMaxBytes G div 10"]
  show ?thesis using Inr by (simp add: evictIfNeeded_def Let_def)
qed

lemma noteAdded_shrunk:
  "store_inv H (sv_store s) \<Longrightarrow> shrunk {r. finalized H (sv_store s) r} s (noteAdded H G s n)"
  using evictIfNeeded_shrunk [of "s\<lparr>cacheBytes := k\<rparr>" for k] by (auto simp: noteAdded_def)

lemma ShouldRejectWrite_shrunk:
  "store_inv H (sv_store s) \<Longrightarrow>
   shrunk {r. finalized H (sv_store s) r} s (fst (ShouldRejectWrite H G s))"
  using evictIfNeeded_shrunk by (auto simp: ShouldRejectWrite_def Let_def)

end

end
