(* ===== verification/Object_Inv.thy ===== *)
theory Object_Inv
  imports Object_Facts
begin

text \<open>
  The invariant of the object service: every record describes bytes that exist, every cache
  file has the root it is named after, and every object that is not finalized has its cache
  file. \<open>Put\<close>, \<open>Open\<close>, \<open>ShouldRejectWrite\<close> and a restart keep it under any combination of
  failing system calls.
\<close>

definition svc_inv :: "('b, 'v, 'd, 'z) svc_host_scheme \<Rightarrow> ('b, 'd) svc \<Rightarrow> bool" where
  "svc_inv H s \<longleftrightarrow>
     store_inv H (sv_store s)
     \<and> (\<forall>r x n. content_of H (sv_store s) r = Some (x, n) \<longrightarrow>
          (\<exists>b. sha256_hex H b = x \<and> int (length b) = n \<and> merkle_root H b = Inr r))
     \<and> (\<forall>r y. map_of (objs s) r = Some y \<longrightarrow> (\<exists>b. y = RegFile b \<and> merkle_root H b = Inr r))
     \<and> (\<forall>r. meta_at H (sv_store s) r \<noteq> None \<and> \<not> finalized H (sv_store s) r \<longrightarrow> map_of (objs s) r \<noteq> None)"

lemma svc_invD:
  assumes "svc_inv H s"
  shows "store_inv H (sv_store s)"
    and "content_of H (sv_store s) r = Some (x, n) \<Longrightarrow>
      \<exists>b. sha256_hex H b = x \<and> int (length b) = n \<and> merkle_root H b = Inr r"
    and "map_of (objs s) r = Some y \<Longrightarrow> \<exists>b. y = RegFile b \<and> merkle_root H b = Inr r"
    and "meta_at H (sv_store s) r \<noteq> None \<Longrightarrow> \<not> finalized H (sv_store s) r \<Longrightarrow> map_of (objs s) r \<noteq> None"
  using assms unfolding svc_inv_def by blast+

lemma svc_invI:
  assumes "store_inv H (sv_store s)"
    and "\<And>r x n. content_of H (sv_store s) r = Some (x, n) \<Longrightarrow>
      \<exists>b. sha256_hex H b = x \<and> int (length b) = n \<and> merkle_root H b = Inr r"
    and "\<And>r y. map_of (objs s) r = Some y \<Longrightarrow> \<exists>b. y = RegFile b \<and> merkle_root H b = Inr r"
    and "\<And>r. meta_at H (sv_store s) r \<noteq> None \<Longrightarrow> \<not> finalized H (sv_store s) r \<Longrightarrow> map_of (objs s) r \<noteq> None"
  shows "svc_inv H s"
  using assms unfolding svc_inv_def by blast

section \<open>Changes outside the cache and the store\<close>

text \<open>\<open>spooled s t\<close>: only the spool, the downloader, the counters and the flags differ.\<close>

definition spooled :: "('b, 'd) svc \<Rightarrow> ('b, 'd) svc \<Rightarrow> bool" where
  "spooled s t \<longleftrightarrow> sv_store t = sv_store s \<and> objs t = objs s"

lemma spooled_refl [simp, intro]: "spooled s s"
  by (simp add: spooled_def)

lemma spooled_trans: "spooled s t \<Longrightarrow> spooled t u \<Longrightarrow> spooled s u"
  by (simp add: spooled_def)

lemma spooled_inv: "spooled s t \<Longrightarrow> svc_inv H s \<Longrightarrow> svc_inv H t"
  by (simp add: spooled_def svc_inv_def)

lemma spooled_fields [simp]:
  "spooled s (t\<lparr>tmps := d\<rparr>) = spooled s t"
  "spooled s (t\<lparr>tick := n\<rparr>) = spooled s t"
  "spooled s (t\<lparr>cacheBytes := k\<rparr>) = spooled s t"
  "spooled s (t\<lparr>evicting := b\<rparr>) = spooled s t"
  "spooled s (t\<lparr>sv_dl := d'\<rparr>) = spooled s t"
  "spooled (s\<lparr>tick := n\<rparr>) t = spooled s t"
  by (simp_all add: spooled_def)

lemma os_call_spooled [simp]: "spooled s (fst (os_call H s))"
  by (simp add: os_call_def)

lemma remove_tmp_spooled [simp]: "spooled s (remove_tmp H t n) = spooled s t"
  by (auto simp: remove_tmp_def os_call_def split: option.splits)

lemma io_copy_spooled: "io_copy H s tmp r = (t, x) \<Longrightarrow> spooled s t"
  by (auto simp: io_copy_def os_call_def Let_def split: option.splits)

lemma io_copy_data:
  "io_copy H s tmp r = (t, Inr data) \<Longrightarrow>
   data = rd_data r \<and> rd_err r = None \<and> map_of (tmps t) tmp = Some (RegFile data)"
  by (auto simp: io_copy_def os_call_def Let_def split: option.splits)

lemma fileExists_eq:
  "fileExists H s r = (t, there) \<Longrightarrow> spooled s t \<and> tmps t = tmps s
     \<and> (there \<longrightarrow> map_of (objs s) r \<noteq> None)"
  by (auto simp: fileExists_def os_call_def)

lemma clear_loop_spooled [simp]: "spooled s (clear_loop H t es) = spooled s t"
  by (induction H t es rule: clear_loop.induct) auto

lemma clearDir_spooled [simp]: "spooled s (clearDir H t) = spooled s t"
  by (auto simp: clearDir_def os_call_def split: option.splits)

lemma size_loop_spooled: "size_loop H s es n = (t, k) \<Longrightarrow> spooled s t"
  by (induction H s es n rule: size_loop.induct)
    (auto simp: os_call_def split: option.splits)

lemma dirSize_spooled: "dirSize H s = (t, x) \<Longrightarrow> spooled s t"
  by (auto simp: dirSize_def os_call_def split: option.splits prod.splits
      dest!: size_loop_spooled intro: spooled_trans [rotated])

section \<open>Files that enter the cache\<close>

lemma rename_cases:
  assumes "rename_into_cache H s n dst = (t, e)"
  obtains (failed) er where "e = Some er" "spooled s t" "tmps t = tmps s"
  | (moved) x where "e = None" "map_of (tmps s) n = Some x" "sv_store t = sv_store s"
      "map_of (objs t) = (map_of (objs s))(dst \<mapsto> x)"
proof (cases "os_fault H (tick s)")
  case (Some er)
  with assms have "e = Some er" "t = s\<lparr>tick := Suc (tick s)\<rparr>"
    by (simp_all add: rename_into_cache_def os_call_def)
  then show ?thesis by (intro failed [of er]) simp_all
next
  case None
  with assms failed moved show ?thesis
    by (auto simp: rename_into_cache_def os_call_def split: option.splits fnode.splits)
qed

lemma materialize_cases:
  assumes "materialize H s tmp dst = (t, e)"
  obtains (failed) er where "e = Some er" "spooled s t"
  | (moved) x where "e = None" "map_of (tmps s) tmp = Some x" "sv_store t = sv_store s"
      "map_of (objs t) = (map_of (objs s))(dst \<mapsto> x)"
proof -
  let ?s2 = "s\<lparr>tick := Suc (Suc (tick s))\<rparr>"
  obtain u er where u: "rename_into_cache H ?s2 tmp dst = (u, er)" by force
  show thesis
  proof (cases "os_fault H (tick s) = None \<and> os_fault H (Suc (tick s)) = None")
    case False
    then consider (a) er where "os_fault H (tick s) = Some er"
      | (b) er where "os_fault H (tick s) = None" "os_fault H (Suc (tick s)) = Some er" by auto
    then show ?thesis
    proof cases
      case (a er)
      with assms have "e = Some er" "t = remove_tmp H (s\<lparr>tick := Suc (tick s)\<rparr>) tmp"
        by (simp_all add: materialize_def os_call_def)
      then show ?thesis by (intro failed [of er]) simp_all
    next
      case (b er)
      with assms have "e = Some er" "t = remove_tmp H ?s2 tmp"
        by (simp_all add: materialize_def os_call_def)
      then show ?thesis by (intro failed [of er]) simp_all
    qed
  next
    case True
    then have eq: "(t, e) = (case er of Some x \<Rightarrow> (remove_tmp H u tmp, Some x) | None \<Rightarrow> (u, None))"
      using assms u by (simp add: materialize_def os_call_def split: option.splits)
    from u show ?thesis
    proof (cases rule: rename_cases)
      case (failed x)
      then have "spooled s u" by (simp add: spooled_def)
      then have "spooled s t" "e = Some x" using eq failed(1) by simp_all
      then show ?thesis using that(1) by blast
    next
      case (moved x)
      then show ?thesis using eq that(2) by auto
    qed
  qed
qed

lemma svc_inv_file:
  assumes "svc_inv H s" and "sv_store t = sv_store s"
    and "map_of (objs t) = (map_of (objs s))(r \<mapsto> RegFile b)" and "merkle_root H b = Inr r"
  shows "svc_inv H t"
  by (rule svc_invI) (use assms svc_invD [OF assms(1)] in \<open>auto split: if_splits\<close>)

lemma svc_inv_shrunk:
  assumes "svc_inv H s" and "shrunk {r. finalized H (sv_store s) r} s t"
  shows "svc_inv H t"
proof (rule svc_invI)
  have st: "sv_store t = sv_store s"
    and ob: "\<And>r. map_of (objs t) r = map_of (objs s) r \<or> finalized H (sv_store s) r \<and> map_of (objs t) r = None"
    using assms(2) by (auto simp: shrunk_def)
  show "store_inv H (sv_store t)" using svc_invD(1) [OF assms(1)] st by simp
  show "\<exists>b. sha256_hex H b = x \<and> int (length b) = n \<and> merkle_root H b = Inr r"
    if "content_of H (sv_store t) r = Some (x, n)" for r x n
    using svc_invD(2) [OF assms(1)] that st by simp
  show "\<exists>b. y = RegFile b \<and> merkle_root H b = Inr r" if "map_of (objs t) r = Some y" for r y
    using svc_invD(3) [OF assms(1)] that ob [of r] by auto
  show "map_of (objs t) r \<noteq> None"
    if "meta_at H (sv_store t) r \<noteq> None" "\<not> finalized H (sv_store t) r" for r
    using svc_invD(4) [OF assms(1)] that ob [of r] st by auto
qed

text \<open>A store operation that keeps the content records and revives no evicted object.\<close>

lemma svc_inv_store:
  assumes "svc_inv H s" and "store_inv H u" and "content_of H u = content_of H (sv_store s)"
    and "\<And>r. finalized H (sv_store s) r \<Longrightarrow> finalized H u r \<or> map_of (objs s) r \<noteq> None"
  shows "svc_inv H (s\<lparr>sv_store := u\<rparr>)"
proof (rule svc_invI)
  have dom: "meta_at H u r = None \<longleftrightarrow> meta_at H (sv_store s) r = None" for r
    using fun_cong [OF assms(3), of r] by (auto simp: content_of_def)
  show "store_inv H (sv_store (s\<lparr>sv_store := u\<rparr>))" using assms(2) by simp
  show "\<exists>b. sha256_hex H b = x \<and> int (length b) = n \<and> merkle_root H b = Inr r"
    if "content_of H (sv_store (s\<lparr>sv_store := u\<rparr>)) r = Some (x, n)" for r x n
    using svc_invD(2) [OF assms(1)] that assms(3) by simp
  show "\<exists>b. y = RegFile b \<and> merkle_root H b = Inr r" if "map_of (objs (s\<lparr>sv_store := u\<rparr>)) r = Some y" for r y
    using svc_invD(3) [OF assms(1)] that by simp
  show "map_of (objs (s\<lparr>sv_store := u\<rparr>)) r \<noteq> None"
    if "meta_at H (sv_store (s\<lparr>sv_store := u\<rparr>)) r \<noteq> None" "\<not> finalized H (sv_store (s\<lparr>sv_store := u\<rparr>)) r" for r
    using svc_invD(4) [OF assms(1), of r] that assms(4) [of r] dom [of r] by auto
qed

context store_host
begin

lemma BySHA256_read:
  assumes "store_inv H s" and "BySHA256 H s x = Inr mo"
  shows "mo = Some m \<Longrightarrow> meta_at H s (Root m) = Some m \<and> SHA256 m = x"
    and "mo = None \<Longrightarrow> meta_at H s r = Some m' \<Longrightarrow> SHA256 m' \<noteq> x"
proof -
  have inv: "meta_inv H s" "sha_inv H s" using assms(1) by (simp_all add: store_inv_def)
  have open_db: "\<not> closed s" using assms(2) by (auto simp: BySHA256_def db_view_def split: if_splits)
  note dec = getMeta_decodable [OF meta_inv_decodable [OF inv(1)]]
  show "meta_at H s (Root m) = Some m \<and> SHA256 m = x" if "mo = Some m"
  proof (cases "bget H (sha_index s) x")
    case None
    then show ?thesis using assms(2) that open_db by (simp add: BySHA256_def db_view_def)
  next
    case (Some v)
    then obtain m0 where m0: "meta_at H s (of_bytes H v) = Some m0" "SHA256 m0 = x"
      using sha_inv_entry [OF inv(2)] by blast
    then have "m0 = m" using assms(2) that open_db Some by (simp add: BySHA256_def db_view_def dec)
    then show ?thesis using m0 meta_inv_at [OF inv(1) m0(1)] by simp
  qed
  show "SHA256 m' \<noteq> x" if none: "mo = None" and m': "meta_at H s r = Some m'"
  proof
    assume "SHA256 m' = x"
    then obtain v where v: "bget H (sha_index s) x = Some v"
      using sha_inv_covers [OF inv(2) m'] by blast
    then obtain m0 where "meta_at H s (of_bytes H v) = Some m0" using sha_inv_entry [OF inv(2)] by blast
    then show False using assms(2) none open_db v by (simp add: BySHA256_def db_view_def dec)
  qed
qed

lemma Reenqueue_read:
  assumes "store_inv H s" and "Reenqueue H s r = (t, x)"
  shows "store_inv H t \<and> content_of H t = content_of H s
    \<and> (\<forall>q. q \<noteq> r \<longrightarrow> meta_at H t q = meta_at H s q)"
proof -
  obtain y where m: "mutate H s r reenqueue_fn = (t, y)" using assms(2) by (auto simp: Reenqueue_def void_eq)
  have "store_inv H t" using mutate_inv [OF m assms(1)] by simp
  moreover have "content_of H t = content_of H s" using mutate_content [OF assms(1) m] by simp
  moreover have "meta_at H t q = meta_at H s q" if "q \<noteq> r" for q
    using m
  proof (cases rule: mutate_cases)
    case (failed e)
    then show ?thesis using meta_at_cong [of s t H] by (simp add: same_data_def)
  next
    case (ok m m')
    have "Root m = r" using ok(2) meta_inv_at [of H s r m] assms(1) by (simp add: store_inv_def)
    then show ?thesis using meta_at_wrote [OF ok(4)] ok(3) that by simp
  qed
  ultimately show ?thesis by blast
qed

lemma finalized_frame: "meta_at H t q = meta_at H s q \<Longrightarrow> finalized H t q = finalized H s q"
  by (simp add: finalized_def)

end

section \<open>Put\<close>

text \<open>
  \<open>svc_step_ok s t\<close>: what \<open>Put\<close> and \<open>Open\<close> guarantee of every run, failed or not. The
  invariant is kept, no content record is lost or changed, and the store is changed only by
  creations of pending objects, requeues and touches.
\<close>

fun request_op :: "store_op \<Rightarrow> bool" where
  "request_op (OpCreate m) = (Status m = StatusPending)"
| "request_op (OpReenqueue r) = True"
| "request_op (OpTouch r at) = True"
| "request_op _ = False"

definition client_step :: "('b, 'v, 'z) host_scheme \<Rightarrow> 'b store \<Rightarrow> 'b store \<Rightarrow> bool" where
  "client_step H s t \<longleftrightarrow> (\<exists>p x. store_exec H s p = Some (t, x) \<and> op_ok H s p \<and> request_op p)"

definition svc_step_ok :: "('b, 'v, 'd, 'z) svc_host_scheme \<Rightarrow> ('b, 'd) svc \<Rightarrow> ('b, 'd) svc \<Rightarrow> bool" where
  "svc_step_ok H s t \<longleftrightarrow>
     svc_inv H t
     \<and> (\<forall>r c. content_of H (sv_store s) r = Some c \<longrightarrow> content_of H (sv_store t) r = Some c)
     \<and> (client_step H)\<^sup>*\<^sup>* (sv_store s) (sv_store t)"

lemma svc_step_refl: "svc_inv H s \<Longrightarrow> svc_step_ok H s s"
  by (simp add: svc_step_ok_def)

lemma svc_step_trans: "svc_step_ok H s t \<Longrightarrow> svc_step_ok H t u \<Longrightarrow> svc_step_ok H s u"
  unfolding svc_step_ok_def using rtranclp_trans by metis

lemma svc_step_inv: "svc_step_ok H s t \<Longrightarrow> svc_inv H t"
  by (simp add: svc_step_ok_def)

lemma svc_step_same_store: "svc_inv H t \<Longrightarrow> sv_store t = sv_store s \<Longrightarrow> svc_step_ok H s t"
  by (simp add: svc_step_ok_def)

lemma svc_step_spooled: "svc_inv H s \<Longrightarrow> spooled s t \<Longrightarrow> svc_step_ok H s t"
  using spooled_inv [of s t H] by (simp add: svc_step_ok_def spooled_def)

lemma svc_step_shrunk:
  "svc_inv H s \<Longrightarrow> shrunk {r. finalized H (sv_store s) r} s t \<Longrightarrow> svc_step_ok H s t"
  using svc_inv_shrunk by (intro svc_step_same_store) (auto simp: shrunk_def)

context collision_free
begin

text \<open>The bytes of an object are determined by its record.\<close>

lemma known_root:
  assumes "svc_inv H s" and "meta_at H (sv_store s) (Root m) = Some m" and "SHA256 m = sha256_hex H data"
  shows "merkle_root H data = Inr (Root m)" and "Size m = int (length data)"
proof -
  have "content_of H (sv_store s) (Root m) = Some (sha256_hex H data, Size m)"
    using assms(2,3) by (simp add: content_of_def)
  then obtain b where b: "sha256_hex H b = sha256_hex H data" "int (length b) = Size m"
    "merkle_root H b = Inr (Root m)"
    using svc_invD(2) [OF assms(1)] by blast
  with sha_inj have "b = data" by blast
  with b show "merkle_root H data = Inr (Root m)" "Size m = int (length data)" by auto
qed

lemma svc_step_reenqueue:
  assumes "svc_inv H s" and "with_store s (Reenqueue H (sv_store s) r) = (t, x)"
    and "\<not> finalized H (sv_store s) r \<or> map_of (objs s) r \<noteq> None"
  shows "svc_step_ok H s t \<and> objs t = objs s"
proof -
  obtain u where u: "Reenqueue H (sv_store s) r = (u, x)" "t = s\<lparr>sv_store := u\<rparr>"
    using assms(2) by (auto simp: with_store_def split: prod.splits)
  note rd = Reenqueue_read [OF svc_invD(1) [OF assms(1)] u(1)]
  have "svc_inv H t"
    unfolding u(2)
  proof (rule svc_inv_store [OF assms(1)])
    fix q
    assume "finalized H (sv_store s) q"
    then show "finalized H u q \<or> map_of (objs s) q \<noteq> None"
      using rd assms(3) finalized_frame [of u q "sv_store s"] by (cases "q = r") auto
  qed (use rd in auto)
  moreover have "client_step H (sv_store s) u"
    using u(1) by (auto simp: client_step_def intro!: exI [of _ "OpReenqueue r"])
  ultimately show ?thesis using rd u(2) by (simp add: svc_step_ok_def r_into_rtranclp)
qed

lemma noteAdded_ok: "svc_inv H s \<Longrightarrow> svc_step_ok H s (noteAdded H G s n)"
  using noteAdded_shrunk [OF svc_invD(1)] by (intro svc_step_shrunk) auto

text \<open>The dedup branch.\<close>

lemma Put_known_ok:
  assumes inv: "svc_inv H s" and m: "meta_at H (sv_store s) (Root m) = Some m" "SHA256 m = sha256_hex H data"
    and tmp: "map_of (tmps s) tmp = Some (RegFile data)"
    and run: "Put_known H G s tmp m = (t, x)"
  shows "svc_step_ok H s t"
proof -
  obtain s1 needs where n: "(if Status m \<noteq> StatusFinalized
            then (case fileExists H s (Root m) of (s1, there) \<Rightarrow> (s1, \<not> there))
            else (s, False)) = (s1, needs)" by force
  have s1: "spooled s s1" "tmps s1 = tmps s" "needs \<longrightarrow> Status m \<noteq> StatusFinalized"
    "\<not> needs \<and> Status m \<noteq> StatusFinalized \<longrightarrow> map_of (objs s) (Root m) \<noteq> None"
    using n fileExists_eq [of H s "Root m"] by (auto split: if_splits prod.splits)
  have inv1: "svc_inv H s1" using spooled_inv [OF s1(1) inv] .
  have st1: "sv_store s1 = sv_store s" "objs s1 = objs s" using s1(1) by (auto simp: spooled_def)
  show ?thesis
  proof (cases needs)
    case True
    then have nf: "\<not> finalized H (sv_store s) (Root m)" using s1(3) m(1) by (auto simp: finalized_def)
    obtain s2 e where mat: "materialize H s1 tmp (Root m) = (s2, e)" by force
    then show ?thesis
    proof (cases rule: materialize_cases)
      case (failed er)
      then have "t = s2" using run n True mat by (simp add: Put_known_def)
      then show ?thesis using failed svc_step_spooled [OF inv] s1(1) spooled_trans by blast
    next
      case (moved y)
      then have y: "y = RegFile data" using tmp s1(2) by simp
      have inv2: "svc_inv H s2"
        by (rule svc_inv_file [OF inv1 moved(3) moved(4) [unfolded y] known_root(1) [OF inv m]])
      define s3 where "s3 = noteAdded H G s2 (Size m)"
      obtain s4 z where s4: "with_store s3 (Reenqueue H (sv_store s3) (Root m)) = (s4, z)" by force
      have st2: "sv_store s2 = sv_store s" using moved(3) st1 by simp
      have ok3: "svc_step_ok H s2 s3" unfolding s3_def by (rule noteAdded_ok [OF inv2])
      have "sv_store s3 = sv_store s2"
        using noteAdded_shrunk [OF svc_invD(1) [OF inv2]] by (simp add: s3_def shrunk_def)
      then have "svc_step_ok H s3 s4"
        using svc_step_reenqueue [OF svc_step_inv [OF ok3] s4] nf st2 by simp
      with ok3 have "svc_step_ok H s2 s4" by (rule svc_step_trans)
      moreover have "svc_step_ok H s s2" by (rule svc_step_same_store [OF inv2 st2])
      moreover have "t = s4"
        using run n True mat moved(1) s4 by (auto simp: Put_known_def s3_def Let_def split: sum.splits)
      ultimately show ?thesis using svc_step_trans by blast
    qed
  next
    case False
    define s2 where "s2 = remove_tmp H s1 tmp"
    have s2: "spooled s s2" using s1(1) by (simp add: s2_def)
    then have inv2: "svc_inv H s2" and st2: "sv_store s2 = sv_store s" "objs s2 = objs s"
      using spooled_inv inv by (auto simp: spooled_def)
    show ?thesis
    proof (cases "Status m = StatusFailed")
      case True
      obtain s3 z where s3: "with_store s2 (Reenqueue H (sv_store s2) (Root m)) = (s3, z)" by force
      have "svc_step_ok H s2 s3"
        using svc_step_reenqueue [OF inv2 s3] True m(1) st2 s1(4) False by simp
      moreover have "t = s3"
        using run n False True s3 by (auto simp: Put_known_def s2_def Let_def split: sum.splits)
      ultimately show ?thesis using svc_step_spooled [OF inv s2] svc_step_trans by blast
    next
      case no: False
      then have "t = s2" using run n False by (simp add: Put_known_def s2_def)
      then show ?thesis using svc_step_spooled [OF inv s2] by simp
    qed
  qed
qed

text \<open>The branch for new content.\<close>

lemma svc_step_create:
  assumes inv: "svc_inv H s" and run: "with_store s (CreateObject H (sv_store s) m) = (t, x)"
    and m: "SHA256 m = sha256_hex H data" "Size m = int (length data)"
    and root: "merkle_root H data = Inr (Root m)"
    and pending: "Status m = StatusPending"
    and present0: "map_of (objs s) (Root m) \<noteq> None \<or> finalized H (sv_store s) (Root m)"
  shows "svc_step_ok H s t"
proof -
  obtain u where u: "CreateObject H (sv_store s) m = (u, x)" "t = s\<lparr>sv_store := u\<rparr>"
    using run by (auto simp: with_store_def split: prod.splits)
  have uinv: "store_inv H u"
    using CreateObject_inv [OF u(1) svc_invD(1) [OF inv]] root_ascii [OF root] sha_ascii m(1) by simp
  have "client_step H (sv_store s) u"
    using u(1) root_ascii [OF root] sha_ascii m(1) pending
    by (auto simp: client_step_def intro!: exI [of _ "OpCreate m"])
  then have cl: "(client_step H)\<^sup>*\<^sup>* (sv_store s) u" by blast
  from u(1) show ?thesis
  proof (cases rule: CreateObject_cases)
    case (failed e)
    then have same: "meta_at H u = meta_at H (sv_store s)"
      by (intro meta_at_cong) (simp add: same_data_def)
    then have "content_of H u = content_of H (sv_store s)" "finalized H u = finalized H (sv_store s)"
      by (simp_all add: content_of_def finalized_def fun_eq_iff)
    with svc_inv_store [OF inv uinv] cl show ?thesis by (simp add: svc_step_ok_def u(2))
  next
    case (ok m')
    have none: "meta_at H (sv_store s) (Root m) = None" using ok(2) by (simp add: meta_at_def)
    then have present: "map_of (objs s) (Root m) \<noteq> None" using present0 by (auto simp: finalized_def)
    have m': "Root m' = Root m" "SHA256 m' = SHA256 m" "Size m' = Size m" using ok(3) by simp_all
    have at: "meta_at H u r = (if r = Root m then Some (json_meta m') else meta_at H (sv_store s) r)" for r
      using meta_at_wrote [OF ok(4)] m'(1) by simp
    have c: "content_of H u r = (if r = Root m then Some (sha256_hex H data, int (length data))
        else content_of H (sv_store s) r)" for r
      using at [of r] m' m sha_ascii by (simp add: content_of_def)
    have "svc_inv H t"
    proof (rule svc_invI)
      show "store_inv H (sv_store t)" using uinv u(2) by simp
      show "\<exists>b. sha256_hex H b = y \<and> int (length b) = n \<and> merkle_root H b = Inr r"
        if "content_of H (sv_store t) r = Some (y, n)" for r y n
        using that c [of r] svc_invD(2) [OF inv] root u(2) by (auto split: if_splits)
      show "\<exists>b. y = RegFile b \<and> merkle_root H b = Inr r" if "map_of (objs t) r = Some y" for r y
        using that svc_invD(3) [OF inv] u(2) by simp
      show "map_of (objs t) r \<noteq> None"
        if "meta_at H (sv_store t) r \<noteq> None" "\<not> finalized H (sv_store t) r" for r
      proof (cases "r = Root m")
        case False
        then have "meta_at H u r = meta_at H (sv_store s) r" using at by simp
        then show ?thesis using that svc_invD(4) [OF inv, of r] u(2) by (simp add: finalized_def)
      qed (use present u(2) in simp)
    qed
    moreover have "content_of H (sv_store s) (Root m) = None" using none by (simp add: content_of_def)
    ultimately show ?thesis using c u(2) cl by (auto simp: svc_step_ok_def)
  qed
qed

lemma Put_fresh_ok:
  assumes inv: "svc_inv H s" and tmp: "map_of (tmps s) tmp = Some (RegFile data)"
    and run: "Put_fresh H G s tmp data filename contentType = (t, x)"
  shows "svc_step_ok H s t"
proof -
  let ?s2 = "s\<lparr>tick := Suc (Suc (tick s))\<rparr>"
  consider (a) e where "os_fault H (tick s) = Some e"
    | (b) e where "os_fault H (tick s) = None" "os_fault H (Suc (tick s)) = Some e"
    | (c) "os_fault H (tick s) = None" "os_fault H (Suc (tick s)) = None" by auto
  then show ?thesis
  proof cases
    case a
    then have "t = remove_tmp H (s\<lparr>tick := Suc (tick s)\<rparr>) tmp"
      using run by (simp add: Put_fresh_def os_call_def)
    then show ?thesis by (intro svc_step_spooled [OF inv]) simp
  next
    case b
    then have "t = remove_tmp H ?s2 tmp" using run by (simp add: Put_fresh_def os_call_def)
    then show ?thesis by (intro svc_step_spooled [OF inv]) simp
  next
    case c
    show ?thesis
    proof (cases "merkle_root H data")
      case (Inl e)
      then have "t = remove_tmp H ?s2 tmp" using run c by (simp add: Put_fresh_def os_call_def)
      then show ?thesis by (intro svc_step_spooled [OF inv]) simp
    next
      case root: (Inr root)
      obtain s3 e where mv: "rename_into_cache H ?s2 tmp root = (s3, e)" by force
      then show ?thesis
      proof (cases rule: rename_cases)
        case (failed er)
        then have "t = remove_tmp H s3 tmp" using run c root mv by (simp add: Put_fresh_def os_call_def)
        then show ?thesis using failed by (intro svc_step_spooled [OF inv]) simp
      next
        case (moved y)
        then have y: "y = RegFile data" using tmp by simp
        have st3: "sv_store s3 = sv_store s" using moved(3) by simp
        have inv3: "svc_inv H s3"
          by (rule svc_inv_file [OF inv st3 _ root]) (use moved(4) y in simp)
        define s4 where "s4 = noteAdded H G s3 (int (length data))"
        define m where "m = zero_meta\<lparr>Root := root, SHA256 := sha256_hex H data,
          MD5 := md5_hex H data, Size := int (length data), Filename := filename,
          ContentType := contentType, Status := StatusPending\<rparr>"
        obtain s5 z where s5: "with_store s4 (CreateObject H (sv_store s4) m) = (s5, z)" by force
        have ok4: "svc_step_ok H s3 s4" unfolding s4_def by (rule noteAdded_ok [OF inv3])
        have sh: "shrunk {r. finalized H (sv_store s3) r} s3 s4"
          unfolding s4_def by (rule noteAdded_shrunk [OF svc_invD(1) [OF inv3]])
        have "map_of (objs s3) root \<noteq> None" using moved(4) by simp
        then have "map_of (objs s4) root \<noteq> None \<or> finalized H (sv_store s4) root"
          using sh moved(3) unfolding shrunk_def by (metis mem_Collect_eq)
        then have "svc_step_ok H s4 s5"
          using svc_step_create [OF svc_step_inv [OF ok4] s5, of data] root by (simp add: m_def)
        then have "svc_step_ok H s s5"
          using svc_step_trans [OF svc_step_same_store [OF inv3 st3] svc_step_trans [OF ok4]] by blast
        moreover have "t = s5"
          using run c root mv moved(1) s5
          by (auto simp: Put_fresh_def os_call_def Let_def s4_def m_def split: sum.splits if_splits)
        ultimately show ?thesis by simp
      qed
    qed
  qed
qed

text \<open>\<open>Put\<close> as a whole: it ends in one of the early exits or in one of the two branches.\<close>

lemma Put_cases:
  assumes "Put H G s r filename contentType = (t, x)"
  obtains (early) "spooled s t" "isl x"
  | (known) s3 tmp data m where "spooled s s3" "map_of (tmps s3) tmp = Some (RegFile data)"
      "data = rd_data r \<or> 0 < MaxSize G \<and> data = rd_data (limit_reader r (int64 (MaxSize G + 1)))"
      "data \<noteq> []" "MaxSize G \<le> 0 \<or> int (length data) \<le> MaxSize G"
      "BySHA256 H (sv_store s3) (sha256_hex H data) = Inr (Some m)"
      "Put_known H G s3 tmp m = (t, x)"
  | (fresh) s3 tmp data where "spooled s s3" "map_of (tmps s3) tmp = Some (RegFile data)"
      "data = rd_data r \<or> 0 < MaxSize G \<and> data = rd_data (limit_reader r (int64 (MaxSize G + 1)))"
      "data \<noteq> []" "MaxSize G \<le> 0 \<or> int (length data) \<le> MaxSize G"
      "BySHA256 H (sv_store s3) (sha256_hex H data) = Inr None"
      "Put_fresh H G s3 tmp data filename contentType = (t, x)"
proof (cases "os_fault H (tick s)")
  case (Some e)
  then have "t = s\<lparr>tick := Suc (tick s)\<rparr>" "x = Inl e" using assms by (simp_all add: Put_def os_call_def)
  then show thesis by (intro early) simp_all
next
  case None
  define tmp where "tmp = temp_name H (map fst (tmps s)) (tick s)"
  define s2 where "s2 = s\<lparr>tick := Suc (tick s), tmps := dir_put (tmps s) tmp (RegFile [])\<rparr>"
  define src where "src = (if 0 < MaxSize G then limit_reader r (int64 (MaxSize G + 1)) else r)"
  obtain s3 c where c: "io_copy H s2 tmp src = (s3, c)" by force
  have s2: "spooled s s2" by (simp add: s2_def)
  then have s3: "spooled s s3" using io_copy_spooled [OF c] spooled_trans by blast
  note red = Put_def os_call_def Let_def tmp_def [symmetric] s2_def [symmetric] src_def [symmetric]
  show thesis
  proof (cases c)
    case (Inl e)
    then have "t = remove_tmp H s3 tmp" "x = Inl e" using assms None c by (simp_all add: red)
    then show thesis using s3 by (intro early) simp_all
  next
    case (Inr data)
    note dt = io_copy_data [OF c [unfolded Inr]]
    have base: "(t, x) = (if data = [] then (remove_tmp H s3 tmp, Inl ErrEmpty)
        else if 0 < MaxSize G \<and> MaxSize G < int (length data) then (remove_tmp H s3 tmp, Inl ErrTooLarge)
        else (case BySHA256 H (sv_store s3) (sha256_hex H data) of
                        Inl e \<Rightarrow> (remove_tmp H s3 tmp, Inl e)
                      | Inr (Some m) \<Rightarrow> Put_known H G s3 tmp m
                      | Inr None \<Rightarrow> Put_fresh H G s3 tmp data filename contentType))"
      using assms None c Inr by (simp add: red)
    show thesis
    proof (cases "data = [] \<or> 0 < MaxSize G \<and> MaxSize G < int (length data)")
      case True
      with base have "t = remove_tmp H s3 tmp \<and> isl x" by (simp split: if_splits)
      then show thesis using s3 by (intro early) simp_all
    next
      case False
      have data: "data = rd_data r \<or> 0 < MaxSize G \<and> data = rd_data (limit_reader r (int64 (MaxSize G + 1)))"
        using dt by (auto simp: src_def split: if_splits)
      have sz: "data \<noteq> []" "MaxSize G \<le> 0 \<or> int (length data) \<le> MaxSize G" using False by auto
      have tm: "map_of (tmps s3) tmp = Some (RegFile data)" using dt by blast
      have ok: "\<not> (0 < MaxSize G \<and> MaxSize G < int (length data))" using False by blast
      have eq: "(t, x) = (case BySHA256 H (sv_store s3) (sha256_hex H data) of
                        Inl e \<Rightarrow> (remove_tmp H s3 tmp, Inl e)
                      | Inr (Some m) \<Rightarrow> Put_known H G s3 tmp m
                      | Inr None \<Rightarrow> Put_fresh H G s3 tmp data filename contentType)"
        using base by (simp only: sz(1) ok if_False)
      show thesis
      proof (cases "BySHA256 H (sv_store s3) (sha256_hex H data)")
        case (Inl e)
        then have "t = remove_tmp H s3 tmp" "isl x" using eq by simp_all
        then show thesis using s3 by (intro early) simp_all
      next
        case (Inr mo)
        show thesis
        proof (cases mo)
          case n: None
          then have "Put_fresh H G s3 tmp data filename contentType = (t, x)" using eq Inr by simp
          then show thesis using fresh [OF s3 tm data sz] Inr n by blast
        next
          case s: (Some m)
          then have "Put_known H G s3 tmp m = (t, x)" using eq Inr by simp
          then show thesis using known [OF s3 tm data sz] Inr s by blast
        qed
      qed
    qed
  qed
qed

lemma Put_ok:
  assumes inv: "svc_inv H s" and run: "Put H G s r filename contentType = (t, x)"
  shows "svc_step_ok H s t"
  using run
proof (cases rule: Put_cases)
  case early
  then show ?thesis by (intro svc_step_spooled [OF inv])
next
  case (known s3 tmp data m)
  have inv3: "svc_inv H s3" using spooled_inv [OF known(1) inv] .
  have m: "meta_at H (sv_store s3) (Root m) = Some m" "SHA256 m = sha256_hex H data"
    using BySHA256_read(1) [OF svc_invD(1) [OF inv3] known(6)] by auto
  show ?thesis
    using svc_step_trans [OF svc_step_spooled [OF inv known(1)] Put_known_ok [OF inv3 m known(2,7)]] .
next
  case (fresh s3 tmp data)
  have inv3: "svc_inv H s3" using spooled_inv [OF fresh(1) inv] .
  show ?thesis
    using svc_step_trans [OF svc_step_spooled [OF inv fresh(1)] Put_fresh_ok [OF inv3 fresh(2,7)]] .
qed

end

end
