(* ===== verification/Object_Run.thy ===== *)
theory Object_Run
  imports Object_Inv
begin

text \<open>
  The runs of \<open>Open\<close>, \<open>ShouldRejectWrite\<close> and \<open>New\<close> on the service: what they return, and
  that they keep the invariant whatever fails.
\<close>

section \<open>Open\<close>

context svc_env
begin

lemma touch_now_frame:
  assumes "svc_inv H s"
  shows "svc_step_ok H s (touch_now H s root) \<and> objs (touch_now H s root) = objs s
    \<and> content_of H (sv_store (touch_now H s root)) = content_of H (sv_store s)"
proof -
  obtain u x where u: "Touch H (sv_store s) root (wall H (tick s)) = (u, x)" by force
  note inv = svc_invD(1) [OF assms]
  note fr = Touch_frame(1,2) [OF inv u]
  have eq: "touch_now H s root = s\<lparr>sv_store := u, tick := Suc (tick s)\<rparr>" by (simp add: touch_now_def u)
  have "svc_inv H (s\<lparr>sv_store := u\<rparr>)"
    by (rule svc_inv_store [OF assms Touch_inv [OF u inv]]) (use fr in auto)
  then have "svc_inv H (s\<lparr>sv_store := u, tick := Suc (tick s)\<rparr>)" by (simp add: svc_inv_def)
  moreover have "client_step H (sv_store s) u"
    using u by (auto simp: client_step_def intro!: exI [of _ "OpTouch root (wall H (tick s))"])
  ultimately show ?thesis using fr by (simp add: svc_step_ok_def eq r_into_rtranclp)
qed

lemma touch_svc_frame:
  assumes "svc_inv H s"
  shows "svc_step_ok H s (touch_svc H G s root at)"
proof -
  have "svc_inv H (s\<lparr>tick := n\<rparr>)" for n using assms by (simp add: svc_inv_def)
  then show ?thesis
    using touch_now_frame [of "s\<lparr>tick := Suc (tick s)\<rparr>" root] svc_step_spooled [OF assms, of "s\<lparr>tick := Suc (tick s)\<rparr>"]
      svc_step_refl [OF assms]
      svc_step_trans [of H s "s\<lparr>tick := Suc (tick s)\<rparr>" "touch_now H (s\<lparr>tick := Suc (tick s)\<rparr>) root"]
    by (auto simp: touch_svc_def Let_def)
qed

text \<open>A cold read fails without a trace in cache and store, or puts the verified bytes in place.\<close>

lemma restore_cases:
  assumes "restore H G s root m = (t, x)"
  obtains (early) "spooled s t" "isl x"
  | (moved) d b s3 where "download H (sv_dl s) root = (d, Some b, None)" "merkle_root H b = Inr root"
      "sv_store s3 = sv_store s" "map_of (objs s3) = (map_of (objs s))(root \<mapsto> RegFile b)"
      "t = s3 \<and> isl x \<or> x = Inr (RegFile b, m)
         \<and> t = noteAdded H G (if 0 < CacheMaxBytes G then touch_now H s3 root else s3) (Size m)"
proof (cases "length (trim_prefix root ''0x'') < 16")
  case True
  then have "t = s" "isl x" using assms by (auto simp: restore_def Let_def)
  then show thesis by (intro early) simp_all
next
  case False
  obtain d f e where dl: "download H (sv_dl s) root = (d, f, e)" by (metis prod_cases3)
  define tmp where "tmp = ''dl-'' @ take 16 (trim_prefix root ''0x'') @ ''-'' @ itoa (rand63 H (tick s))"
  define s2 where "s2 = (let s1 = s\<lparr>sv_dl := d, tick := Suc (tick s)\<rparr> in
       case f of None \<Rightarrow> s1 | Some b \<Rightarrow> s1\<lparr>tmps := dir_put (tmps s1) tmp (RegFile b)\<rparr>)"
  have s2: "spooled s s2" by (auto simp: s2_def Let_def split: option.splits)
  have red: "restore H G s root m = (case e of
                   Some e \<Rightarrow> (remove_tmp H s2 tmp, Inl (Wrapped ''restore from 0g'' e))
                 | None \<Rightarrow>
                     (case rename_into_cache H s2 tmp root of
                        (s3, Some e) \<Rightarrow> (remove_tmp H s3 tmp, Inl e)
                      | (s3, None) \<Rightarrow>
                          (case os_call H s3 of
                             (s4, Some e) \<Rightarrow> (s4, Inl e)
                           | (s4, None) \<Rightarrow>
                               (case map_of (objs s4) root of
                                  None \<Rightarrow> (s4, Inl ErrNotExist)
                                | Some x \<Rightarrow>
                                    (let s5 = (if 0 < CacheMaxBytes G then touch_now H s4 root else s4)
                                     in (noteAdded H G s5 (Size m), Inr (x, m)))))))"
    by (simp only: restore_def Let_def dl tmp_def s2_def False if_False prod.case)
  show thesis
  proof (cases e)
    case (Some er)
    then have "t = remove_tmp H s2 tmp" "isl x" using assms by (auto simp: red)
    then show thesis using s2 by (intro early) simp_all
  next
    case None
    then obtain b where b: "f = Some b" "merkle_root H b = Inr root"
      using download_verified [of "sv_dl s" root d f] dl by auto
    then have tmp: "map_of (tmps s2) tmp = Some (RegFile b)" by (simp add: s2_def Let_def)
    obtain s3 e3 where mv: "rename_into_cache H s2 tmp root = (s3, e3)" by force
    then show thesis
    proof (cases rule: rename_cases)
      case (failed er)
      then have "t = remove_tmp H s3 tmp" "isl x" using assms None mv by (auto simp: red)
      then show thesis using failed s2 spooled_trans [OF s2] by (intro early) simp_all
    next
      case (moved y)
      then have y: "y = RegFile b" using tmp by simp
      define s4 where "s4 = s3\<lparr>tick := Suc (tick s3)\<rparr>"
      have s4: "sv_store s4 = sv_store s" "map_of (objs s4) = (map_of (objs s))(root \<mapsto> RegFile b)"
        using moved(3,4) y s2 by (simp_all add: s4_def spooled_def)
      have at3: "map_of (objs s3) root = Some (RegFile b)" using moved(4) y by simp
      have "(t, x) = (case os_fault H (tick s3) of Some e \<Rightarrow> (s4, Inl e)
         | None \<Rightarrow> (noteAdded H G (if 0 < CacheMaxBytes G then touch_now H s4 root else s4) (Size m),
                   Inr (RegFile b, m)))"
        using assms None mv moved(1) s4
          at3
        by (simp add: red os_call_def Let_def s4_def split: option.splits if_splits)
      then show thesis
        using that(2) [OF _ b(2) s4] dl b(1) None by (auto split: option.splits)
    qed
  qed
qed

text \<open>\<open>Open\<close> as a whole.\<close>

lemma Open_cases:
  assumes "Open H G s root = (t, x)"
  obtains (early) "spooled s t" "isl x"
  | (cached) m y s1 where "Get H (sv_store s) root = Inr (Some m)" "map_of (objs s) root = Some y"
      "node_size y = Size m" "spooled s s1" "x = Inr (y, m)" "t = touch_svc H G s1 root (LastAccess m)"
  | (restored) m s1 where "Get H (sv_store s) root = Inr (Some m)" "spooled s s1"
      "sv_dl s1 = sv_dl s" "restore H G s1 root m = (t, x)"
proof (cases "\<exists>m. Get H (sv_store s) root = Inr (Some m)")
  case False
  then have "t = s" "isl x" using assms by (auto simp: Open_def split: sum.splits option.splits)
  then show thesis by (intro early) simp_all
next
  case True
  then obtain m where m: "Get H (sv_store s) root = Inr (Some m)" by blast
  obtain s1 y where oc: "open_cached H s root m = (s1, y)" by force
  have s1: "spooled s s1" "sv_dl s1 = sv_dl s"
    using oc by (auto simp: open_cached_def os_call_def spooled_def split: option.splits if_splits)
  have y: "map_of (objs s) root = Some n \<and> node_size n = Size m" if "y = Inr (Some n)" for n
    using oc that by (auto simp: open_cached_def os_call_def split: option.splits if_splits)
  have run: "(t, x) = (case (s1, y) of
             (s1, Inl e) \<Rightarrow> (s1, Inl e)
           | (s1, Inr (Some x)) \<Rightarrow> (touch_svc H G s1 root (LastAccess m), Inr (x, m))
           | (s1, Inr None) \<Rightarrow> restore H G s1 root m)"
    using assms m oc by (simp add: Open_def)
  show thesis
  proof (cases y)
    case (Inl e)
    then show thesis using run s1 by (intro early) simp_all
  next
    case (Inr n)
    show thesis
    proof (cases n)
      case None
      then show thesis using run Inr restored [OF m s1] by simp
    next
      case (Some c)
      then show thesis using run Inr y [of c] by (intro cached [OF m _ _ s1(1)]) simp_all
    qed
  qed
qed

lemma restore_ok:
  assumes inv: "svc_inv H s" and run: "restore H G s root m = (t, x)"
  shows "svc_step_ok H s t"
  using run
proof (cases rule: restore_cases)
  case early
  then show ?thesis by (intro svc_step_spooled [OF inv])
next
  case (moved d b s3)
  have inv3: "svc_inv H s3" by (rule svc_inv_file [OF inv moved(3,4,2)])
  then have ok3: "svc_step_ok H s s3" by (rule svc_step_same_store) (rule moved(3))
  let ?s4 = "if 0 < CacheMaxBytes G then touch_now H s3 root else s3"
  have ok4: "svc_step_ok H s3 ?s4" using touch_now_frame [OF inv3] svc_step_refl [OF inv3] by simp
  have "svc_step_ok H ?s4 (noteAdded H G ?s4 (Size m))"
    using noteAdded_shrunk [OF svc_invD(1)] svc_step_inv [OF ok4] by (intro svc_step_shrunk) auto
  then have "svc_step_ok H s (noteAdded H G ?s4 (Size m))" using ok3 ok4 svc_step_trans by blast
  then show ?thesis using moved(5) ok3 by auto
qed

lemma Open_ok:
  assumes inv: "svc_inv H s" and run: "Open H G s root = (t, x)"
  shows "svc_step_ok H s t"
  using run
proof (cases rule: Open_cases)
  case early
  then show ?thesis by (intro svc_step_spooled [OF inv])
next
  case (cached m y s1)
  then show ?thesis
    using svc_step_trans [OF svc_step_spooled [OF inv cached(4)] touch_svc_frame [OF spooled_inv [OF cached(4) inv]]]
    by simp
next
  case (restored m s1)
  then show ?thesis
    using svc_step_trans [OF svc_step_spooled [OF inv restored(2)] restore_ok [OF spooled_inv [OF restored(2) inv]]]
    by simp
qed

lemma ShouldRejectWrite_ok: "svc_inv H s \<Longrightarrow> svc_step_ok H s (fst (ShouldRejectWrite H G s))"
  using ShouldRejectWrite_shrunk [OF svc_invD(1)] by (intro svc_step_shrunk) auto

text \<open>A restart clears the spool and may evict; it keeps every record and every needed file.\<close>

lemma New_service_ok:
  assumes inv: "svc_inv H s" and run: "New_service H G s = (t, x)"
  shows "svc_step_ok H s t"
proof -
  define s2 where "s2 = s\<lparr>cacheBytes := 0, evicting := False, tick := Suc (Suc (tick s))\<rparr>"
  define s3 where "s3 = clearDir H s2"
  have s2: "spooled s s2" by (simp add: s2_def)
  then have s3: "spooled s s3" by (simp add: s3_def)
  obtain s4 n where ds: "dirSize H s3 = (s4, n)" by force
  have s4: "spooled s s4" using spooled_trans [OF s3 dirSize_spooled [OF ds]] .
  have "spooled s t \<or> (\<exists>k. t = evictIfNeeded H G (s4\<lparr>cacheBytes := k\<rparr>))"
    using run s2 s3 s4 ds
    by (auto simp: New_service_def os_call_def Let_def s2_def [symmetric] s3_def [symmetric]
        split: option.splits sum.splits if_splits prod.splits)
  then show ?thesis
  proof
    assume "\<exists>k. t = evictIfNeeded H G (s4\<lparr>cacheBytes := k\<rparr>)"
    then obtain k where t: "t = evictIfNeeded H G (s4\<lparr>cacheBytes := k\<rparr>)" by blast
    have sp: "spooled s (s4\<lparr>cacheBytes := k\<rparr>)" using s4 by simp
    have inv4: "svc_inv H (s4\<lparr>cacheBytes := k\<rparr>)" by (rule spooled_inv [OF sp inv])
    have "svc_step_ok H (s4\<lparr>cacheBytes := k\<rparr>) t"
      unfolding t by (rule svc_step_shrunk [OF inv4 evictIfNeeded_shrunk [OF svc_invD(1) [OF inv4]]])
    then show ?thesis using svc_step_trans [OF svc_step_spooled [OF inv sp]] by blast
  qed (intro svc_step_spooled [OF inv])
qed

end

section \<open>What Open returns\<close>

context collision_free
begin

text \<open>The bytes of an object, whenever a record of it exists.\<close>

lemma record_bytes:
  assumes "svc_inv H s" and "Get H (sv_store s) root = Inr (Some m)"
  shows "\<exists>b. merkle_root H b = Inr root \<and> sha256_hex H b = SHA256 m \<and> int (length b) = Size m"
proof -
  have "meta_at H (sv_store s) root = Some m"
    using assms(2) getMeta_Some [of H "sv_store s" root m] by (auto simp: Get_def db_view_def split: if_splits)
  then have "content_of H (sv_store s) root = Some (SHA256 m, Size m)" by (simp add: content_of_def)
  then show ?thesis using svc_invD(2) [OF assms(1)] by blast
qed

lemma Open_returns:
  assumes inv: "svc_inv H s" and run: "Open H G s root = (t, Inr (y, m))"
  shows "\<exists>b. y = RegFile b \<and> merkle_root H b = Inr root \<and> sha256_hex H b = SHA256 m
    \<and> int (length b) = Size m \<and> Get H (sv_store s) root = Inr (Some m)"
  using run
proof (cases rule: Open_cases)
  case (cached m' y' s1)
  obtain b where "y' = RegFile b" "merkle_root H b = Inr root"
    using svc_invD(3) [OF inv cached(2)] by blast
  then show ?thesis using record_bytes [OF inv cached(1)] root_inj cached(1,5) by blast
next
  case (restored m' s1)
  note get = restored(1)
  from restored(4) show ?thesis
  proof (cases rule: restore_cases)
    case (moved d b s3)
    then show ?thesis using record_bytes [OF inv get] root_inj get by auto
  qed simp
qed simp

end

end
