(* ===== verification/Object_Put.thy ===== *)
theory Object_Put
  imports Object_Run
begin

text \<open>
  What \<open>Put\<close> returns: the record of the uploaded bytes, whether they were known or new.
\<close>

lemma map_sum_Inr: "map_sum f g x = Inr y \<longleftrightarrow> (\<exists>z. x = Inr z \<and> y = g z)"
  by (cases x) auto

lemma Inr_map_sum: "Inr y = map_sum f g x \<longleftrightarrow> (\<exists>z. x = Inr z \<and> y = g z)"
  by (cases x) auto

lemma take_copied:
  assumes "data = rd_data r \<or> 0 < MaxSize G \<and> data = rd_data (limit_reader r (int64 (MaxSize G + 1)))"
    and "data \<noteq> []" and "MaxSize G \<le> 0 \<or> int (length data) \<le> MaxSize G" and "MaxSize G < 2 ^ 63"
  shows "data = rd_data r"
proof (rule ccontr)
  assume no: "data \<noteq> rd_data r"
  then have G: "0 < MaxSize G" and d: "data = rd_data (limit_reader r (int64 (MaxSize G + 1)))"
    using assms(1) by auto
  then have tk: "data = take (nat (int64 (MaxSize G + 1))) (rd_data r)"
    "\<not> int (length (rd_data r)) < int64 (MaxSize G + 1)"
    using no by (auto simp: limit_reader_def split: if_splits)
  show False
  proof (cases "MaxSize G = 2 ^ 63 - 1")
    case True
    then have "int64 (MaxSize G + 1) < 0" by (simp add: int64_def)
    then show ?thesis using tk(1) assms(2) by simp
  next
    case False
    then have "int64 (MaxSize G + 1) = MaxSize G + 1" using G assms(4) by (simp add: int64_def)
    then have "int (length data) = MaxSize G + 1" using tk G by simp
    then show ?thesis using assms(3) G by simp
  qed
qed

context svc_env
begin

lemma meta_at_root: "svc_inv H s \<Longrightarrow> meta_at H (sv_store s) r = Some m \<Longrightarrow> Root m = r"
  using svc_invD(1) meta_inv_at by (fastforce simp: store_inv_def)

lemma get_record_content:
  assumes inv: "svc_inv H s" and c: "content_of H (sv_store s) root = Some c"
    and run: "get_record H s root = Inr m"
  shows "meta_at H (sv_store s) root = Some m" and "Root m = root"
proof -
  have "decodable H (sv_store s)"
    using svc_invD(1) [OF inv] by (simp add: store_inv_def meta_inv_decodable)
  moreover have "\<not> closed (sv_store s)"
    using run by (auto simp: get_record_def Get_def db_view_def split: if_splits)
  ultimately have "Get H (sv_store s) root = Inr (meta_at H (sv_store s) root)" by (rule Get_decodable)
  then show "meta_at H (sv_store s) root = Some m"
    using run c by (auto simp: get_record_def content_of_def split: option.splits)
  then show "Root m = root" by (rule meta_at_root [OF inv])
qed

lemma Reenqueue_open: "Reenqueue H s r = (t, Inr u) \<Longrightarrow> \<not> closed t"
  by (auto simp: Reenqueue_def elim!: mutate_cases)

lemma get_record_open:
  assumes "svc_inv H s" and "\<not> closed (sv_store s)"
  shows "get_record H s root \<noteq> Inl e"
proof -
  have "decodable H (sv_store s)"
    using svc_invD(1) [OF assms(1)] by (simp add: store_inv_def meta_inv_decodable)
  then show ?thesis using Get_decodable [of H "sv_store s" root] assms(2)
    by (auto simp: get_record_def split: option.splits)
qed

end

context collision_free
begin

lemma Put_known_returns:
  assumes inv: "svc_inv H s" and m: "meta_at H (sv_store s) (Root m) = Some m" "SHA256 m = sha256_hex H data"
    and tmp: "map_of (tmps s) tmp = Some (RegFile data)"
    and run: "Put_known H G s tmp m = (t, Inr (m', dup))"
  shows "dup \<and> Root m' = Root m \<and> meta_at H (sv_store t) (Root m) = Some m'"
proof -
  have ok: "svc_step_ok H s t" by (rule Put_known_ok [OF inv m tmp run])
  have c: "content_of H (sv_store s) (Root m) = Some (SHA256 m, Size m)" using m(1) by (simp add: content_of_def)
  then have ct: "content_of H (sv_store t) (Root m) = Some (SHA256 m, Size m)"
    using ok by (simp add: svc_step_ok_def)
  note rec = get_record_content [OF svc_step_inv [OF ok] ct]
  obtain s1 needs where n: "(if Status m \<noteq> StatusFinalized
            then (case fileExists H s (Root m) of (s1, there) \<Rightarrow> (s1, \<not> there))
            else (s, False)) = (s1, needs)" by force
  have s1: "sv_store s1 = sv_store s"
    using n fileExists_eq [of H s "Root m"] by (auto simp: spooled_def split: if_splits prod.splits)
  have red: "Put_known H G s tmp m = (if needs
          then
            (case materialize H s1 tmp (Root m) of
               (s2, Some e) \<Rightarrow> (s2, Inl e)
             | (s2, None) \<Rightarrow>
                 (let s3 = noteAdded H G s2 (Size m) in
                  (case with_store s3 (Reenqueue H (sv_store s3) (Root m)) of
                     (s4, Inl e) \<Rightarrow> (s4, Inl e)
                   | (s4, Inr _) \<Rightarrow> (s4, map_sum id (\<lambda>m'. (m', True)) (get_record H s4 (Root m))))))
          else if Status m = StatusFailed
          then
            (let s2 = remove_tmp H s1 tmp in
             (case with_store s2 (Reenqueue H (sv_store s2) (Root m)) of
                (s3, Inl e) \<Rightarrow> (s3, Inl e)
              | (s3, Inr _) \<Rightarrow>
                  (s3, Inr (case get_record H s3 (Root m) of Inl e \<Rightarrow> zero_meta | Inr m' \<Rightarrow> m', True))))
          else (remove_tmp H s1 tmp, Inr (m, True)))"
    unfolding Put_known_def n by simp
  consider (cache) "needs" | (failed) "\<not> needs" "Status m = StatusFailed"
    | (plain) "\<not> needs" "Status m \<noteq> StatusFailed" by blast
  then show ?thesis
  proof cases
    case cache
    then have "dup \<and> get_record H t (Root m) = Inr m'"
      using run by (auto simp: red map_sum_Inr Let_def split: prod.splits option.splits sum.splits)
    then show ?thesis using rec by blast
  next
    case failed
    define s2 where "s2 = remove_tmp H s1 tmp"
    obtain u x where u: "Reenqueue H (sv_store s2) (Root m) = (u, x)" by force
    have "(case with_store s2 (Reenqueue H (sv_store s2) (Root m)) of
                (s3, Inl e) \<Rightarrow> (s3, Inl e)
              | (s3, Inr _) \<Rightarrow>
                  (s3, Inr (case get_record H s3 (Root m) of Inl e \<Rightarrow> zero_meta | Inr m' \<Rightarrow> m', True)))
       = (t, Inr (m', dup))"
      using run failed by (simp add: red s2_def Let_def)
    then have eq: "(case x of Inl e \<Rightarrow> (s2\<lparr>sv_store := u\<rparr>, Inl e)
              | Inr _ \<Rightarrow> (s2\<lparr>sv_store := u\<rparr>, Inr (case get_record H (s2\<lparr>sv_store := u\<rparr>) (Root m) of
                   Inl e \<Rightarrow> zero_meta | Inr m' \<Rightarrow> m', True))) = (t, Inr (m', dup))"
      unfolding u with_store_def prod.case by simp
    then have x1: "x = Inr ()" by (cases x) simp_all
    have c: "s2\<lparr>sv_store := u\<rparr> = t
       \<and> (case get_record H (s2\<lparr>sv_store := u\<rparr>) (Root m) of Inl e \<Rightarrow> zero_meta | Inr m' \<Rightarrow> m') = m'
       \<and> True = dup"
      using eq unfolding x1 sum.case prod.inject sum.inject .
    note x = c [THEN conjunct1, symmetric] c [THEN conjunct2, THEN conjunct2, symmetric]
    have m': "(case get_record H t (Root m) of Inl e \<Rightarrow> zero_meta | Inr m' \<Rightarrow> m') = m'"
      unfolding x(1) by (rule c [THEN conjunct2, THEN conjunct1])
    have "\<not> closed (sv_store t)" using Reenqueue_open [of "sv_store s2" "Root m" u "()"] u x1 x(1) by simp
    then obtain m1 where m1: "get_record H t (Root m) = Inr m1"
      using get_record_open [OF svc_step_inv [OF ok]] by (metis sum.exhaust)
    then have "m' = m1" using m' by simp
    then show ?thesis using x(2) rec [OF m1] by simp
  next
    case plain
    then have t: "t = remove_tmp H s1 tmp" "m' = m" "dup" using run by (simp_all add: red)
    have "spooled s1 (remove_tmp H s1 tmp)" by simp
    then have "sv_store t = sv_store s" using t(1) s1 by (simp add: spooled_def)
    then show ?thesis using t m(1) by simp
  qed
qed

lemma Put_fresh_returns:
  assumes inv: "svc_inv H s" and tmp: "map_of (tmps s) tmp = Some (RegFile data)"
    and new: "BySHA256 H (sv_store s) (sha256_hex H data) = Inr None"
    and run: "Put_fresh H G s tmp data filename contentType = (t, Inr (m', dup))"
  shows "\<not> dup \<and> merkle_root H data = Inr (Root m') \<and> meta_at H (sv_store s) (Root m') = None
    \<and> content_of H (sv_store t) (Root m') = Some (sha256_hex H data, int (length data))
    \<and> meta_at H (sv_store t) (Root m') = Some m'"
proof -
  let ?s2 = "s\<lparr>tick := Suc (Suc (tick s))\<rparr>"
  have ok: "svc_step_ok H s t" by (rule Put_fresh_ok [OF inv tmp run])
  have "Put_fresh H G s tmp data filename contentType = (remove_tmp H (s\<lparr>tick := Suc (tick s)\<rparr>) tmp, Inl er)"
    if "os_fault H (tick s) = Some er" for er using that by (simp add: Put_fresh_def os_call_def)
  then have f1: "os_fault H (tick s) = None" using run by (cases "os_fault H (tick s)") simp_all
  have "Put_fresh H G s tmp data filename contentType = (remove_tmp H ?s2 tmp, Inl er)"
    if "os_fault H (Suc (tick s)) = Some er" for er using that f1 by (simp add: Put_fresh_def os_call_def)
  then have f2: "os_fault H (Suc (tick s)) = None" using run by (cases "os_fault H (Suc (tick s))") simp_all
  note f = f1 f2
  have bad_root: "Put_fresh H G s tmp data filename contentType = (remove_tmp H ?s2 tmp, Inl (Wrapped ''merkle root'' er))"
    if "merkle_root H data = Inl er" for er using that f by (simp add: Put_fresh_def os_call_def)
  obtain root where root: "merkle_root H data = Inr root"
  proof (cases "merkle_root H data")
    case (Inl er)
    then show thesis using bad_root [OF Inl] run by simp
  next
    case (Inr r)
    then show thesis by (rule that)
  qed
  have absent: "meta_at H (sv_store s) root = None"
  proof (rule ccontr)
    assume "meta_at H (sv_store s) root \<noteq> None"
    then obtain m where m: "meta_at H (sv_store s) root = Some m" by auto
    then have "content_of H (sv_store s) root = Some (SHA256 m, Size m)" by (simp add: content_of_def)
    then obtain b where b: "sha256_hex H b = SHA256 m" "merkle_root H b = Inr root"
      using svc_invD(2) [OF inv] by blast
    have "b = data" by (rule root_inj [OF b(2) root])
    then have "SHA256 m = sha256_hex H data" using b(1) by simp
    then show False using BySHA256_read(2) [OF svc_invD(1) [OF inv] new _ m] by simp
  qed
  obtain s3 e where mv: "rename_into_cache H ?s2 tmp root = (s3, e)" by force
  define s4 where "s4 = noteAdded H G s3 (int (length data))"
  define m where "m = zero_meta\<lparr>Root := root, SHA256 := sha256_hex H data,
    MD5 := md5_hex H data, Size := int (length data), Filename := filename,
    ContentType := contentType, Status := StatusPending\<rparr>"
  obtain u x where u: "CreateObject H (sv_store s4) m = (u, x)" by force
  have e: "e = None"
    using run root mv f by (cases e) (simp_all add: Put_fresh_def os_call_def)
  have eq: "(t, Inr (m', dup)) = (case (s4\<lparr>sv_store := u\<rparr>, x) of
                                (s5, Inl e) \<Rightarrow>
                                  if errors_is e ErrExists
                                  then (s5, map_sum id (\<lambda>m'. (m', True)) (get_record H s5 root))
                                  else (s5, Inl e)
                              | (s5, Inr _) \<Rightarrow>
                                  (s5, map_sum id (\<lambda>m'. (m', False)) (get_record H s5 root)))"
    using run root mv e u f
    by (simp add: Put_fresh_def os_call_def Let_def with_store_def s4_def m_def)
  have "sv_store s3 = sv_store s"
    using mv by (cases rule: rename_cases) (simp_all add: spooled_def)
  moreover have "shrunk {r. finalized H (sv_store s) r} s3 s4"
    using noteAdded_shrunk [of s3 G] svc_invD(1) [OF inv] calculation by (simp add: s4_def)
  ultimately have st4: "sv_store s4 = sv_store s" by (simp add: shrunk_def)
  have "meta_inv H (sv_store s)" using svc_invD(1) [OF inv] by (simp add: store_inv_def)
  then have unstored: "bget H (objects (sv_store s)) root = None"
    using absent meta_inv_stored [of H "sv_store s" root] by simp
  have no: "\<not> errors_is er ErrExists" if "x = Inl er" for er
    using CreateObject_exists [OF u [unfolded that]] unstored st4 by (auto simp: m_def)
  from u show ?thesis
  proof (cases rule: CreateObject_cases)
    case (failed er)
    then show ?thesis using eq no by simp
  next
    case (ok m2)
    have t: "sv_store t = u" "\<not> dup" "get_record H t root = Inr m'"
      using eq ok(1) by (auto simp: Inr_map_sum)
    have "meta_at H u root = Some (json_meta m2)" using meta_at_wrote [OF ok(4)] ok(3) by (simp add: m_def)
    then have c: "content_of H (sv_store t) root = Some (sha256_hex H data, int (length data))"
      using ok(3) t(1) sha_ascii by (simp add: content_of_def m_def)
    show ?thesis
      using get_record_content [OF svc_step_inv [OF \<open>svc_step_ok H s t\<close>] c t(3)] c t(2) root absent by simp
  qed
qed

theorem Put_returns:
  assumes inv: "svc_inv H s" and size: "MaxSize G < 2 ^ 63"
    and run: "Put H G s r filename contentType = (t, Inr (m', dup))"
  shows "merkle_root H (rd_data r) = Inr (Root m')
    \<and> content_of H (sv_store t) (Root m') = Some (sha256_hex H (rd_data r), int (length (rd_data r)))
    \<and> meta_at H (sv_store t) (Root m') = Some m'
    \<and> (dup \<longleftrightarrow> meta_at H (sv_store s) (Root m') \<noteq> None)"
  using run
proof (cases rule: Put_cases)
  case (known s3 tmp data m)
  have data: "data = rd_data r" by (rule take_copied [OF known(3-5) size])
  have inv3: "svc_inv H s3" and st3: "sv_store s3 = sv_store s"
    using spooled_inv [OF known(1) inv] known(1) by (auto simp: spooled_def)
  have m: "meta_at H (sv_store s3) (Root m) = Some m" "SHA256 m = sha256_hex H data"
    using BySHA256_read(1) [OF svc_invD(1) [OF inv3] known(6)] by auto
  note ret = Put_known_returns [OF inv3 m known(2,7)]
  have "content_of H (sv_store s3) (Root m) = Some (SHA256 m, Size m)" using m(1) by (simp add: content_of_def)
  then have "content_of H (sv_store t) (Root m) = Some (SHA256 m, Size m)"
    using Put_known_ok [OF inv3 m known(2,7)] by (simp add: svc_step_ok_def)
  then show ?thesis using ret known_root [OF inv3 m] m st3 data by simp
next
  case (fresh s3 tmp data)
  have data: "data = rd_data r" by (rule take_copied [OF fresh(3-5) size])
  have inv3: "svc_inv H s3" and st3: "sv_store s3 = sv_store s"
    using spooled_inv [OF fresh(1) inv] fresh(1) by (auto simp: spooled_def)
  show ?thesis using Put_fresh_returns [OF inv3 fresh(2,6,7)] st3 data by simp
qed simp

end

end
