(* ===== verification/Gateway.thy ===== *)
theory Gateway
  imports Object_Put
begin

text \<open>
  The gateway as a whole: the object service, the worker and the bucket index on one database.
  A state is the chain with the log of its calls, and the service. A step is one request, one
  flush, one poll or a restart, or a system call that none of these makes (a look at the clock,
  a seek in an open file); every system call inside a step may fail.
\<close>

section \<open>Steps\<close>

fun index_op :: "store_op \<Rightarrow> bool" where
  "index_op (OpCreateBucket n now) = True"
| "index_op (OpDeleteBucket n) = True"
| "index_op (OpForceDelete n) = True"
| "index_op (OpPutKey b k r) = True"
| "index_op (OpDeleteKey b k) = True"
| "index_op OpClose = True"
| "index_op _ = False"

type_synonym ('c, 'b, 'd) gateway = "('c \<times> chain_call list) \<times> ('b, 'd) svc"

inductive gw_step ::
  "('b, 'v, 'd, 'z) svc_host_scheme \<Rightarrow> 'c chain \<Rightarrow> worker_config \<Rightarrow> svc_config
     \<Rightarrow> ('c, 'b, 'd) gateway \<Rightarrow> ('c, 'b, 'd) gateway \<Rightarrow> bool"
  for H :: "('b, 'v, 'd, 'z) svc_host_scheme" and C :: "'c chain" and W :: worker_config and G :: svc_config
where
  gw_put: "Put H G v r filename contentType = (v', x) \<Longrightarrow> gw_step H C W G (cl, v) (cl, v')"
| gw_open: "Open H G v root = (v', y) \<Longrightarrow> gw_step H C W G (cl, v) (cl, v')"
| gw_admit: "ShouldRejectWrite H G v = (v', reject) \<Longrightarrow> gw_step H C W G (cl, v) (cl, v')"
| gw_index: "store_exec H (sv_store v) p = Some (t, z) \<Longrightarrow> op_ok H (sv_store v) p \<Longrightarrow> index_op p \<Longrightarrow>
    gw_step H C W G (cl, v) (cl, v\<lparr>sv_store := t\<rparr>)"
| gw_flush: "Flush H (logged C) W (cl, sv_store v) = Some ((cl', t), e) \<Longrightarrow> 0 < BatchMax W \<Longrightarrow>
    gw_step H C W G (cl, v) (cl', v\<lparr>sv_store := t\<rparr>)"
| gw_poll: "PollFinality H (logged C) (cl, sv_store v) = ((cl', t), e) \<Longrightarrow>
    gw_step H C W G (cl, v) (cl', v\<lparr>sv_store := t\<rparr>)"
| gw_restart: "New_service H G v = (v', u) \<Longrightarrow> gw_step H C W G (cl, v) (cl, v')"
| gw_tick: "gw_step H C W G (cl, v) (cl, v\<lparr>tick := Suc (tick v)\<rparr>)"

text \<open>The gateway starts on an empty database and an empty cache directory.\<close>

definition gw_start :: "('b, 'v, 'd, 'z) svc_host_scheme \<Rightarrow> ('c, 'b, 'd) gateway \<Rightarrow> bool" where
  "gw_start H cv \<longleftrightarrow> store_start H (sv_store (snd cv)) \<and> objs (snd cv) = [] \<and> snd (fst cv) = []"

definition gw_reachable ::
  "('b, 'v, 'd, 'z) svc_host_scheme \<Rightarrow> 'c chain \<Rightarrow> worker_config \<Rightarrow> svc_config
     \<Rightarrow> ('c, 'b, 'd) gateway \<Rightarrow> bool" where
  "gw_reachable H C W G cv \<longleftrightarrow> (\<exists>cv0. gw_start H cv0 \<and> (gw_step H C W G)\<^sup>*\<^sup>* cv0 cv)"

lemma gw_reachable_start: "gw_start H cv \<Longrightarrow> gw_reachable H C W G cv"
  unfolding gw_reachable_def by (intro exI conjI) (assumption, rule rtranclp.rtrancl_refl)

lemma gw_reachable_run:
  assumes "gw_reachable H C W G cv" and "(gw_step H C W G)\<^sup>*\<^sup>* cv cw"
  shows "gw_reachable H C W G cw"
proof -
  obtain c0 where "gw_start H c0" "(gw_step H C W G)\<^sup>*\<^sup>* c0 cv"
    using assms(1) unfolding gw_reachable_def by (elim exE conjE)
  then show ?thesis
    unfolding gw_reachable_def by (intro exI conjI) (assumption, erule rtranclp_trans, rule assms(2))
qed

text \<open>The view of the worker: the database without the directories.\<close>

definition gw_world :: "('c, 'b, 'd) gateway \<Rightarrow> ('c, 'b) world" where
  "gw_world cv = (fst cv, sv_store (snd cv))"

section \<open>The invariant\<close>

context store_host
begin

text \<open>Worker writes keep the content of every object.\<close>

lemma touched_content: "touched H R l s t \<Longrightarrow> store_inv H s \<Longrightarrow> content_of H t = content_of H s"
proof (induction rule: touched.induct)
  case (touched_step s t p u x)
  have "p \<noteq> OpCreate m" for m using touched_step.hyps(2) by auto
  then have "content_of H u = content_of H t"
    by (rule store_exec_content [OF touched_inv [OF touched_step.hyps(1) touched_step.prems] touched_step.hyps(3)])
  then show ?case using touched_step by simp
qed simp

end

context collision_free
begin

lemma touched_svc_inv:
  assumes inv: "svc_inv H v" and t: "touched H R l (sv_store v) t"
    and R: "\<And>r. r \<in> R \<Longrightarrow> \<not> finalized H (sv_store v) r"
  shows "svc_inv H (v\<lparr>sv_store := t\<rparr>) \<and> content_of H t = content_of H (sv_store v)"
proof -
  note s = svc_invD(1) [OF inv]
  have "finalized H t r" if "finalized H (sv_store v) r" for r
  proof -
    have "r \<notin> R" using R [of r] that by blast
    then show ?thesis using that finalized_frame [OF touched_frame [OF t s]] by simp
  qed
  then show ?thesis
    using svc_inv_store [OF inv touched_inv [OF t s] touched_content [OF t s]] touched_content [OF t s] by blast
qed

lemma flush_svc_inv:
  assumes inv: "svc_inv H v" and pos: "0 < BatchMax W"
    and run: "Flush H (logged C) W (cl, sv_store v) = Some ((cl', t), e)"
  shows "svc_inv H (v\<lparr>sv_store := t\<rparr>) \<and> content_of H t = content_of H (sv_store v)"
proof (cases "closed (sv_store v)")
  case True
  then have "t = sv_store v"
    using run by (auto simp: Flush_def UploadQueue_def listQueue_def db_view_def)
  then show ?thesis using inv by simp
next
  case False
  obtain c l where cl: "cl = (c, l)" by force
  obtain ms :: "object_meta list" and c1 l1 s1 e1 where
    f: "Flush H (logged C) W ((c, l), sv_store v) = Some (((c1, l1), s1), e1)"
    and ms: "set ms = {m. meta_at H (sv_store v) (Root m) = Some m \<and> in_upload (Status m)}"
    and "flush_done H W (sv_store v) l (map Root ms) l1 s1"
    using Flush_calls [OF svc_invD(1) [OF inv] False pos, of C c l] by blast
  then obtain new where "touched H (set (map Root ms)) new (sv_store v) s1" by (auto simp: flush_done_def)
  moreover have "\<not> finalized H (sv_store v) r" if "r \<in> set (map Root ms)" for r
    using that ms by (auto simp: finalized_def in_upload_def)
  ultimately show ?thesis using touched_svc_inv [OF inv] f run cl by simp
qed

lemma poll_svc_inv:
  assumes inv: "svc_inv H v" and run: "PollFinality H (logged C) (cl, sv_store v) = ((cl', t), e)"
  shows "svc_inv H (v\<lparr>sv_store := t\<rparr>) \<and> content_of H t = content_of H (sv_store v)"
proof -
  obtain c l where cl: "cl = (c, l)" by force
  obtain d new u e1 where p: "PollFinality H (logged C) ((c, l), sv_store v) = (((d, l @ new), u), e1)"
    and t: "touched H {r. \<exists>m. meta_at H (sv_store v) r = Some m \<and> Status m = StatusOnchain} new (sv_store v) u"
    using PollFinality_calls [OF svc_invD(1) [OF inv], of C c l] by blast
  have "\<not> finalized H (sv_store v) r"
    if "r \<in> {r. \<exists>m. meta_at H (sv_store v) r = Some m \<and> Status m = StatusOnchain}" for r
    using that by (auto simp: finalized_def)
  then show ?thesis using touched_svc_inv [OF inv t] p run cl by simp
qed

lemma index_svc_inv:
  assumes inv: "svc_inv H v" and run: "store_exec H (sv_store v) p = Some (t, x)"
    and ok: "op_ok H (sv_store v) p" "index_op p"
  shows "svc_inv H (v\<lparr>sv_store := t\<rparr>) \<and> content_of H t = content_of H (sv_store v)"
proof -
  note s = svc_invD(1) [OF inv]
  have "p \<noteq> OpCreate m" for m using ok(2) by auto
  then have c: "content_of H t = content_of H (sv_store v)" by (rule store_exec_content [OF s run])
  have "objects t = objects (sv_store v)"
    using run ok(2)
    by (cases p) (auto simp: Close_store_def same_data_def same_objects_def
        elim!: S3CreateBucket_cases S3DeleteBucket_cases S3ForceDeleteBucket_cases
          S3PutObjectKey_cases S3DeleteObjectKey_cases)
  then have "finalized H t r = finalized H (sv_store v) r" for r
    using meta_at_cong [of t "sv_store v" H] by (simp add: finalized_def)
  then show ?thesis using svc_inv_store [OF inv store_exec_inv [OF run ok(1) s] c] c by simp
qed

text \<open>Every step keeps the invariant and every content record.\<close>

lemma gw_step_ok:
  assumes "gw_step H C W G (cl, v) (cl', v')" and "svc_inv H v"
  shows "svc_inv H v'
    \<and> (\<forall>r c. content_of H (sv_store v) r = Some c \<longrightarrow> content_of H (sv_store v') r = Some c)"
  using assms(1)
proof cases
  case gw_put
  then show ?thesis using Put_ok [OF assms(2)] by (simp add: svc_step_ok_def)
next
  case gw_open
  then show ?thesis using Open_ok [OF assms(2)] by (simp add: svc_step_ok_def)
next
  case (gw_admit reject)
  then show ?thesis using ShouldRejectWrite_ok [OF assms(2), of G] by (simp add: svc_step_ok_def)
next
  case gw_index
  then show ?thesis using index_svc_inv [OF assms(2)] by auto
next
  case (gw_flush t e)
  then show ?thesis using flush_svc_inv [OF assms(2) gw_flush(3,2)] by simp
next
  case (gw_poll t e)
  then show ?thesis using poll_svc_inv [OF assms(2) gw_poll(2)] by simp
next
  case gw_restart
  then show ?thesis using New_service_ok [OF assms(2)] by (simp add: svc_step_ok_def)
next
  case gw_tick
  then show ?thesis using assms(2) by (simp add: svc_inv_def)
qed

lemma gw_start_inv: "gw_start H cv \<Longrightarrow> svc_inv H (snd cv)"
proof -
  assume start: "gw_start H cv"
  then have st: "store_inv H (sv_store (snd cv))" using store_start_inv by (simp add: gw_start_def)
  obtain u where u: "sv_store (snd cv) = u" by simp
  have "meta_at H (sv_store (snd cv)) r = None" for r
    using start get_empty unfolding u gw_start_def
    by (auto simp: store_start_def Open_store_def create_if_not_exists_def meta_at_def
        split: option.splits)
  then show ?thesis using start st by (auto simp: svc_inv_def content_of_def gw_start_def)
qed

end

sublocale collision_free \<subseteq> gw: invariant_system "gw_start H" "gw_step H C W G" "\<lambda>cv. svc_inv H (snd cv)"
  for C W G
  by unfold_locales (use gw_start_inv gw_step_ok in fastforce)+

context collision_free
begin

lemma gw_reachable_inv: "gw_reachable H C W G cv \<Longrightarrow> svc_inv H (snd cv)"
  unfolding gw_reachable_def using gw.inv_reachable by blast

text \<open>Content records live as long as the database.\<close>

lemma gw_run_content:
  assumes "(gw_step H C W G)\<^sup>*\<^sup>* cv cw" and "svc_inv H (snd cv)"
    and "content_of H (sv_store (snd cv)) r = Some c"
  shows "svc_inv H (snd cw) \<and> content_of H (sv_store (snd cw)) r = Some c"
  using assms(1)
proof (induction rule: rtranclp_induct)
  case (step x y)
  then show ?case using gw_step_ok [of C W G "fst x" "snd x" "fst y" "snd y"] by (cases c) simp
qed (use assms in simp)

end

section \<open>The worker's view\<close>

text \<open>
  What the gateway does to chain and database is a run of the system of \<open>Uploader_Run\<close>: a
  request is a sequence of client operations.
\<close>

context collision_free
begin

lemma client_run: "(client_step H)\<^sup>*\<^sup>* s t \<Longrightarrow> (sys_step H C W)\<^sup>*\<^sup>* (cl, s) (cl, t)"
proof (induction rule: rtranclp_induct)
  case (step t u)
  then obtain p x where "store_exec H t p = Some (u, x)" "op_ok H t p" "request_op p"
    by (auto simp: client_step_def)
  moreover from this have "client_op p" by (cases p) simp_all
  ultimately have "sys_step H C W (cl, t) (cl, u)" by (intro sys_client)
  then show ?case using step.IH by (rule rtranclp.rtrancl_into_rtrancl [rotated])
qed simp

lemma client_of:
  "svc_step_ok H v v' \<Longrightarrow> (sys_step H C W)\<^sup>*\<^sup>* (cl, sv_store v) (cl, sv_store v')"
  by (rule client_run) (simp add: svc_step_ok_def)

lemma gw_step_refines:
  assumes "gw_step H C W G (cl, v) (cl', v')" and "svc_inv H v"
  shows "(sys_step H C W)\<^sup>*\<^sup>* (cl, sv_store v) (cl', sv_store v')"
  using assms(1)
proof cases
  case (gw_put r filename contentType x)
  then show ?thesis using client_of [OF Put_ok [OF assms(2) gw_put(2)]] by simp
next
  case (gw_open root y)
  then show ?thesis using client_of [OF Open_ok [OF assms(2) gw_open(2)]] by simp
next
  case (gw_admit reject)
  then show ?thesis using client_of [OF ShouldRejectWrite_ok [OF assms(2), of G]] by simp
next
  case (gw_index p t z)
  have "client_op p" using gw_index(5) by (cases p) simp_all
  then have "sys_step H C W (cl, sv_store v) (cl, t)" by (rule sys_client [OF gw_index(3,4)])
  then show ?thesis using gw_index(1,2) by (simp add: r_into_rtranclp)
next
  case (gw_flush t e)
  have "sys_step H C W (cl, sv_store v) (cl', t)" by (rule sys_flush [OF gw_flush(2,3)])
  then show ?thesis using gw_flush(1) by (simp add: r_into_rtranclp)
next
  case (gw_poll t e)
  have "sys_step H C W (cl, sv_store v) (cl', t)" by (rule sys_poll [OF gw_poll(2)])
  then show ?thesis using gw_poll(1) by (simp add: r_into_rtranclp)
next
  case (gw_restart u)
  then show ?thesis using client_of [OF New_service_ok [OF assms(2) gw_restart(2)]] by simp
next
  case gw_tick
  then show ?thesis by simp
qed

lemma gw_run_refines:
  assumes "(gw_step H C W G)\<^sup>*\<^sup>* cv cw" and "svc_inv H (snd cv)"
  shows "(sys_step H C W)\<^sup>*\<^sup>* (gw_world cv) (gw_world cw)"
  using assms(1)
proof (induction rule: rtranclp_induct)
  case (step x y)
  have "svc_inv H (snd x)" using gw.inv_run [OF step.hyps(1)] assms(2) by blast
  then have "(sys_step H C W)\<^sup>*\<^sup>* (gw_world x) (gw_world y)"
    using gw_step_refines [of C W G "fst x" "snd x" "fst y" "snd y"] step.hyps(2) by (simp add: gw_world_def)
  with step.IH show ?case by (rule rtranclp_trans)
qed simp

lemma gw_refines:
  assumes "gw_reachable H C W G cv"
  shows "sys_reachable H C W (gw_world cv)"
proof -
  obtain cv0 where cv0: "gw_start H cv0" "(gw_step H C W G)\<^sup>*\<^sup>* cv0 cv"
    using assms by (auto simp: gw_reachable_def)
  have "sys_start H (gw_world cv0)" using cv0(1) by (simp add: gw_start_def sys_start_def gw_world_def)
  then show ?thesis
    unfolding sys_reachable_def using gw_run_refines [OF cv0(2) gw_start_inv [OF cv0(1)]] by blast
qed

end

end
