(* ===== verification/Object_Limits.thy ===== *)
theory Object_Limits
  imports Object_Put
begin

text \<open>
  The service on a good day, when no system call fails: eviction stops at the low-water mark and
  takes the least recently used files, uploads leave nothing in the spool, and a restart clears
  it.
\<close>

text \<open>The stream that \<open>Put\<close> copies, and the bytes of the regular files of a directory.\<close>

definition put_src :: "svc_config \<Rightarrow> reader \<Rightarrow> reader" where
  "put_src G r = (if 0 < MaxSize G then limit_reader r (int64 (MaxSize G + 1)) else r)"

definition dir_bytes :: "dir \<Rightarrow> int" where
  "dir_bytes d = sum_list (map (\<lambda>e. case snd e of RegFile b \<Rightarrow> int (length b) | SubDir k \<Rightarrow> 0) d)"

lemma dir_bytes_simps [simp]:
  "dir_bytes [] = 0"
  "dir_bytes ((n, RegFile b) # d) = int (length b) + dir_bytes d"
  "dir_bytes ((n, SubDir k) # d) = dir_bytes d"
  by (simp_all add: dir_bytes_def)

lemma dir_bytes_nonneg: "0 \<le> dir_bytes d"
proof (induction d)
  case (Cons e d)
  obtain n x where "e = (n, x)" by force
  with Cons show ?case by (cases x) simp_all
qed simp

section \<open>No failing call\<close>

locale svc_quiet = svc_env +
  assumes no_fault: "os_fault H n = None"
begin

lemma os_call_quiet [simp]: "os_call H s = (s\<lparr>tick := Suc (tick s)\<rparr>, None)"
  by (simp add: os_call_def no_fault)

lemma remove_tmp_quiet [simp]:
  "remove_tmp H s n = s\<lparr>tick := Suc (tick s), tmps := dir_del (tmps s) n\<rparr>"
  by (simp add: remove_tmp_def)

section \<open>Eviction\<close>

text \<open>
  The loop takes a prefix of the candidates: their files are gone afterwards and every other
  file is there, and it stops early only at the mark.
\<close>

lemma evict_loop_prefix:
  assumes "\<forall>r y. map_of (objs s) r = Some y \<longrightarrow> (\<exists>b. y = RegFile b)"
  shows "\<exists>gone kept. cands = gone @ kept
    \<and> (\<forall>r. map_of (objs (evict_loop H low s cands)) r
           = (if r \<in> CERoot ` set gone then None else map_of (objs s) r))
    \<and> (kept = [] \<or> cacheBytes (evict_loop H low s cands) \<le> low)"
  using assms
proof (induction cands arbitrary: s)
  case (Cons c cands)
  show ?case
  proof (cases "cacheBytes s \<le> low")
    case True
    then show ?thesis by (intro exI [of _ "[]"] exI [of _ "c # cands"]) simp
  next
    case False
    obtain u where u: "evict_loop H low s (c # cands) = evict_loop H low u cands"
      "map_of (objs u) = (map_of (objs s))(CERoot c := None)"
    proof (cases "map_of (objs s) (CERoot c)")
      case None
      then show thesis using False that [of "s\<lparr>tick := Suc (tick s)\<rparr>"] by (simp add: fun_upd_idem)
    next
      case (Some y)
      then obtain b where "map_of (objs s) (CERoot c) = Some (RegFile b)" using Cons.prems by blast
      then show thesis
        using False that [of "s\<lparr>tick := Suc (Suc (tick s)), objs := dir_del (objs s) (CERoot c),
            cacheBytes := int64 (cacheBytes s - int (length b))\<rparr>"] by simp
    qed
    have "\<forall>r y. map_of (objs u) r = Some y \<longrightarrow> (\<exists>b. y = RegFile b)"
      using Cons.prems by (simp add: u(2))
    then obtain gone kept where g: "cands = gone @ kept"
      "\<forall>r. map_of (objs (evict_loop H low u cands)) r
           = (if r \<in> CERoot ` set gone then None else map_of (objs u) r)"
      "kept = [] \<or> cacheBytes (evict_loop H low u cands) \<le> low"
      using Cons.IH [of u] by blast
    show ?thesis
      unfolding u(1) by (rule exI [of _ "c # gone"], rule exI [of _ kept]) (use g u(2) in auto)
  qed
qed simp

lemma evictIfNeeded_quiet:
  assumes inv: "svc_inv H s" and open_db: "\<not> closed (sv_store s)" and idle: "\<not> evicting s"
    and over: "0 < CacheMaxBytes G" "CacheMaxBytes G < cacheBytes s"
  obtains gone kept where
    "sorted (map CELastAccess (gone @ kept))"
    "set (gone @ kept) = {\<lparr>CERoot = Root m, CESize = Size m, CELastAccess = LastAccess m\<rparr> | m.
       meta_at H (sv_store s) (Root m) = Some m \<and> Status m = StatusFinalized}"
    "\<And>r. map_of (objs (evictIfNeeded H G s)) r
       = (if r \<in> CERoot ` set gone then None else map_of (objs s) r)"
    "kept = [] \<or> cacheBytes (evictIfNeeded H G s) \<le> CacheMaxBytes G - CacheMaxBytes G div 10"
proof -
  obtain es where es: "FinalizedCacheEntries H (sv_store s) = Inr es"
    "set es = {\<lparr>CERoot = Root m, CESize = Size m, CELastAccess = LastAccess m\<rparr> | m.
       meta_at H (sv_store s) (Root m) = Some m \<and> Status m = StatusFinalized}"
    using cache_entries_read [OF svc_invD(1) [OF inv] open_db] by blast
  define low where "low = CacheMaxBytes G - CacheMaxBytes G div 10"
  define u where "u = evict_loop H low (s\<lparr>evicting := True\<rparr>) (sort_lru H es)"
  have t: "evictIfNeeded H G s = u\<lparr>evicting := False\<rparr>"
    using over idle es(1) by (simp add: evictIfNeeded_def Let_def u_def low_def)
  have "\<forall>r y. map_of (objs (s\<lparr>evicting := True\<rparr>)) r = Some y \<longrightarrow> (\<exists>b. y = RegFile b)"
    using svc_invD(3) [OF inv] by auto
  from evict_loop_prefix [OF this, of "sort_lru H es" low, folded u_def]
  obtain gone kept where g0: "sort_lru H es = gone @ kept"
    "\<forall>r. map_of (objs u) r = (if r \<in> CERoot ` set gone then None else map_of (objs (s\<lparr>evicting := True\<rparr>)) r)"
    "kept = [] \<or> cacheBytes u \<le> low" by blast
  have same: "objs (s\<lparr>evicting := True\<rparr>) = objs s" by simp
  note g = g0(1) g0(2) [unfolded same] g0(3)
  show thesis
  proof (rule that [of gone kept])
    show "sorted (map CELastAccess (gone @ kept))" using sort_sorted [of es] unfolding g(1) .
    have "set (gone @ kept) = set es" using sort_set [of es] unfolding g(1) .
    then show "set (gone @ kept) = {\<lparr>CERoot = Root m, CESize = Size m, CELastAccess = LastAccess m\<rparr> | m.
       meta_at H (sv_store s) (Root m) = Some m \<and> Status m = StatusFinalized}" using es(2) by simp
  qed (use g t in \<open>simp_all add: low_def\<close>)
qed

text \<open>What is left after an eviction, in terms of the records.\<close>

lemma eviction_outcome:
  assumes inv: "svc_inv H s" and open_db: "\<not> closed (sv_store s)" and idle: "\<not> evicting s"
    and over: "0 < CacheMaxBytes G" "CacheMaxBytes G < cacheBytes s"
  shows "cacheBytes (evictIfNeeded H G s) \<le> CacheMaxBytes G - CacheMaxBytes G div 10
      \<or> (\<forall>r. finalized H (sv_store s) r \<longrightarrow> map_of (objs (evictIfNeeded H G s)) r = None)"
    and "map_of (objs s) r \<noteq> None \<Longrightarrow> map_of (objs (evictIfNeeded H G s)) r = None \<Longrightarrow>
      meta_at H (sv_store s) r' = Some m' \<Longrightarrow> Status m' = StatusFinalized \<Longrightarrow>
      map_of (objs (evictIfNeeded H G s)) r' \<noteq> None \<Longrightarrow>
      \<exists>m. meta_at H (sv_store s) r = Some m \<and> Status m = StatusFinalized \<and> LastAccess m \<le> LastAccess m'"
proof -
  obtain gone kept where g: "sorted (map CELastAccess (gone @ kept))"
    "set (gone @ kept) = {\<lparr>CERoot = Root m, CESize = Size m, CELastAccess = LastAccess m\<rparr> | m.
       meta_at H (sv_store s) (Root m) = Some m \<and> Status m = StatusFinalized}"
    "\<And>r. map_of (objs (evictIfNeeded H G s)) r
       = (if r \<in> CERoot ` set gone then None else map_of (objs s) r)"
    "kept = [] \<or> cacheBytes (evictIfNeeded H G s) \<le> CacheMaxBytes G - CacheMaxBytes G div 10"
    using evictIfNeeded_quiet [OF assms] by blast
  have cand: "\<lparr>CERoot = r, CESize = Size m, CELastAccess = LastAccess m\<rparr> \<in> set gone \<union> set kept"
    if "meta_at H (sv_store s) r = Some m" "Status m = StatusFinalized" for r m
    using g(2) that meta_at_root [OF inv that(1)] by auto
  have None: "map_of (objs (evictIfNeeded H G s)) r = None"
    if "finalized H (sv_store s) r" "kept = []" for r
  proof -
    note fin = that(1) and empty = that(2)
    obtain m where m: "meta_at H (sv_store s) r = Some m" "Status m = StatusFinalized"
      using fin by (auto simp: finalized_def)
    have "\<lparr>CERoot = r, CESize = Size m, CELastAccess = LastAccess m\<rparr> \<in> set gone"
      using cand [OF m] empty by simp
    then have "r \<in> CERoot ` set gone" by force
    then show ?thesis by (simp add: g(3))
  qed
  show "cacheBytes (evictIfNeeded H G s) \<le> CacheMaxBytes G - CacheMaxBytes G div 10
      \<or> (\<forall>r. finalized H (sv_store s) r \<longrightarrow> map_of (objs (evictIfNeeded H G s)) r = None)"
    using g(4) None by blast
  assume r: "map_of (objs s) r \<noteq> None" "map_of (objs (evictIfNeeded H G s)) r = None"
    and r': "meta_at H (sv_store s) r' = Some m'" "Status m' = StatusFinalized"
      "map_of (objs (evictIfNeeded H G s)) r' \<noteq> None"
  have "r \<in> CERoot ` set gone" using r g(3) [of r] by (auto split: if_splits)
  then obtain c where c: "c \<in> set gone" "CERoot c = r" by blast
  then have "c \<in> set (gone @ kept)" by simp
  then obtain m where m: "meta_at H (sv_store s) r = Some m" "Status m = StatusFinalized"
    "CELastAccess c = LastAccess m" unfolding g(2) using c(2) by auto
  have "r' \<notin> CERoot ` set gone" using r'(3) g(3) [of r'] by (auto split: if_splits)
  then have "\<lparr>CERoot = r', CESize = Size m', CELastAccess = LastAccess m'\<rparr> \<in> set kept"
    using cand [OF r'(1,2)] image_eqI [of r' CERoot "\<lparr>CERoot = r', CESize = Size m', CELastAccess = LastAccess m'\<rparr>" "set gone"]
    by auto
  then have "LastAccess m \<le> LastAccess m'"
    using g(1) c(1) m(3) unfolding map_append sorted_append by fastforce
  then show "\<exists>m. meta_at H (sv_store s) r = Some m \<and> Status m = StatusFinalized \<and> LastAccess m \<le> LastAccess m'"
    using m by blast
qed

section \<open>The spool\<close>

lemma evictIfNeeded_tmps [simp]: "tmps (evictIfNeeded H G s) = tmps s"
proof -
  have "tmps (evict_loop H low u cands) = tmps u" for low cands u
    using evict_loop_shrunk [of cands u H low] by (simp add: shrunk_def)
  then show ?thesis by (simp add: evictIfNeeded_def Let_def split: sum.splits)
qed

lemma noteAdded_tmps [simp]: "tmps (noteAdded H G s n) = tmps s"
  by (simp add: noteAdded_def)

lemma with_store_tmps: "tmps (fst (with_store s x)) = tmps s"
  by (simp add: with_store_def split: prod.splits)

lemma dir_del_twice [simp]: "dir_del (dir_del d n) n = dir_del d n"
  by (simp add: dir_del_def)

lemma dir_del_put [simp]: "dir_del (dir_put d n x) n = dir_del d n"
  by (simp add: dir_del_def dir_put_def)

lemma dir_del_fresh: "n \<notin> set (map fst d) \<Longrightarrow> dir_del d n = d"
  unfolding dir_del_def by (rule filter_True) auto

lemma rename_tmps:
  "rename_into_cache H s n dst = (t, None) \<Longrightarrow> tmps t = dir_del (tmps s) n"
  "rename_into_cache H s n dst = (t, Some e) \<Longrightarrow> tmps t = tmps s"
  by (auto simp: rename_into_cache_def split: option.splits fnode.splits)

lemma materialize_tmps: "tmps (fst (materialize H s n dst)) = dir_del (tmps s) n"
  by (auto simp: materialize_def split: option.splits prod.splits dest: rename_tmps)

lemma io_copy_tmps: "io_copy H s n r = (t, x) \<Longrightarrow> dir_del (tmps t) n = dir_del (tmps s) n"
  by (auto simp: io_copy_def Let_def split: option.splits)

lemma Put_known_tmps: "tmps (fst (Put_known H G s tmp m)) = dir_del (tmps s) tmp"
proof -
  obtain s1 needs where n: "(if Status m \<noteq> StatusFinalized
            then (case fileExists H s (Root m) of (s1, there) \<Rightarrow> (s1, \<not> there))
            else (s, False)) = (s1, needs)" by force
  have s1: "tmps s1 = tmps s"
    using n fileExists_eq [of H s "Root m"] by (auto split: if_splits prod.splits)
  obtain s2 e where mat: "materialize H s1 tmp (Root m) = (s2, e)" by force
  have s2: "tmps s2 = dir_del (tmps s) tmp" using materialize_tmps [of s1 tmp "Root m"] mat s1 by simp
  have done_tmps: "tmps (fst (case with_store u x of (s4, Inl e) \<Rightarrow> (s4, Inl e) | (s4, Inr a) \<Rightarrow> (s4, f s4 a))) = tmps u"
    for u :: "('a, 'c) svc" and x :: "'a store \<times> unit result" and f :: "_ \<Rightarrow> _ \<Rightarrow> (object_meta \<times> bool) result"
    using with_store_tmps [of u x] by (auto split: prod.splits sum.splits)
  show ?thesis
    unfolding Put_known_def n
    by (cases e) (simp_all add: mat s1 s2 Let_def done_tmps)
qed

lemma Put_fresh_tmps: "tmps (fst (Put_fresh H G s tmp data filename contentType)) = dir_del (tmps s) tmp"
proof (cases "merkle_root H data")
  case (Inl e)
  then show ?thesis by (simp add: Put_fresh_def)
next
  case (Inr root)
  let ?s2 = "s\<lparr>tick := Suc (Suc (tick s))\<rparr>"
  obtain s3 e where mv: "rename_into_cache H ?s2 tmp root = (s3, e)" by force
  show ?thesis
  proof (cases e)
    case None
    have "tmps s3 = dir_del (tmps s) tmp" using rename_tmps(1) [OF mv [unfolded None]] by simp
    moreover have "tmps (fst (case with_store u x of (s5, Inl e) \<Rightarrow> (if b e then (s5, f s5) else (s5, Inl e))
          | (s5, Inr a) \<Rightarrow> (s5, g s5))) = tmps u"
      for u :: "('a, 'c) svc" and x :: "'a store \<times> unit result" and b
        and f g :: "_ \<Rightarrow> (object_meta \<times> bool) result"
      using with_store_tmps [of u x] by (auto split: prod.splits sum.splits)
    ultimately show ?thesis using mv Inr None by (simp add: Put_fresh_def Let_def)
  next
    case (Some er)
    then show ?thesis using mv Inr rename_tmps(2) [OF mv [unfolded Some]] by (simp add: Put_fresh_def)
  qed
qed

text \<open>The start of an upload.\<close>

lemma Put_quiet:
  obtains s3 tmp where "spooled s s3" "sv_dl s3 = sv_dl s" "cacheBytes s3 = cacheBytes s"
    "dir_del (tmps s3) tmp = tmps s"
    "Put H G s r filename contentType =
       (case rd_err (put_src G r) of
          Some e \<Rightarrow> (remove_tmp H s3 tmp, Inl e)
        | None \<Rightarrow>
            (let data = rd_data (put_src G r) in
             if data = [] then (remove_tmp H s3 tmp, Inl ErrEmpty)
             else if 0 < MaxSize G \<and> MaxSize G < int (length data) then (remove_tmp H s3 tmp, Inl ErrTooLarge)
             else
               (case BySHA256 H (sv_store s3) (sha256_hex H data) of
                  Inl e \<Rightarrow> (remove_tmp H s3 tmp, Inl e)
                | Inr (Some m) \<Rightarrow> Put_known H G s3 tmp m
                | Inr None \<Rightarrow> Put_fresh H G s3 tmp data filename contentType)))"
proof -
  define tmp where "tmp = temp_name H (map fst (tmps s)) (tick s)"
  define s3 where "s3 = s\<lparr>tick := Suc (Suc (tick s)),
    tmps := dir_put (dir_put (tmps s) tmp (RegFile [])) tmp (RegFile (rd_data (put_src G r)))\<rparr>"
  have "tmp \<notin> set (map fst (tmps s))" unfolding tmp_def by (rule temp_fresh)
  then have "dir_del (tmps s3) tmp = tmps s" by (simp add: s3_def dir_del_fresh)
  moreover have "spooled s s3" by (simp add: s3_def)
  moreover have "sv_dl s3 = sv_dl s" "cacheBytes s3 = cacheBytes s" by (simp_all add: s3_def)
  moreover have "io_copy H (s\<lparr>tick := Suc (tick s), tmps := dir_put (tmps s) tmp (RegFile [])\<rparr>) tmp (put_src G r)
     = (s3, case rd_err (put_src G r) of Some e \<Rightarrow> Inl e | None \<Rightarrow> Inr (rd_data (put_src G r)))"
    by (simp add: io_copy_def s3_def Let_def split: option.splits)
  ultimately show thesis
    by (intro that [of s3 tmp]; (assumption | simp add: Put_def Let_def tmp_def [symmetric] put_src_def [symmetric]
        split: option.splits))
qed

lemma Put_tmps: "tmps (fst (Put H G s r filename contentType)) = tmps s"
proof -
  obtain s3 tmp where p: "spooled s s3" "dir_del (tmps s3) tmp = tmps s"
    "Put H G s r filename contentType =
       (case rd_err (put_src G r) of
          Some e \<Rightarrow> (remove_tmp H s3 tmp, Inl e)
        | None \<Rightarrow>
            (let data = rd_data (put_src G r) in
             if data = [] then (remove_tmp H s3 tmp, Inl ErrEmpty)
             else if 0 < MaxSize G \<and> MaxSize G < int (length data) then (remove_tmp H s3 tmp, Inl ErrTooLarge)
             else
               (case BySHA256 H (sv_store s3) (sha256_hex H data) of
                  Inl e \<Rightarrow> (remove_tmp H s3 tmp, Inl e)
                | Inr (Some m) \<Rightarrow> Put_known H G s3 tmp m
                | Inr None \<Rightarrow> Put_fresh H G s3 tmp data filename contentType)))"
    by (rule Put_quiet)
  show ?thesis
    unfolding p(3) Let_def
    by (simp add: p(2) Put_known_tmps Put_fresh_tmps split: option.splits sum.splits)
qed

section \<open>Construction\<close>

lemma clear_loop_quiet:
  "clear_loop H s es = (clear_loop H s es)\<lparr>tick := tick (clear_loop H s es)\<rparr>
   \<and> tmps (clear_loop H s es) = filter (\<lambda>e. \<nexists>b. (fst e, RegFile b) \<in> set es) (tmps s)"
proof (induction es arbitrary: s)
  case (Cons e es)
  obtain n x where e: "e = (n, x)" by force
  show ?case
  proof (cases x)
    case (RegFile b)
    have "filter (\<lambda>e. \<nexists>b. (fst e, RegFile b) \<in> set es) (dir_del (tmps s) n)
        = filter (\<lambda>e. \<nexists>c. (fst e, RegFile c) \<in> set ((n, RegFile b) # es)) (tmps s)"
      unfolding dir_del_def filter_filter by (rule filter_cong) auto
    then show ?thesis using Cons.IH by (simp add: e RegFile)
  next
    case (SubDir k)
    then show ?thesis using Cons.IH [of s] by (simp add: e)
  qed
qed simp

lemma clearDir_quiet: "(n, RegFile b) \<notin> set (tmps (clearDir H s))"
  using clear_loop_quiet [of "s\<lparr>tick := Suc (tick s)\<rparr>" "tmps s"] by (auto simp: clearDir_def)

lemma clear_loop_spool_only:
  "sv_dl (clear_loop H s es) = sv_dl s \<and> cacheBytes (clear_loop H s es) = cacheBytes s"
  by (induction H s es rule: clear_loop.induct) (use no_fault in \<open>auto simp: remove_tmp_def os_call_def split: option.splits\<close>)

lemma size_loop_quiet:
  "0 \<le> acc \<Longrightarrow> acc + dir_bytes es < 2 ^ 63 \<Longrightarrow>
   snd (size_loop H s es acc) = acc + dir_bytes es \<and> tmps (fst (size_loop H s es acc)) = tmps s"
proof (induction es arbitrary: s acc)
  case (Cons e es)
  obtain n x where e: "e = (n, x)" by force
  show ?case
  proof (cases x)
    case (RegFile b)
    have "acc + int (length b) < 2 ^ 63" using Cons.prems dir_bytes_nonneg [of es] by (simp add: e RegFile)
    then have "int64 (acc + int (length b)) = acc + int (length b)" using Cons.prems(1) by (simp add: int64_def)
    then show ?thesis using Cons.IH [of "acc + int (length b)"] Cons.prems by (simp add: e RegFile)
  next
    case (SubDir k)
    then show ?thesis using Cons by (simp add: e)
  qed
qed simp

lemma New_service_quiet:
  obtains u where "spooled s u" "evicting u = False" "\<And>n b. (n, RegFile b) \<notin> set (tmps u)"
    "dir_bytes (objs s) < 2 ^ 63 \<Longrightarrow> 0 < CacheMaxBytes G \<Longrightarrow> cacheBytes u = dir_bytes (objs s)"
    "New_service H G s = (if 0 < CacheMaxBytes G then evictIfNeeded H G u else u, Inr ())"
proof -
  define s2 where "s2 = s\<lparr>cacheBytes := 0, evicting := False, tick := Suc (Suc (tick s))\<rparr>"
  define s3 where "s3 = clearDir H s2"
  obtain s4 n where sz: "size_loop H (s3\<lparr>tick := Suc (tick s3)\<rparr>) (objs s3) 0 = (s4, n)" by force
  have s2: "spooled s s2" by (simp add: s2_def)
  then have s3: "spooled s s3" by (simp add: s3_def)
  have clear: "(m, RegFile b) \<notin> set (tmps s3)" for m b unfolding s3_def by (rule clearDir_quiet)
  have idle: "evicting s3 = False"
  proof -
    have "evicting (clear_loop H v es) = evicting v" for v es
      by (induction H v es rule: clear_loop.induct)
        (use no_fault in \<open>auto simp: remove_tmp_def os_call_def split: option.splits\<close>)
    then show ?thesis by (simp add: s3_def s2_def clearDir_def)
  qed
  have loop: "evicting (fst (size_loop H v es k)) = evicting v \<and> tmps (fst (size_loop H v es k)) = tmps v" for v es k
    by (induction H v es k rule: size_loop.induct) (auto simp: no_fault os_call_def split: option.splits)
  have s4: "spooled s s4" "evicting s4 = False" "tmps s4 = tmps s3"
    using size_loop_spooled [OF sz] s3 idle loop [of "s3\<lparr>tick := Suc (tick s3)\<rparr>" "objs s3" 0] sz
    by (simp_all add: spooled_def)
  have new: "New_service H G s = (if 0 < CacheMaxBytes G then evictIfNeeded H G (s4\<lparr>cacheBytes := n\<rparr>) else s3, Inr ())"
    using sz by (simp add: New_service_def Let_def dirSize_def s2_def [symmetric] s3_def [symmetric])
  have n: "n = dir_bytes (objs s)" if "dir_bytes (objs s) < 2 ^ 63"
    using size_loop_quiet [of 0 "objs s3" "s3\<lparr>tick := Suc (tick s3)\<rparr>"] that sz s3 by (simp add: spooled_def)
  show thesis
  proof (cases "0 < CacheMaxBytes G")
    case True
    then show thesis using new n s4 clear by (intro that [of "s4\<lparr>cacheBytes := n\<rparr>"]) simp_all
  next
    case False
    then show thesis using new s3 idle clear by (intro that [of s3]) simp_all
  qed
qed

end

end
