(* ===== verification/Object_Host.thy ===== *)
theory Object_Host
  imports Object_Limits
begin

text \<open>
  A reference host for the object service. It satisfies the contracts \<open>svc_env\<close> and
  \<open>collision_free\<close> with any pattern of failing system calls, and the witnesses run on it.
\<close>

section \<open>Hex\<close>

definition hex_char :: "nat \<Rightarrow> char" where
  "hex_char d = (if d < 10 then digit_char d else char_of (87 + d))"

definition hex_of :: "string \<Rightarrow> string" where
  "hex_of b = concat (map (\<lambda>c. [hex_char (byte_of c div 16), hex_char (byte_of c mod 16)]) b)"

lemma hex_of_simps [simp]:
  "hex_of [] = []"
  "hex_of (c # b) = hex_char (byte_of c div 16) # hex_char (byte_of c mod 16) # hex_of b"
  by (simp_all add: hex_of_def)

definition hex_val :: "char \<Rightarrow> nat" where
  "hex_val c = (if is_digit c then digit_val c else byte_of c - 87)"

lemma hex_val_char [simp]:
  assumes "d < 16"
  shows "hex_val (hex_char d) = d"
proof (cases "d < 10")
  case False
  then have "byte_of (hex_char d) = 87 + d" using assms by (simp add: hex_char_def)
  then show ?thesis using False by (simp add: hex_val_def is_digit_def)
qed (simp add: hex_val_def hex_char_def)

lemma hex_char_inj: "d < 16 \<Longrightarrow> d' < 16 \<Longrightarrow> hex_char d = hex_char d' \<longleftrightarrow> d = d'"
  using hex_val_char by metis

lemma byte_nibbles: "byte_of c div 16 < 16" "byte_of c mod 16 < 16"
proof -
  have "n < 256 \<Longrightarrow> n div 16 < 16" for n :: nat by (simp add: div_less_iff_less_mult)
  from this [of "byte_of c"] show "byte_of c div 16 < 16" by simp
qed simp

lemma hex_of_inj: "hex_of x = hex_of y \<longleftrightarrow> x = y"
proof (induction x arbitrary: y)
  case Nil
  then show ?case by (cases y) simp_all
next
  case (Cons c x)
  show ?case
  proof (cases y)
    case (Cons d z)
    have "byte_of c = byte_of d"
      if "byte_of c div 16 = byte_of d div 16" "byte_of c mod 16 = byte_of d mod 16"
      using that by (metis div_mult_mod_eq)
    then have "c = d \<longleftrightarrow> byte_of c div 16 = byte_of d div 16 \<and> byte_of c mod 16 = byte_of d mod 16"
      by auto
    then show ?thesis using Cons Cons.IH by (auto simp: hex_char_inj byte_nibbles)
  qed simp
qed

lemma hex_char_ascii: "d < 16 \<Longrightarrow> byte_of (hex_char d) < 128"
  by (auto simp: hex_char_def digit_char_def)

lemma hex_of_ascii [simp]: "ascii (hex_of b)"
  by (induction b) (simp_all add: hex_char_ascii byte_nibbles)

section \<open>The reference host\<close>

text \<open>
  The digests are the hex text of the content itself, so they do not collide; the chain the
  downloader reads is an association list from roots to bytes.
\<close>

definition ref_root :: "string \<Rightarrow> string" where
  "ref_root b = ''0x0000000000000000'' @ hex_of b"

definition ref_svc ::
  "(nat \<Rightarrow> err option) \<Rightarrow> ((string \<times> bval) list, bval, (string \<times> string) list) svc_host" where
  "ref_svc faults =
     \<lparr>bempty = [], bget = map_of, bput = alist_put,
      bdelete = (\<lambda>b k. Inr (filter (\<lambda>e. fst e \<noteq> k) b)),
      bentries = alist_entries, bnext_mod = (\<lambda>_ rest. rest),
      bfits = (\<lambda>_. True), commit_err = (\<lambda>_. None),
      marshalMeta = marshalMeta ref_host, unmarshalMeta = unmarshalMeta ref_host,
      marshalBucket = marshalBucket ref_host, unmarshalBucket = unmarshalBucket ref_host,
      to_bytes = VBytes, of_bytes = of_bytes ref_host, clock = clock ref_host,
      os_fault = faults, os_partial = (\<lambda>n. n),
      temp_name = (\<lambda>ns n. ''spool-'' @ replicate (sum_list (map length ns)) (CHR ''0'')),
      rand63 = int, wall = (\<lambda>n. (1750000000 + int n) * 1000000000),
      sort_lru = sort_key CELastAccess, sha256_hex = hex_of, md5_hex = hex_of,
      merkle_root = (\<lambda>b. Inr (ref_root b)),
      download = (\<lambda>d r. case map_of d r of
                    Some b \<Rightarrow> if ref_root b = r then (d, Some b, None) else (d, Some b, Some (ErrSDK ''proof''))
                  | None \<Rightarrow> (d, None, Some (ErrSDK ''no node has the file'')))\<rparr>"

lemma ref_svc_store: "store_host (ref_svc f)"
proof (rule store_host.intro)
  show "bolt (ref_svc f)"
    by (rule bolt_stable_cursor.axioms(1) [OF alist_bolt_laws]) (simp_all add: ref_svc_def)
  show "store_host_axioms (ref_svc f)"
    by (auto simp: store_host_axioms_def ref_svc_def ref_host_def split: if_splits)
qed

lemma ref_temp_fresh: "''spool-'' @ replicate (sum_list (map length ns)) (CHR ''0'') \<notin> set ns"
proof
  assume "''spool-'' @ replicate (sum_list (map length ns)) (CHR ''0'') \<in> set ns"
  then have "length (''spool-'' @ replicate (sum_list (map length ns)) (CHR ''0''))
      \<in> set (map length ns)" by (metis imageI set_map)
  then have "length (''spool-'' @ replicate (sum_list (map length ns)) (CHR ''0''))
      \<le> sum_list (map length ns)" by (rule member_le_sum_list) simp
  then show False by simp
qed

lemma ref_svc_env: "svc_env (ref_svc f)"
proof (rule svc_env.intro [OF ref_svc_store], unfold_locales)
qed (use ref_temp_fresh in \<open>auto simp: ref_svc_def ref_root_def ref_host_def alist_put_def
      split: option.splits if_splits\<close>)

lemma ref_collision_free: "collision_free (ref_svc f)"
  by (rule collision_free.intro [OF ref_svc_env])
    (auto simp: collision_free_axioms_def ref_svc_def ref_root_def hex_of_inj)

interpretation ref_svc: collision_free "ref_svc f" for f
  by (rule ref_collision_free)

lemma ref_svc_quiet: "svc_quiet (ref_svc (\<lambda>_. None))"
  by (rule svc_quiet.intro [OF ref_svc_env]) (simp add: svc_quiet_axioms_def ref_svc_def)

interpretation ref_quiet: svc_quiet "ref_svc (\<lambda>_. None)"
  by (rule ref_svc_quiet)

end
