(* ===== verification/Gateway_Example.thy ===== *)
theory Gateway_Example
  imports Gateway Object_Host Store_Example
begin

text \<open>
  An example run of the gateway on the reference host: one upload on an empty gateway, with the
  equations that evaluate it. The witnesses of the gateway's properties are taken there.
\<close>

definition gx_host :: "((string \<times> bval) list, bval, (string \<times> string) list) svc_host" where
  "gx_host = ref_svc (\<lambda>_. None)"

definition gx_start :: "((string \<times> bval) list, (string \<times> string) list) svc" where
  "gx_start =
     \<lparr>sv_store = ex_start, sv_dl = [], objs = [], tmps = [], cacheBytes = 0, evicting = False, tick = 0\<rparr>"

definition gx_config :: svc_config where
  "gx_config = \<lparr>DataDir = ''data'', MaxSize = 10, CacheMaxBytes = 4\<rparr>"

definition gx_body :: reader where
  "gx_body = \<lparr>rd_data = ''abc'', rd_err = None\<rparr>"

definition gx_root :: string where
  "gx_root = ''0x0000000000000000616263''"

definition gx_meta :: object_meta where
  "gx_meta = zero_meta\<lparr>Root := gx_root, SHA256 := ''616263'', MD5 := ''616263'', Size := 3,
     Filename := ''f'', ContentType := ''t'', Status := StatusPending,
     CreatedAt := 1750000001000000000, UpdatedAt := 1750000001000000000,
     LastAccess := 1750000001000000000\<rparr>"

lemma gx_digests [simp]: "ref_root ''abc'' = gx_root" "length gx_root = 24" "gx_root \<noteq> []"
  "json_string gx_root = gx_root" "json_string ''616263'' = ''616263''"
  "hex_char (Suc 0) = CHR ''1''" "hex_char 2 = CHR ''2''" "hex_char 3 = CHR ''3''" "hex_char 6 = CHR ''6''"
  by code_simp+

lemma gx_hosts: "collision_free gx_host" "svc_env gx_host" "store_host gx_host"
  unfolding gx_host_def by (rule ref_collision_free ref_svc_env ref_svc_store)+

lemmas gx_eval = gx_host_def ref_svc_def os_call_def io_copy_def limit_reader_def int64_def
  BySHA256_def rename_into_cache_def noteAdded_def evictIfNeeded_def with_store_def get_record_def Get_def
  dir_put_def dir_del_def

lemma gx_put:
  "Put gx_host gx_config gx_start gx_body ''f'' ''t''
   = (gx_start\<lparr>sv_store := fst (CreateObject ref_host ex_start gx_meta),
        objs := [(gx_root, RegFile ''abc'')], cacheBytes := 3, tick := 5\<rparr>, Inr (gx_meta, False))"
  by (simp add: Put_def Put_fresh_def gx_eval gx_start_def gx_config_def gx_body_def gx_meta_def ex_start_def store_eval)

definition gx_stored :: "((string \<times> bval) list, (string \<times> string) list) svc" where
  "gx_stored = fst (Put gx_host gx_config gx_start gx_body ''f'' ''t'')"

lemma gx_stored_put: "Put gx_host gx_config gx_start gx_body ''f'' ''t'' = (gx_stored, Inr (gx_meta, False))"
  by (simp add: gx_stored_def gx_put)

lemma gx_stored_eq:
  "gx_stored = gx_start\<lparr>sv_store := fst (CreateObject ref_host ex_start gx_meta),
        objs := [(gx_root, RegFile ''abc'')], cacheBytes := 3, tick := 5\<rparr>"
  by (simp add: gx_stored_def gx_put)

lemma gx_stored_meta: "meta_at gx_host (sv_store gx_stored) gx_root = Some gx_meta"
  by (simp add: gx_stored_eq gx_eval gx_meta_def ex_start_def store_eval)

lemma gx_store_start: "store_start gx_host ex_start"
  by (simp add: store_start_def Open_store_def create_if_not_exists_def gx_host_def ref_svc_def ex_start_def)

lemma gx_start_ok: "gw_start gx_host ((c, []), gx_start)"
  using gx_store_start by (simp add: gw_start_def gx_start_def)

lemma gx_reachable:
  "gw_reachable gx_host C W gx_config ((c, []), gx_start)"
  "gw_reachable gx_host C W gx_config ((c, []), gx_stored)"
proof -
  show start: "gw_reachable gx_host C W gx_config ((c, []), gx_start)"
    by (rule gw_reachable_start [OF gx_start_ok])
  show "gw_reachable gx_host C W gx_config ((c, []), gx_stored)"
    by (rule gw_reachable_run [OF start], rule r_into_rtranclp, rule gw_put [OF gx_stored_put])
qed

lemma gx_open:
  "Open gx_host gx_config gx_stored gx_root
   = (gx_stored\<lparr>tick := 8\<rparr>, Inr (RegFile ''abc'', gx_meta))"
  by (simp add: Open_def open_cached_def touch_svc_def touchInterval_def gx_stored_eq gx_eval gx_start_def gx_config_def
      gx_meta_def ex_start_def store_eval)

text \<open>The same object finalized on 0G, in a cache over its limit.\<close>

definition gx_full :: "((string \<times> bval) list, (string \<times> string) list) svc" where
  "gx_full = gx_stored\<lparr>sv_store := fst (SetStatus gx_host (sv_store gx_stored) gx_root StatusFinalized [] []),
     cacheBytes := 5\<rparr>"

lemma gx_quiet: "svc_quiet gx_host"
  unfolding gx_host_def by (rule ref_svc_quiet)

lemma gx_stored_inv: "svc_inv gx_host gx_stored"
  using collision_free.gw_reachable_inv [OF gx_hosts(1) gx_reachable(2)] by simp

lemma gx_stored_pending: "\<not> finalized gx_host (sv_store gx_stored) r"
  by (auto simp: finalized_def gx_stored_eq gx_eval gx_meta_def ex_start_def store_eval split: if_splits)

lemma gx_full_inv: "svc_inv gx_host gx_full"
proof -
  define u where "u = fst (SetStatus gx_host (sv_store gx_stored) gx_root StatusFinalized [] [])"
  have run: "store_exec gx_host (sv_store gx_stored) (OpSetStatus gx_root StatusFinalized [] [])
      = Some (u, snd (SetStatus gx_host (sv_store gx_stored) gx_root StatusFinalized [] []))"
    by (simp add: u_def)
  note st = svc_invD(1) [OF gx_stored_inv]
  have "svc_inv gx_host (gx_stored\<lparr>sv_store := u\<rparr>)"
  proof (rule svc_inv_store [OF gx_stored_inv])
    show "store_inv gx_host u" by (rule store_host.store_exec_inv [OF gx_hosts(3) run _ st]) simp
    show "content_of gx_host u = content_of gx_host (sv_store gx_stored)"
      by (rule store_host.store_exec_content [OF gx_hosts(3) st run]) simp
  qed (simp add: gx_stored_pending)
  then have "svc_inv gx_host ((gx_stored\<lparr>sv_store := u\<rparr>)\<lparr>cacheBytes := 5\<rparr>)"
    by (rule spooled_inv [rotated]) simp
  then show ?thesis by (simp add: gx_full_def u_def)
qed

lemma gx_full_finalized: "finalized gx_host (sv_store gx_full) gx_root"
  by (simp add: finalized_def gx_full_def gx_stored_eq gx_eval gx_meta_def ex_start_def store_eval)

lemma gx_full_open: "\<not> closed (sv_store gx_full)" "\<not> evicting gx_full" "cacheBytes gx_full = 5"
  by (simp_all add: gx_full_def gx_stored_eq gx_start_def gx_eval gx_meta_def ex_start_def store_eval)

end
