(* ===== verification/Gateway_Props.thy ===== *)
theory Gateway_Props
  imports Gateway_Example Uploader_Props
begin

text \<open>
  The properties of the gateway as a whole: requests, worker, index and restarts on one
  database and one cache directory, with any system call failing at any time.
\<close>

section \<open>Durability\<close>

text \<open>
  C6: No data loss. In every state that the gateway reaches, by any interleaving of uploads,
  reads, index operations, flushes, polls and restarts with any combination of failing system
  calls and commits, an object that is not finalized on 0G has its cache file, and the file
  holds bytes with the recorded root, hash and size.
\<close>

theorem no_data_loss:
  assumes "collision_free H" and "gw_reachable H C W G (cl, v)"
    and "meta_at H (sv_store v) r = Some m" and "Status m \<noteq> StatusFinalized"
  shows "\<exists>b. map_of (objs v) r = Some (RegFile b) \<and> merkle_root H b = Inr r
    \<and> sha256_hex H b = SHA256 m \<and> int (length b) = Size m"
proof -
  have inv: "svc_inv H v" using collision_free.gw_reachable_inv [OF assms(1,2)] by simp
  have "\<not> finalized H (sv_store v) r" using assms(3,4) by (simp add: finalized_def)
  then obtain y where y: "map_of (objs v) r = Some y" using svc_invD(4) [OF inv, of r] assms(3) by auto
  then obtain b where b: "y = RegFile b" "merkle_root H b = Inr r" using svc_invD(3) [OF inv] by blast
  have "content_of H (sv_store v) r = Some (SHA256 m, Size m)" using assms(3) by (simp add: content_of_def)
  then obtain b' where b': "sha256_hex H b' = SHA256 m" "int (length b') = Size m" "merkle_root H b' = Inr r"
    using svc_invD(2) [OF inv] by blast
  have "b' = b" by (rule collision_free.root_inj [OF assms(1) b'(3) b(2)])
  then show ?thesis using y b b' by simp
qed

theorem no_data_loss_witness:
  "\<exists>b. map_of (objs gx_stored) gx_root = Some (RegFile b) \<and> int (length b) = 3"
  using no_data_loss [OF gx_hosts(1) gx_reachable(2) gx_stored_meta]
  by (auto simp: gx_meta_def zero_meta_def)

text \<open>
  C3: Read your writes. When an upload succeeds and, after any further run of the gateway, a
  read of the returned root succeeds, the read returns exactly the uploaded bytes, wherever they
  come from (the cache file or a restore from 0G), with their hash and size in the record.
\<close>

theorem read_your_writes:
  assumes "collision_free H" and "gw_reachable H C W G (cl, v)" and "MaxSize G < 2 ^ 63"
    and "Put H G v body filename contentType = (v1, Inr (m, dup))"
    and "(gw_step H C W G)\<^sup>*\<^sup>* (cl, v1) (cl2, v2)"
    and "Open H G v2 (Root m) = (v3, Inr (y, m2))"
  shows "y = RegFile (rd_data body) \<and> SHA256 m2 = sha256_hex H (rd_data body)
    \<and> Size m2 = int (length (rd_data body))"
proof -
  have inv: "svc_inv H v" using collision_free.gw_reachable_inv [OF assms(1,2)] by simp
  have inv1: "svc_inv H v1"
    using collision_free.Put_ok [OF assms(1) inv assms(4)] by (rule svc_step_inv)
  note put = collision_free.Put_returns [OF assms(1) inv assms(3,4)]
  have inv2: "svc_inv H v2"
    and c: "content_of H (sv_store v2) (Root m)
      = Some (sha256_hex H (rd_data body), int (length (rd_data body)))"
    using collision_free.gw_run_content [OF assms(1,5)] inv1 put by auto
  obtain b where b: "y = RegFile b" "merkle_root H b = Inr (Root m)" "sha256_hex H b = SHA256 m2"
    "int (length b) = Size m2"
    using collision_free.Open_returns [OF assms(1) inv2 assms(6)] by blast
  have "b = rd_data body" by (rule collision_free.root_inj [OF assms(1) b(2) put [THEN conjunct1]])
  then show ?thesis using b by simp
qed

theorem read_your_writes_witness:
  "\<exists>v y m2. Open gx_host gx_config gx_stored (Root gx_meta) = (v, Inr (y, m2)) \<and> y = RegFile (rd_data gx_body)"
proof -
  have o: "Open gx_host gx_config gx_stored (Root gx_meta) = (gx_stored\<lparr>tick := 8\<rparr>, Inr (RegFile ''abc'', gx_meta))"
    using gx_open by (simp add: gx_meta_def)
  have "MaxSize gx_config < 2 ^ 63" by (simp add: gx_config_def)
  then show ?thesis
    using read_your_writes [OF gx_hosts(1) gx_reachable(1) _ gx_stored_put rtranclp.rtrancl_refl o] o by blast
qed

section \<open>Composition\<close>

text \<open>
  C10: The gateway refines the worker system. What any run of the gateway does to the chain and
  the database is a run of the system of clients and worker: an upload or read is a sequence of
  client operations, a flush and a poll are the worker's steps, and directories are invisible.
  Every property of that system's reachable states holds of the gateway's.
\<close>

theorem gateway_refines_worker_system:
  assumes "collision_free H" and "gw_reachable H C W G (cl, v)"
  shows "sys_reachable H C W (cl, sv_store v)"
  using collision_free.gw_refines [OF assms] by (simp add: gw_world_def)

theorem gateway_refines_worker_system_witness:
  "sys_reachable gx_host ex_chain ex_config ((0, []), sv_store gx_stored)"
  by (rule gateway_refines_worker_system [OF gx_hosts(1) gx_reachable(2)])

text \<open>
  One object per content. In every reachable state two records with the same content hash
  are the same record: an upload of known bytes never creates a second object.
\<close>

theorem one_object_per_content:
  assumes "collision_free H" and "gw_reachable H C W G (cl, v)"
    and "meta_at H (sv_store v) r = Some m" and "meta_at H (sv_store v) r' = Some m'"
    and "SHA256 m = SHA256 m'"
  shows "r = r' \<and> m = m'"
proof -
  have inv: "svc_inv H v" using collision_free.gw_reachable_inv [OF assms(1,2)] by simp
  have "content_of H (sv_store v) r = Some (SHA256 m, Size m)"
    "content_of H (sv_store v) r' = Some (SHA256 m', Size m')"
    using assms(3,4) by (simp_all add: content_of_def)
  then obtain b b' where b: "sha256_hex H b = SHA256 m" "merkle_root H b = Inr r"
    "sha256_hex H b' = SHA256 m'" "merkle_root H b' = Inr r'"
    using svc_invD(2) [OF inv] by metis
  have "b = b'" by (rule collision_free.sha_inj [OF assms(1)]) (simp add: b assms(5))
  then have "r = r'" using b by simp
  then show ?thesis using assms(3,4) by simp
qed

theorem one_object_per_content_witness:
  "gx_root = gx_root \<and> gx_meta = gx_meta"
  by (rule one_object_per_content [OF gx_hosts(1) gx_reachable(2) gx_stored_meta gx_stored_meta]) simp

section \<open>Uploads\<close>

text \<open>
  C25: What a successful upload returns. The record is the one on disk for the Merkle root of
  the body, with the body's hash and length; the dedup flag is set exactly when the object was
  known before the upload.
\<close>

theorem put_result:
  assumes "collision_free H" and "gw_reachable H C W G (cl, v)" and "MaxSize G < 2 ^ 63"
    and "Put H G v body filename contentType = (v1, Inr (m, dup))"
  shows "merkle_root H (rd_data body) = Inr (Root m)
    \<and> meta_at H (sv_store v1) (Root m) = Some m
    \<and> SHA256 m = sha256_hex H (rd_data body) \<and> Size m = int (length (rd_data body))
    \<and> (dup \<longleftrightarrow> meta_at H (sv_store v) (Root m) \<noteq> None)"
proof -
  have inv: "svc_inv H v" using collision_free.gw_reachable_inv [OF assms(1,2)] by simp
  show ?thesis
    using collision_free.Put_returns [OF assms(1) inv assms(3,4)] by (auto simp: content_of_def)
qed

theorem put_result_witness:
  "merkle_root gx_host ''abc'' = Inr (Root gx_meta) \<and> Size gx_meta = 3"
  using put_result [OF gx_hosts(1) gx_reachable(1) _ gx_stored_put]
  by (simp add: gx_config_def gx_body_def)

end
