(* ===== verification/Service_Props.thy ===== *)
theory Service_Props
  imports Gateway_Example
begin

text \<open>
  Properties of the object service: the size limits of an upload, the order and the amount of
  eviction, the admission of writes, the spool and a restart. What is claimed only for a run in
  which no system call fails stands under the premise \<open>svc_quiet\<close>.
\<close>

section \<open>Size limits\<close>

text \<open>A body that the size checks refuse: whatever else fails, the upload ends with an error.\<close>

lemma put_refused:
  assumes "Put H G v body filename contentType = (t, x)"
    and "rd_data (put_src G body) = [] \<or> 0 < MaxSize G \<and> MaxSize G < int (length (rd_data (put_src G body)))"
  shows "\<exists>e. x = Inl e \<and> sv_store t = sv_store v \<and> objs t = objs v \<and> cacheBytes t = cacheBytes v"
  using assms
  by (auto simp: Put_def os_call_def io_copy_def remove_tmp_def Let_def put_src_def split: option.splits if_splits)

lemma put_refused_quiet:
  fixes v :: "('b, 'd) svc"
  assumes "svc_quiet H"
    and "rd_data body = [] \<and> rd_err body = None \<and> MaxSize G < 2 ^ 63 - 1 \<and> why = ErrEmpty
      \<or> 0 < MaxSize G \<and> MaxSize G < 2 ^ 63 - 1 \<and> MaxSize G < int (length (rd_data body)) \<and> why = ErrTooLarge
      \<or> MaxSize G = 2 ^ 63 - 1 \<and> why = ErrEmpty"
  shows "\<exists>t. Put H G v body filename contentType = (t, Inl why) \<and> tmps t = tmps v"
proof -
  obtain s3 tmp where p: "spooled v s3" "sv_dl s3 = sv_dl v" "cacheBytes s3 = cacheBytes v"
    "dir_del (tmps s3) tmp = tmps v"
    "Put H G v body filename contentType =
       (case rd_err (put_src G body) of
          Some e \<Rightarrow> (remove_tmp H s3 tmp, Inl e)
        | None \<Rightarrow>
            (let data = rd_data (put_src G body) in
             if data = [] then (remove_tmp H s3 tmp, Inl ErrEmpty)
             else if 0 < MaxSize G \<and> MaxSize G < int (length data) then (remove_tmp H s3 tmp, Inl ErrTooLarge)
             else
               (case BySHA256 H (sv_store s3) (sha256_hex H data) of
                  Inl e \<Rightarrow> (remove_tmp H s3 tmp, Inl e)
                | Inr (Some m) \<Rightarrow> Put_known H G s3 tmp m
                | Inr None \<Rightarrow> Put_fresh H G s3 tmp data filename contentType)))"
    by (rule svc_quiet.Put_quiet [OF assms(1)])
  have limit: "int64 (MaxSize G + 1) = (if MaxSize G = 2 ^ 63 - 1 then - (2 ^ 63) else MaxSize G + 1)"
    if "0 < MaxSize G" "MaxSize G \<le> 2 ^ 63 - 1"
    using that by (simp add: int64_def)
  have "rd_err (put_src G body) = None
      \<and> (rd_data (put_src G body) = [] \<and> why = ErrEmpty
         \<or> 0 < MaxSize G \<and> int (length (rd_data (put_src G body))) = MaxSize G + 1 \<and> why = ErrTooLarge)"
    using assms(2) limit by (auto simp: put_src_def limit_reader_def)
  then have "Put H G v body filename contentType = (remove_tmp H s3 tmp, Inl why)"
    unfolding p(5) Let_def by auto
  moreover have "remove_tmp H s3 tmp = s3\<lparr>tick := Suc (tick s3), tmps := tmps v\<rparr>"
    by (simp add: svc_quiet.remove_tmp_quiet [OF assms(1)] p(4))
  ultimately show ?thesis by simp
qed

text \<open>
  C26: The size limits of an upload. An empty body, a body over a positive limit below 2^63 - 1,
  however its stream ends, and, since the sum MaxSize + 1 wraps around, every body under the limit
  2^63 - 1 is refused, and the refusal leaves the database, the cache and its counter as they were,
  whatever system calls fail. When no system call fails, the error is \<open>ErrEmpty\<close>, \<open>ErrTooLarge\<close> and
  \<open>ErrEmpty\<close> in the three cases, and the spool directory is as it was too.
\<close>

theorem put_size_bounds:
  fixes v :: "('b, 'd) svc"
  assumes "rd_data body = [] \<and> rd_err body = None \<and> MaxSize G < 2 ^ 63 - 1 \<and> why = ErrEmpty
      \<or> 0 < MaxSize G \<and> MaxSize G < 2 ^ 63 - 1 \<and> MaxSize G < int (length (rd_data body)) \<and> why = ErrTooLarge
      \<or> MaxSize G = 2 ^ 63 - 1 \<and> why = ErrEmpty"
  shows "\<exists>t e. Put H G v body filename contentType = (t, Inl e)
    \<and> sv_store t = sv_store v \<and> objs t = objs v \<and> cacheBytes t = cacheBytes v
    \<and> (svc_quiet H \<longrightarrow> e = why \<and> tmps t = tmps v)"
proof -
  have src: "rd_data (put_src G body) = []
      \<or> 0 < MaxSize G \<and> MaxSize G < int (length (rd_data (put_src G body)))"
    using assms by (auto simp: put_src_def limit_reader_def int64_def)
  obtain t x where put: "Put H G v body filename contentType = (t, x)" by force
  from put_refused [OF put src] obtain e where "x = Inl e" and same: "sv_store t = sv_store v"
    "objs t = objs v" "cacheBytes t = cacheBytes v" by blast
  moreover have "e = why \<and> tmps t = tmps v" if "svc_quiet H"
    using put_refused_quiet [OF that assms, of v filename contentType] put \<open>x = Inl e\<close> by auto
  ultimately show ?thesis using put by blast
qed

theorem put_size_bounds_witness:
  "(\<exists>t. Put gx_host (gx_config\<lparr>MaxSize := 2\<rparr>) gx_start gx_body [] [] = (t, Inl ErrTooLarge))
   \<and> (\<exists>t. Put gx_host (gx_config\<lparr>MaxSize := 2 ^ 63 - 1\<rparr>) gx_start gx_body [] [] = (t, Inl ErrEmpty))"
proof
  show "\<exists>t. Put gx_host (gx_config\<lparr>MaxSize := 2\<rparr>) gx_start gx_body [] [] = (t, Inl ErrTooLarge)"
    using gx_quiet put_size_bounds [of gx_body "gx_config\<lparr>MaxSize := 2\<rparr>" ErrTooLarge gx_host gx_start "[]" "[]"]
    by (auto simp: gx_body_def)
  show "\<exists>t. Put gx_host (gx_config\<lparr>MaxSize := 2 ^ 63 - 1\<rparr>) gx_start gx_body [] [] = (t, Inl ErrEmpty)"
    using gx_quiet put_size_bounds [of gx_body "gx_config\<lparr>MaxSize := 2 ^ 63 - 1\<rparr>" ErrEmpty gx_host gx_start "[]" "[]"]
    by (auto simp: gx_body_def)
qed

text \<open>\<open>only n s t\<close>: of the spool directory at most the entry \<open>n\<close> has changed.\<close>

definition only :: "string \<Rightarrow> ('b, 'd) svc \<Rightarrow> ('b, 'd) svc \<Rightarrow> bool" where
  "only n s t \<longleftrightarrow> (\<forall>k. k \<noteq> n \<longrightarrow> map_of (tmps t) k = map_of (tmps s) k)"

lemma note_tmps: "tmps (noteAdded H G s n) = tmps s"
proof -
  have "tmps (evict_loop H low w es) = tmps w" for low w es
    using evict_loop_shrunk [of es w H low] by (simp add: shrunk_def)
  then show ?thesis by (simp add: noteAdded_def evictIfNeeded_def Let_def split: sum.splits)
qed

lemma only_simps [simp]:
  "only n s s"
  "only n s (t\<lparr>tick := k\<rparr>) = only n s t"
  "only n s (t\<lparr>sv_store := u\<rparr>) = only n s t"
  "only n s (noteAdded H G t i) = only n s t"
  "only n s (s\<lparr>tick := k, tmps := dir_put (tmps s) n y\<rparr>)"
  by (auto simp: only_def note_tmps)

lemma with_store_eq: "with_store s x = (s\<lparr>sv_store := fst x\<rparr>, snd x)"
  by (cases x) (simp add: with_store_def)

lemma only_remove [simp]: "only n s t \<Longrightarrow> only n s (remove_tmp H t n)"
  by (auto simp: only_def remove_tmp_def os_call_def split: option.splits)

lemma only_rename: "rename_into_cache H t n dst = (u, e) \<Longrightarrow> only n s t \<Longrightarrow> only n s u"
  by (auto simp: rename_into_cache_def os_call_def only_def split: option.splits fnode.splits)

lemma only_materialize: "materialize H t n dst = (u, e) \<Longrightarrow> only n s t \<Longrightarrow> only n s u"
  by (auto simp: materialize_def os_call_def split: option.splits prod.splits dest: only_rename [where s = s])

lemma only_copy: "io_copy H t n r = (u, x) \<Longrightarrow> only n s t \<Longrightarrow> only n s u"
  by (auto simp: io_copy_def os_call_def only_def Let_def split: option.splits)

lemma only_known: "Put_known H G t n m = (u, x) \<Longrightarrow> only n s t \<Longrightarrow> only n s u"
  unfolding Put_known_def
  by (auto simp: Let_def fileExists_def os_call_def with_store_eq split: if_splits prod.splits option.splits sum.splits
      dest!: only_materialize [where s = s])

lemma only_fresh: "Put_fresh H G t n data fn ct = (u, x) \<Longrightarrow> only n s t \<Longrightarrow> only n s u"
  unfolding Put_fresh_def
  by (auto simp: Let_def os_call_def with_store_eq split: if_splits prod.splits option.splits sum.splits
      dest!: only_rename [where s = s])

lemma Put_only:
  "Put H G s r fn ct = (t, x) \<Longrightarrow> only (temp_name H (map fst (tmps s)) (tick s)) s t"
  unfolding Put_def
  by (auto simp: Let_def os_call_def split: if_splits prod.splits option.splits sum.splits
      dest!: only_copy [where s = s] only_known [where s = s] only_fresh [where s = s])

text \<open>
  C30: The spool stays clean. An upload, whatever system calls of it fail, touches at most the one
  spool file that it has created under a name not in use. As long as no system call fails, it
  leaves the spool directory as it found it, whether it succeeds or is refused by a check, by the
  reader, by the database or by the Merkle computation; and a restart succeeds, leaves no file in
  the spool, keeps the database, and with a cache within its limit keeps every cache file and
  counts their bytes exactly. (When \<open>os.Remove\<close> itself fails, the upload's spool file stays until a
  restart removes it.)
\<close>

theorem spool_stays_clean:
  assumes "svc_env H"
  shows "(\<exists>n. map_of (tmps v) n = None \<and> (\<forall>k. k \<noteq> n \<longrightarrow>
           map_of (tmps (fst (Put H G v body filename contentType))) k = map_of (tmps v) k))
    \<and> (svc_quiet H \<longrightarrow>
         tmps (fst (Put H G v body filename contentType)) = tmps v
         \<and> (\<exists>t. New_service H G v = (t, Inr ()) \<and> (\<forall>n b. (n, RegFile b) \<notin> set (tmps t))
              \<and> sv_store t = sv_store v
              \<and> (0 < CacheMaxBytes G \<and> dir_bytes (objs v) \<le> CacheMaxBytes G \<and> CacheMaxBytes G < 2 ^ 63 \<longrightarrow>
                   objs t = objs v \<and> cacheBytes t = dir_bytes (objs v))))"
proof (intro conjI impI)
  let ?n = "temp_name H (map fst (tmps v)) (tick v)"
  have "map_of (tmps v) ?n = None"
    using svc_env.temp_fresh [OF assms, of "map fst (tmps v)" "tick v"] by (simp add: map_of_eq_None_iff)
  moreover have "only ?n v (fst (Put H G v body filename contentType))"
    using Put_only [of H G v body filename contentType] by (metis prod.collapse)
  ultimately show "\<exists>n. map_of (tmps v) n = None \<and> (\<forall>k. k \<noteq> n \<longrightarrow>
           map_of (tmps (fst (Put H G v body filename contentType))) k = map_of (tmps v) k)"
    unfolding only_def by blast
  assume quiet: "svc_quiet H"
  then show "tmps (fst (Put H G v body filename contentType)) = tmps v" by (rule svc_quiet.Put_tmps)
  obtain u where u: "spooled v u" "evicting u = False" "\<And>n b. (n, RegFile b) \<notin> set (tmps u)"
    "dir_bytes (objs v) < 2 ^ 63 \<Longrightarrow> 0 < CacheMaxBytes G \<Longrightarrow> cacheBytes u = dir_bytes (objs v)"
    "New_service H G v = (if 0 < CacheMaxBytes G then evictIfNeeded H G u else u, Inr ())"
    using svc_quiet.New_service_quiet [OF quiet] by blast
  have st: "sv_store (evictIfNeeded H G u) = sv_store u"
  proof -
    have "sv_store (evict_loop H low w es) = sv_store w" for low w es
      using evict_loop_shrunk [of es w H low] by (simp add: shrunk_def)
    then show ?thesis by (simp add: evictIfNeeded_def Let_def split: sum.splits)
  qed
  have "evictIfNeeded H G u = u" if "cacheBytes u \<le> CacheMaxBytes G"
    using that by (simp add: evictIfNeeded_def)
  then show "\<exists>t. New_service H G v = (t, Inr ()) \<and> (\<forall>n b. (n, RegFile b) \<notin> set (tmps t))
         \<and> sv_store t = sv_store v
         \<and> (0 < CacheMaxBytes G \<and> dir_bytes (objs v) \<le> CacheMaxBytes G \<and> CacheMaxBytes G < 2 ^ 63 \<longrightarrow>
              objs t = objs v \<and> cacheBytes t = dir_bytes (objs v))"
    using u st svc_quiet.evictIfNeeded_tmps [OF quiet, of G u] by (auto simp: spooled_def)
qed

theorem spool_stays_clean_witness:
  "\<exists>t. New_service gx_host gx_config gx_stored = (t, Inr ()) \<and> objs t = objs gx_stored \<and> cacheBytes t = 3"
  using spool_stays_clean [OF svc_quiet.axioms(1) [OF gx_quiet], of gx_stored gx_config gx_body "[]" "[]",
      THEN conjunct2, THEN mp, OF gx_quiet, THEN conjunct2]
  by (auto simp: gx_config_def gx_stored_eq gx_start_def)

section \<open>Eviction and admission\<close>

text \<open>
  C13: Eviction is least recently used, and enough. A sweep does nothing within the limit, never
  changes the database, and whatever calls of it fail, it removes files of finalized objects only.
  When no system call fails, the database is open and no other sweep is running, a sweep of a cache
  whose counter is over the limit ends with the counter at or below the low-water mark of nine
  tenths, or with no cache file of a finalized object left, and a finalized object that kept its
  file was not accessed before any object that lost it.
\<close>

theorem eviction_lru:
  assumes "svc_env H" and "svc_inv H v" and "0 < CacheMaxBytes G"
  shows "(cacheBytes v \<le> CacheMaxBytes G \<longrightarrow> evictIfNeeded H G v = v)
    \<and> sv_store (evictIfNeeded H G v) = sv_store v
    \<and> (\<forall>r. map_of (objs (evictIfNeeded H G v)) r = map_of (objs v) r
         \<or> finalized H (sv_store v) r \<and> map_of (objs (evictIfNeeded H G v)) r = None)
    \<and> (svc_quiet H \<and> \<not> closed (sv_store v) \<and> \<not> evicting v \<longrightarrow>
         (CacheMaxBytes G < cacheBytes v \<longrightarrow>
            cacheBytes (evictIfNeeded H G v) \<le> CacheMaxBytes G - CacheMaxBytes G div 10
            \<or> (\<forall>r. finalized H (sv_store v) r \<longrightarrow> map_of (objs (evictIfNeeded H G v)) r = None))
         \<and> (\<forall>r r' m m'. map_of (objs v) r \<noteq> None \<and> map_of (objs (evictIfNeeded H G v)) r = None
              \<and> meta_at H (sv_store v) r = Some m \<and> meta_at H (sv_store v) r' = Some m'
              \<and> Status m' = StatusFinalized \<and> map_of (objs (evictIfNeeded H G v)) r' \<noteq> None \<longrightarrow>
              LastAccess m \<le> LastAccess m'))"
proof (cases "CacheMaxBytes G < cacheBytes v")
  case False
  then have "evictIfNeeded H G v = v" by (simp add: evictIfNeeded_def)
  then show ?thesis using False by auto
next
  case True
  have sh: "shrunk {r. finalized H (sv_store v) r} v (evictIfNeeded H G v)"
    by (rule svc_env.evictIfNeeded_shrunk [OF assms(1)]) (rule svc_invD(1) [OF assms(2)])
  have "(cacheBytes (evictIfNeeded H G v) \<le> CacheMaxBytes G - CacheMaxBytes G div 10
            \<or> (\<forall>r. finalized H (sv_store v) r \<longrightarrow> map_of (objs (evictIfNeeded H G v)) r = None))
         \<and> (\<forall>r r' m m'. map_of (objs v) r \<noteq> None \<and> map_of (objs (evictIfNeeded H G v)) r = None
              \<and> meta_at H (sv_store v) r = Some m \<and> meta_at H (sv_store v) r' = Some m'
              \<and> Status m' = StatusFinalized \<and> map_of (objs (evictIfNeeded H G v)) r' \<noteq> None \<longrightarrow>
              LastAccess m \<le> LastAccess m')"
    if "svc_quiet H" "\<not> closed (sv_store v)" "\<not> evicting v"
  proof -
    note out = svc_quiet.eviction_outcome [OF that(1) assms(2) that(2,3) assms(3) True]
    show ?thesis using out(1) out(2) by (metis option.sel)
  qed
  moreover have "sv_store (evictIfNeeded H G v) = sv_store v"
    "\<forall>r. map_of (objs (evictIfNeeded H G v)) r = map_of (objs v) r
         \<or> finalized H (sv_store v) r \<and> map_of (objs (evictIfNeeded H G v)) r = None"
    using sh by (auto simp: shrunk_def)
  moreover have "cacheBytes v \<le> CacheMaxBytes G \<longrightarrow> evictIfNeeded H G v = v" using True by simp
  ultimately show ?thesis by blast
qed

theorem eviction_lru_witness:
  "cacheBytes (evictIfNeeded gx_host gx_config gx_full) \<le> 4
   \<or> map_of (objs (evictIfNeeded gx_host gx_config gx_full)) gx_root = None"
  using eviction_lru [OF svc_quiet.axioms(1) [OF gx_quiet] gx_full_inv, of gx_config]
    gx_quiet gx_full_open gx_full_finalized
  by (auto simp: gx_config_def)

text \<open>
  C24: Which uploads are refused admission. An upload is refused exactly when a limit is set and the
  counter \<open>cacheBytes\<close> is over it after a sweep, and the decision costs no file of an object that is
  not finalized, whatever system calls fail. When no system call fails, the database is open and no
  other sweep is running, a refusal means that no finalized object has a cache file left: nothing
  more can be reclaimed until the worker gets further. (The counter can exceed the bytes in the
  cache, and a sweep that is already running or a failing call can leave finalized files behind.)
\<close>

theorem write_admission:
  assumes "svc_env H" and "svc_inv H v" and "ShouldRejectWrite H G v = (t, reject)"
  shows "(reject \<longleftrightarrow> 0 < CacheMaxBytes G \<and> CacheMaxBytes G < cacheBytes t)
    \<and> (\<forall>r. \<not> finalized H (sv_store v) r \<longrightarrow> map_of (objs t) r = map_of (objs v) r)
    \<and> (svc_quiet H \<and> \<not> closed (sv_store v) \<and> \<not> evicting v \<and> reject \<longrightarrow>
         (\<forall>r. finalized H (sv_store t) r \<longrightarrow> map_of (objs t) r = None))"
proof (cases "0 < CacheMaxBytes G")
  case False
  then show ?thesis using assms(3) by (simp add: ShouldRejectWrite_def)
next
  case True
  then have t: "t = evictIfNeeded H G v" "reject \<longleftrightarrow> CacheMaxBytes G < cacheBytes t"
    using assms(3) by (auto simp: ShouldRejectWrite_def Let_def)
  have sh: "shrunk {r. finalized H (sv_store v) r} v t"
    unfolding t(1) by (rule svc_env.evictIfNeeded_shrunk [OF assms(1)]) (rule svc_invD(1) [OF assms(2)])
  have "\<forall>r. finalized H (sv_store t) r \<longrightarrow> map_of (objs t) r = None"
    if quiet: "svc_quiet H" "\<not> closed (sv_store v)" "\<not> evicting v" and "CacheMaxBytes G < cacheBytes t"
  proof -
    have over: "CacheMaxBytes G < cacheBytes v"
      using that(4) t(1) by (cases "CacheMaxBytes G < cacheBytes v") (auto simp: evictIfNeeded_def)
    have "\<not> cacheBytes t \<le> CacheMaxBytes G - CacheMaxBytes G div 10"
      using that(4) True pos_imp_zdiv_nonneg_iff [of 10 "CacheMaxBytes G"] by linarith
    then show ?thesis
      using svc_quiet.eviction_outcome(1) [OF quiet(1) assms(2) quiet(2,3) True over] t(1) sh
      by (simp add: shrunk_def)
  qed
  moreover have "map_of (objs t) r = map_of (objs v) r" if "\<not> finalized H (sv_store v) r" for r
    using sh that unfolding shrunk_def by blast
  ultimately show ?thesis using True t(2) by blast
qed

text \<open>
  The refusal on a cache with an unfinalized object over the limit, and an admission after the sweep
  of a finalized one.
\<close>

theorem write_admission_witness:
  "snd (ShouldRejectWrite gx_host gx_config gx_full)
   = (4 < cacheBytes (fst (ShouldRejectWrite gx_host gx_config gx_full)))
   \<and> map_of (objs (fst (ShouldRejectWrite gx_host gx_config gx_stored))) gx_root = Some (RegFile ''abc'')"
proof -
  have env: "svc_env gx_host" by (rule svc_quiet.axioms(1) [OF gx_quiet])
  obtain t b where r: "ShouldRejectWrite gx_host gx_config gx_full = (t, b)" by force
  obtain t' b' where r': "ShouldRejectWrite gx_host gx_config gx_stored = (t', b')" by force
  have c: "CacheMaxBytes gx_config = 4" by (simp add: gx_config_def)
  have "svc_inv gx_host gx_stored"
    using collision_free.gw_reachable_inv [OF gx_hosts(1) gx_reachable(2) [where c = "0::nat" and C = ex_chain and W = ex_config]]
    by simp
  from write_admission [OF env this r'] have "map_of (objs t') gx_root = map_of (objs gx_stored) gx_root"
    using gx_stored_meta by (simp add: finalized_def gx_meta_def)
  then show ?thesis
    using write_admission [OF env gx_full_inv r] c r r' by (simp add: gx_stored_eq)
qed

end
