(* ===== verification/Go_Net.thy ===== *)
theory Go_Net
  imports Go_Text
begin

text \<open>
  The parts of \<open>net/url\<close>, \<open>path\<close>, \<open>encoding/hex\<close>, \<open>strconv\<close> and \<open>strings\<close> that the
  request layer and the configuration use, on byte strings.
\<close>

section \<open>Splitting\<close>

text \<open>\<open>strings.Split\<close> on one separator byte.\<close>

fun split_on :: "char \<Rightarrow> string \<Rightarrow> string list" where
  "split_on c [] = [[]]"
| "split_on c (x # xs) =
     (if x = c then [] # split_on c xs
      else (case split_on c xs of [] \<Rightarrow> [[x]] | y # ys \<Rightarrow> (x # y) # ys))"

lemma split_on_nonempty [simp]: "split_on c xs \<noteq> []"
  by (induction xs) (auto split: list.splits)

lemma split_on_free: "y \<in> set (split_on c xs) \<Longrightarrow> c \<notin> set y"
  by (induction xs arbitrary: y) (auto split: if_splits list.splits)

text \<open>\<open>strings.Join\<close> with a one-byte separator; it inverts \<open>Split\<close>.\<close>

fun join_with :: "char \<Rightarrow> string list \<Rightarrow> string" where
  "join_with c [] = []"
| "join_with c [x] = x"
| "join_with c (x # y # ys) = x @ c # join_with c (y # ys)"

lemma join_split [simp]: "join_with c (split_on c xs) = xs"
proof (induction xs)
  case (Cons x xs)
  obtain y ys where y: "split_on c xs = y # ys" by (cases "split_on c xs") auto
  with Cons show ?case by (cases ys) auto
qed simp

lemma split_on_single: "c \<notin> set x \<Longrightarrow> split_on c x = [x]"
  by (induction x) auto

lemma split_on_append: "c \<notin> set x \<Longrightarrow> split_on c (x @ c # xs) = x # split_on c xs"
  by (induction x) auto

lemma split_join: "xs \<noteq> [] \<Longrightarrow> \<forall>x \<in> set xs. c \<notin> set x \<Longrightarrow> split_on c (join_with c xs) = xs"
  by (induction c xs rule: join_with.induct) (simp_all add: split_on_single split_on_append)

text \<open>
  \<open>strings.SplitN(s, sep, 2)\<close> and the cut at the first separator: what is before it, and what
  is after it when there is one.
\<close>

definition cut_at :: "char \<Rightarrow> string \<Rightarrow> string \<times> string option" where
  "cut_at c s =
     (takeWhile (\<lambda>x. x \<noteq> c) s,
      case dropWhile (\<lambda>x. x \<noteq> c) s of [] \<Rightarrow> None | x # xs \<Rightarrow> Some xs)"

lemma cut_at_Some: "cut_at c s = (a, Some b) \<longleftrightarrow> s = a @ c # b \<and> c \<notin> set a"
proof
  assume "cut_at c s = (a, Some b)"
  then have a: "a = takeWhile (\<lambda>x. x \<noteq> c) s" and d: "\<exists>x. dropWhile (\<lambda>x. x \<noteq> c) s = x # b"
    by (auto simp: cut_at_def split: list.splits)
  from d obtain x where x: "dropWhile (\<lambda>x. x \<noteq> c) s = x # b" by blast
  then have "x = c" using hd_dropWhile [of "\<lambda>x. x \<noteq> c" s] by simp
  then show "s = a @ c # b \<and> c \<notin> set a"
    using takeWhile_dropWhile_id [of "\<lambda>x. x \<noteq> c" s] x a set_takeWhileD by fastforce
next
  assume "s = a @ c # b \<and> c \<notin> set a"
  then show "cut_at c s = (a, Some b)"
    by (auto simp: cut_at_def takeWhile_append dropWhile_append)
qed

lemma cut_at_None: "cut_at c s = (a, None) \<longleftrightarrow> a = s \<and> c \<notin> set s"
proof
  assume "cut_at c s = (a, None)"
  then have a: "a = takeWhile (\<lambda>x. x \<noteq> c) s" and "dropWhile (\<lambda>x. x \<noteq> c) s = []"
    by (auto simp: cut_at_def split: list.splits)
  then have "c \<notin> set s" by (auto simp: dropWhile_eq_Nil_conv)
  moreover then have "takeWhile (\<lambda>x. x \<noteq> c) s = s" by (subst takeWhile_eq_all_conv) blast
  ultimately show "a = s \<and> c \<notin> set s" unfolding a by (rule conjI [rotated])
next
  assume r: "a = s \<and> c \<notin> set s"
  have "takeWhile (\<lambda>x. x \<noteq> c) s = s" using r by (subst takeWhile_eq_all_conv) blast
  moreover have "dropWhile (\<lambda>x. x \<noteq> c) s = []" using r by (auto simp: dropWhile_eq_Nil_conv)
  ultimately show "cut_at c s = (a, None)" using r
    by (simp add: cut_at_def del: takeWhile_eq_all_conv dropWhile_eq_Nil_conv)
qed

section \<open>Hex and percent encoding\<close>

text \<open>\<open>ishex\<close> and \<open>unhex\<close>.\<close>

definition unhex :: "char \<Rightarrow> nat option" where
  "unhex c =
     (let b = byte_of c in
      if 48 \<le> b \<and> b \<le> 57 then Some (b - 48)
      else if 97 \<le> b \<and> b \<le> 102 then Some (b - 87)
      else if 65 \<le> b \<and> b \<le> 70 then Some (b - 55)
      else None)"

text \<open>
  \<open>hex.DecodeString\<close> with its error ignored: the bytes before the first malformed pair.
\<close>

fun hexBytes :: "string \<Rightarrow> string" where
  "hexBytes (a # b # s) =
     (case (unhex a, unhex b) of
        (Some x, Some y) \<Rightarrow> char_of (16 * x + y) # hexBytes s
      | _ \<Rightarrow> [])"
| "hexBytes s = []"

text \<open>
  \<open>url.PathUnescape\<close> and \<open>url.QueryUnescape\<close>; the flag says whether a plus is a space.
\<close>

fun unescape :: "bool \<Rightarrow> string \<Rightarrow> string option" where
  "unescape q [] = Some []"
| "unescape q (c # s) =
     (if c = CHR ''%'' then
        (case s of
           a # b # t \<Rightarrow>
             (case (unhex a, unhex b) of
                (Some x, Some y) \<Rightarrow> map_option (\<lambda>r. char_of (16 * x + y) # r) (unescape q t)
              | _ \<Rightarrow> None)
         | _ \<Rightarrow> None)
      else map_option (\<lambda>r. (if q \<and> c = CHR ''+'' then CHR '' '' else c) # r) (unescape q s))"

abbreviation PathUnescape :: "string \<Rightarrow> string option" where
  "PathUnescape \<equiv> unescape False"

abbreviation QueryUnescape :: "string \<Rightarrow> string option" where
  "QueryUnescape \<equiv> unescape True"

definition upperhex :: "nat \<Rightarrow> char" where
  "upperhex d = (if d < 10 then char_of (48 + d) else char_of (55 + d))"

text \<open>The bytes that \<open>url.QueryEscape\<close> leaves alone.\<close>

definition unreserved :: "char \<Rightarrow> bool" where
  "unreserved c \<longleftrightarrow>
     (let b = byte_of c in
      48 \<le> b \<and> b \<le> 57 \<or> 65 \<le> b \<and> b \<le> 90 \<or> 97 \<le> b \<and> b \<le> 122
      \<or> b = 45 \<or> b = 95 \<or> b = 46 \<or> b = 126)"

definition escape_byte :: "char \<Rightarrow> string" where
  "escape_byte c =
     (if c = CHR '' '' then ''+''
      else if unreserved c then [c]
      else [CHR ''%'', upperhex (byte_of c div 16), upperhex (byte_of c mod 16)])"

definition QueryEscape :: "string \<Rightarrow> string" where
  "QueryEscape s = concat (map escape_byte s)"

lemma QueryEscape_simps [simp]:
  "QueryEscape [] = []" "QueryEscape (c # s) = escape_byte c @ QueryEscape s"
  by (simp_all add: QueryEscape_def)

lemma unhex_upperhex: "d < 16 \<Longrightarrow> unhex (upperhex d) = Some d"
proof (cases "d < 10")
  case False
  assume "d < 16"
  then have "byte_of (upperhex d) = 55 + d" using False by (simp add: upperhex_def)
  then show ?thesis using False \<open>d < 16\<close> by (simp add: unhex_def Let_def)
qed (simp add: upperhex_def unhex_def Let_def)

lemma nibbles: "byte_of c div 16 < 16" "byte_of c mod 16 < 16"
  "char_of (16 * (byte_of c div 16) + byte_of c mod 16) = (c :: char)"
proof -
  have "n < 256 \<Longrightarrow> n div 16 < 16" for n :: nat by (simp add: div_less_iff_less_mult)
  from this [of "byte_of c"] show "byte_of c div 16 < 16" by simp
  have "16 * (byte_of c div 16) + byte_of c mod 16 = byte_of c" by simp
  then show "char_of (16 * (byte_of c div 16) + byte_of c mod 16) = c" by simp
qed simp

lemma unreserved_plain: "unreserved c \<Longrightarrow> c \<noteq> CHR ''%'' \<and> c \<noteq> CHR ''+'' \<and> c \<noteq> CHR ''/'' \<and> c \<noteq> CHR ''?''"
  by (auto simp: unreserved_def Let_def)

text \<open>\<open>QueryUnescape\<close> inverts \<open>QueryEscape\<close>, whose result has no separator in it.\<close>

lemma query_escape_roundtrip [simp]: "QueryUnescape (QueryEscape s) = Some s"
proof (induction s)
  case (Cons c s)
  show ?case
    using Cons unreserved_plain [of c]
    by (auto simp: escape_byte_def unhex_upperhex nibbles)
qed simp

lemma upperhex_plain: "d < 16 \<Longrightarrow> upperhex d \<noteq> CHR ''/'' \<and> upperhex d \<noteq> CHR ''?''"
proof -
  assume "d < 16"
  then have "unhex (upperhex d) = Some d" by (rule unhex_upperhex)
  moreover have "unhex (CHR ''/'') = None" "unhex (CHR ''?'') = None" by code_simp+
  ultimately show ?thesis by (metis option.distinct(1))
qed

lemma query_escape_plain: "CHR ''/'' \<notin> set (QueryEscape s)" "CHR ''?'' \<notin> set (QueryEscape s)"
proof -
  have "CHR ''/'' \<notin> set (escape_byte c)" "CHR ''?'' \<notin> set (escape_byte c)" for c
    using unreserved_plain [of c] upperhex_plain [OF nibbles(1) [of c]] upperhex_plain [OF nibbles(2) [of c]]
    by (auto simp: escape_byte_def)
  then show "CHR ''/'' \<notin> set (QueryEscape s)" "CHR ''?'' \<notin> set (QueryEscape s)"
    by (auto simp: QueryEscape_def)
qed

section \<open>Paths and numbers\<close>

text \<open>\<open>path.Base\<close>.\<close>

definition path_base :: "string \<Rightarrow> string" where
  "path_base p =
     (if p = [] then ''.''
      else
        let q = rev (dropWhile (\<lambda>c. c = CHR ''/'') (rev p))
        in if q = [] then ''/'' else rev (takeWhile (\<lambda>c. c \<noteq> CHR ''/'') (rev q)))"

lemma path_base_plain: "path_base p \<noteq> [] \<and> (path_base p = ''/'' \<or> CHR ''/'' \<notin> set (path_base p))"
proof (cases "dropWhile (\<lambda>c. c = CHR ''/'') (rev p)")
  case (Cons a list)
  then have "a \<noteq> CHR ''/''" using hd_dropWhile [of "\<lambda>c. c = CHR ''/''" "rev p"] by simp
  then show ?thesis using Cons set_takeWhileD [of _ "\<lambda>c. c \<noteq> CHR ''/''" list] by (auto simp: path_base_def Let_def)
qed (simp add: path_base_def)

text \<open>
  \<open>strconv.ParseInt(s, 10, 64)\<close>, and \<open>strconv.Atoi\<close> where \<open>int\<close> has 64 bits: the value and
  whether there was an error. A value out of range is cut to the nearest bound.
\<close>

definition ParseInt :: "string \<Rightarrow> int \<times> bool" where
  "ParseInt s =
     (let (neg, ds) = (case s of [] \<Rightarrow> (False, [])
                       | c # r \<Rightarrow> if c = CHR ''-'' then (True, r) else if c = CHR ''+'' then (False, r) else (False, s))
      in if ds = [] \<or> \<not> list_all is_digit ds then (0, True)
         else
           (let n = int (digits_val ds) in
            if neg then (if n \<le> 2 ^ 63 then (- n, False) else (- (2 ^ 63), True))
            else (if n < 2 ^ 63 then (n, False) else (2 ^ 63 - 1, True))))"

lemma ParseInt_range: "- (2 ^ 63) \<le> fst (ParseInt s) \<and> fst (ParseInt s) < 2 ^ 63"
  by (auto simp: ParseInt_def Let_def split: list.splits)

lemma minus_not_digit: "\<not> is_digit (CHR ''-'')" "\<not> is_digit (CHR ''+'')"
  by code_simp+

text \<open>It reads back what \<open>Itoa\<close> writes.\<close>

lemma ParseInt_itoa: "- (2 ^ 63) \<le> i \<Longrightarrow> i < 2 ^ 63 \<Longrightarrow> ParseInt (itoa i) = (i, False)"
proof -
  assume r: "- (2 ^ 63) \<le> i" "i < 2 ^ 63"
  show ?thesis
  proof (cases "i < 0")
    case True
    then show ?thesis using r by (simp add: ParseInt_def itoa_def)
  next
    case False
    obtain c ds where c: "nat_digits (nat i) = c # ds" by (cases "nat_digits (nat i)") auto
    then have "is_digit c" using nat_digits_digits [of "nat i"] by simp
    then have "c \<noteq> CHR ''-''" "c \<noteq> CHR ''+''" using minus_not_digit by auto
    moreover have "digits_val (c # ds) = nat i" "list_all is_digit (c # ds)"
      using nat_digits_val [of "nat i"] nat_digits_digits [of "nat i"] c by simp_all
    ultimately show ?thesis using False r c by (simp add: ParseInt_def itoa_def)
  qed
qed

end
