(* ===== verification/S3gw.thy ===== *)
theory S3gw
  imports Object Go_Net
begin

text \<open>
  \<open>internal/s3gw/backend.go\<close>: the S3 operations over the object service and the bucket index.
  gofakes3, the server that calls them, is not part of the repository; the helpers of it that
  the backend calls are the fields of the record \<open>fakes3\<close>.
\<close>

section \<open>The interface to gofakes3\<close>

text \<open>
  The errors the backend reports: gofakes3's own, each with its resource, or the error of a
  lower layer as it is.
\<close>

datatype s3_err =
    S3_ErrNoSuchBucket
  | S3_BucketNotFound string
  | S3_BucketAlreadyExists string
  | S3_BucketNotEmpty string
  | S3_KeyNotFound string
  | S3_InvalidArgument string
  | S3_PageNotImplemented
  | S3_Fake string
  | S3_Lower err

type_synonym 'a s3_result = "s3_err + 'a"

text \<open>\<open>gofakes3.PrefixMatch\<close>: the match is a common prefix, and its part.\<close>

record prefix_match =
  CommonPrefix :: bool
  MatchedPart :: string

text \<open>
  \<open>CheckPutConditions\<close> sees whether the object exists and its hash; \<open>Range\<close> turns a range
  request (nil for none) and the size into start and length; \<open>Match\<close> is the method of
  \<open>Prefix\<close>, \<open>None\<close> for false; \<open>FormatETag\<close> renders a hash.
\<close>

record ('cond, 'rng, 'pre) fakes3 =
  CheckPutConditions :: "'cond \<Rightarrow> bool \<times> string \<Rightarrow> s3_err option"
  RangeOf :: "'rng option \<Rightarrow> int \<Rightarrow> (int \<times> int) option s3_result"
  MatchPrefix :: "'pre \<Rightarrow> string \<Rightarrow> prefix_match option"
  EmptyPrefix :: 'pre
  FormatETag :: "string \<Rightarrow> string"

record bucket_info =
  BIName :: string
  BICreationDate :: int

text \<open>
  The contents of an object: the whole file, or the section of it that \<open>Seek\<close> and
  \<open>LimitReader\<close> select.
\<close>

datatype contents = NoContents | WholeFile fnode | Section fnode int int

record s3_obj =
  OName :: string
  OSize :: int
  OHash :: string
  OMetadata :: "(string \<times> string) list"
  ORange :: "(int \<times> int) option"
  OContents :: contents

text \<open>The bytes that a reader of the contents gets; a directory cannot be read.\<close>

fun contents_bytes :: "contents \<Rightarrow> string result" where
  "contents_bytes NoContents = Inr []"
| "contents_bytes (WholeFile (RegFile b)) = Inr b"
| "contents_bytes (Section (RegFile b) start n) = Inr (take (nat n) (drop (nat start) b))"
| "contents_bytes _ = Inl (ErrOS ''is a directory'')"

record copy_result =
  CRETag :: string
  CRLastModified :: int

record content_entry =
  CKey :: string
  CETag :: string
  CSize :: int
  CLastModified :: int

text \<open>The calls that build an object list: \<open>AddPrefix\<close> and \<open>Add\<close>.\<close>

datatype list_call = AddPrefix string | AddContent content_entry

record multi_delete =
  MDDeleted :: "string list"
  MDError :: "(string \<times> string) list"

definition lower :: "'a result \<Rightarrow> 'a s3_result" where
  "lower x = (case x of Inl e \<Rightarrow> Inl (S3_Lower e) | Inr a \<Rightarrow> Inr a)"

section \<open>Helpers\<close>

definition requireBucket ::
  "('b, 'v, 'd, 'z) svc_host_scheme \<Rightarrow> ('b, 'd) svc \<Rightarrow> string \<Rightarrow> s3_err option" where
  "requireBucket H s name =
     (case S3BucketExists H (sv_store s) name of
        Inl e \<Rightarrow> Some (S3_Lower e)
      | Inr exists \<Rightarrow> if \<not> exists then Some (S3_BucketNotFound name) else None)"

definition resolve ::
  "('b, 'v, 'd, 'z) svc_host_scheme \<Rightarrow> ('b, 'd) svc \<Rightarrow> string \<Rightarrow> string \<Rightarrow> string s3_result" where
  "resolve H s bucket key =
     (case S3GetObjectKey H (sv_store s) bucket key of
        Inl e \<Rightarrow> Inl (S3_Lower e)
      | Inr (Some root) \<Rightarrow> Inr root
      | Inr None \<Rightarrow>
          (case requireBucket H s bucket of
             Some e \<Rightarrow> Inl e
           | None \<Rightarrow> Inl (S3_KeyNotFound key)))"

text \<open>A missing header reads as the empty string.\<close>

definition contentType :: "(string \<times> string) list \<Rightarrow> string" where
  "contentType meta =
     (case map_of meta ''Content-Type'' of
        Some ct \<Rightarrow> if ct \<noteq> [] then ct else ''application/octet-stream''
      | None \<Rightarrow> ''application/octet-stream'')"

definition metadataOf :: "object_meta \<Rightarrow> (string \<times> string) list" where
  "metadataOf m = (if ContentType m \<noteq> [] then [(''Content-Type'', ContentType m)] else [])"

section \<open>Buckets\<close>

definition ListBuckets ::
  "('b, 'v, 'd, 'z) svc_host_scheme \<Rightarrow> ('b, 'd) svc \<Rightarrow> bucket_info list s3_result" where
  "ListBuckets H s =
     (case S3ListBuckets H (sv_store s) of
        Inl e \<Rightarrow> Inl (S3_Lower e)
      | Inr recs \<Rightarrow> Inr (map (\<lambda>r. \<lparr>BIName = BName r, BICreationDate = BCreatedAt r\<rparr>) recs))"

definition CreateBucket ::
  "('b, 'v, 'd, 'z) svc_host_scheme \<Rightarrow> ('b, 'd) svc \<Rightarrow> string \<Rightarrow> ('b, 'd) svc \<times> unit s3_result" where
  "CreateBucket H s name =
     (case with_store (s\<lparr>tick := Suc (tick s)\<rparr>) (S3CreateBucket H (sv_store s) name (wall H (tick s))) of
        (s1, Inl e) \<Rightarrow>
          (s1, Inl (if errors_is e ErrBucketExists then S3_BucketAlreadyExists name else S3_Lower e))
      | (s1, Inr _) \<Rightarrow> (s1, Inr ()))"

definition BucketExists ::
  "('b, 'v, 'd, 'z) svc_host_scheme \<Rightarrow> ('b, 'd) svc \<Rightarrow> string \<Rightarrow> bool s3_result" where
  "BucketExists H s name = lower (S3BucketExists H (sv_store s) name)"

definition DeleteBucket ::
  "('b, 'v, 'd, 'z) svc_host_scheme \<Rightarrow> ('b, 'd) svc \<Rightarrow> string \<Rightarrow> ('b, 'd) svc \<times> unit s3_result" where
  "DeleteBucket H s name =
     (case with_store s (S3DeleteBucket H (sv_store s) name) of
        (s1, Inl e) \<Rightarrow>
          (s1, Inl (if errors_is e ErrBucketNotFound then S3_ErrNoSuchBucket
                    else if errors_is e ErrBucketNotEmpty then S3_BucketNotEmpty name
                    else S3_Lower e))
      | (s1, Inr _) \<Rightarrow> (s1, Inr ()))"

text \<open>\<open>None\<close> when the store's cursor loop does not end.\<close>

definition ForceDeleteBucket ::
  "('b, 'v, 'd, 'z) svc_host_scheme \<Rightarrow> ('b, 'd) svc \<Rightarrow> string \<Rightarrow> (('b, 'd) svc \<times> unit s3_result) option" where
  "ForceDeleteBucket H s name =
     (case S3ForceDeleteBucket H (sv_store s) name of
        None \<Rightarrow> None
      | Some x \<Rightarrow>
          (case with_store s x of
             (s1, Inl e) \<Rightarrow>
               Some (s1, Inl (if errors_is e ErrBucketNotFound then S3_BucketNotFound name else S3_Lower e))
           | (s1, Inr _) \<Rightarrow> Some (s1, Inr ())))"

section \<open>Objects\<close>

definition conditionalInfo ::
  "('b, 'v, 'd, 'z) svc_host_scheme \<Rightarrow> ('b, 'd) svc \<Rightarrow> string \<Rightarrow> string \<Rightarrow> (bool \<times> string) s3_result" where
  "conditionalInfo H s bucket key =
     (case S3GetObjectKey H (sv_store s) bucket key of
        Inl e \<Rightarrow> Inl (S3_Lower e)
      | Inr None \<Rightarrow> Inr (False, [])
      | Inr (Some root) \<Rightarrow>
          (case Get H (sv_store s) root of
             Inl e \<Rightarrow> Inl (S3_Lower e)
           | Inr None \<Rightarrow> Inr (False, [])
           | Inr (Some m) \<Rightarrow> Inr (True, hexBytes (MD5 m))))"

definition put_conditions ::
  "('b, 'v, 'd, 'z) svc_host_scheme \<Rightarrow> ('cond, 'rng, 'pre) fakes3 \<Rightarrow> ('b, 'd) svc \<Rightarrow> string \<Rightarrow> string
     \<Rightarrow> 'cond option \<Rightarrow> s3_err option" where
  "put_conditions H F s bucket key conditions =
     (case conditions of
        None \<Rightarrow> None
      | Some c \<Rightarrow>
          (case conditionalInfo H s bucket key of
             Inl e \<Rightarrow> Some e
           | Inr info \<Rightarrow> CheckPutConditions F c info))"

definition put_error :: "err \<Rightarrow> s3_err" where
  "put_error e =
     (if errors_is e ErrEmpty
      then S3_InvalidArgument ''zero-byte objects are not supported by the 0G backend''
      else if errors_is e ErrTooLarge then S3_InvalidArgument (err_text e)
      else S3_Lower e)"

definition PutObject ::
  "('b, 'v, 'd, 'z) svc_host_scheme \<Rightarrow> svc_config \<Rightarrow> ('cond, 'rng, 'pre) fakes3 \<Rightarrow> ('b, 'd) svc
     \<Rightarrow> string \<Rightarrow> string \<Rightarrow> (string \<times> string) list \<Rightarrow> reader \<Rightarrow> 'cond option
     \<Rightarrow> ('b, 'd) svc \<times> unit s3_result" where
  "PutObject H G F s bucketName key meta input conditions =
     (case requireBucket H s bucketName of
        Some e \<Rightarrow> (s, Inl e)
      | None \<Rightarrow>
          (case put_conditions H F s bucketName key conditions of
             Some e \<Rightarrow> (s, Inl e)
           | None \<Rightarrow>
               (case Put H G s input (path_base key) (contentType meta) of
                  (s1, Inl e) \<Rightarrow> (s1, Inl (put_error e))
                | (s1, Inr (m, dup)) \<Rightarrow>
                    (case with_store s1 (S3PutObjectKey H (sv_store s1) bucketName key (Root m)) of
                       (s2, Inl e) \<Rightarrow>
                         (s2, Inl (if errors_is e ErrBucketNotFound then S3_BucketNotFound bucketName
                                   else S3_Lower e))
                     | (s2, Inr _) \<Rightarrow> (s2, Inr ())))))"

definition GetObject ::
  "('b, 'v, 'd, 'z) svc_host_scheme \<Rightarrow> svc_config \<Rightarrow> ('cond, 'rng, 'pre) fakes3 \<Rightarrow> ('b, 'd) svc
     \<Rightarrow> string \<Rightarrow> string \<Rightarrow> 'rng option \<Rightarrow> ('b, 'd) svc \<times> s3_obj s3_result" where
  "GetObject H G F s bucketName objectName rangeRequest =
     (case resolve H s bucketName objectName of
        Inl e \<Rightarrow> (s, Inl e)
      | Inr root \<Rightarrow>
          (case Open H G s root of
             (s1, Inl e) \<Rightarrow>
               (s1, Inl (if errors_is e ErrNotFound then S3_KeyNotFound objectName else S3_Lower e))
           | (s1, Inr (f, m)) \<Rightarrow>
               (let obj = \<lparr>OName = objectName, OSize = Size m, OHash = hexBytes (MD5 m),
                           OMetadata = metadataOf m, ORange = None, OContents = WholeFile f\<rparr>
                in (case RangeOf F rangeRequest (Size m) of
                      Inl e \<Rightarrow> (s1, Inl e)
                    | Inr None \<Rightarrow> (s1, Inr obj)
                    | Inr (Some (start, n)) \<Rightarrow>
                        (case os_call H s1 of
                           (s2, Some e) \<Rightarrow> (s2, Inl (S3_Lower e))
                         | (s2, None) \<Rightarrow>
                             (s2, Inr (obj\<lparr>ORange := Some (start, n),
                                          OContents := Section f start n\<rparr>)))))))"

definition HeadObject ::
  "('b, 'v, 'd, 'z) svc_host_scheme \<Rightarrow> ('b, 'd) svc \<Rightarrow> string \<Rightarrow> string \<Rightarrow> s3_obj s3_result" where
  "HeadObject H s bucketName objectName =
     (case resolve H s bucketName objectName of
        Inl e \<Rightarrow> Inl e
      | Inr root \<Rightarrow>
          (case Get H (sv_store s) root of
             Inl e \<Rightarrow> Inl (S3_Lower e)
           | Inr None \<Rightarrow> Inl (S3_KeyNotFound objectName)
           | Inr (Some m) \<Rightarrow>
               Inr \<lparr>OName = objectName, OSize = Size m, OHash = hexBytes (MD5 m),
                    OMetadata = metadataOf m, ORange = None, OContents = NoContents\<rparr>))"

definition DeleteObject ::
  "('b, 'v, 'd, 'z) svc_host_scheme \<Rightarrow> ('b, 'd) svc \<Rightarrow> string \<Rightarrow> string \<Rightarrow> ('b, 'd) svc \<times> unit s3_result" where
  "DeleteObject H s bucketName objectName =
     (case requireBucket H s bucketName of
        Some e \<Rightarrow> (s, Inl e)
      | None \<Rightarrow>
          (case with_store s (S3DeleteObjectKey H (sv_store s) bucketName objectName) of
             (s1, x) \<Rightarrow> (s1, lower x)))"

fun delete_loop ::
  "('b, 'v, 'd, 'z) svc_host_scheme \<Rightarrow> ('b, 'd) svc \<Rightarrow> string \<Rightarrow> string list \<Rightarrow> multi_delete
     \<Rightarrow> ('b, 'd) svc \<times> multi_delete" where
  "delete_loop H s bucketName [] res = (s, res)"
| "delete_loop H s bucketName (k # ks) res =
     (case with_store s (S3DeleteObjectKey H (sv_store s) bucketName k) of
        (s1, Inl e) \<Rightarrow> delete_loop H s1 bucketName ks (res\<lparr>MDError := MDError res @ [(k, err_text e)]\<rparr>)
      | (s1, Inr _) \<Rightarrow> delete_loop H s1 bucketName ks (res\<lparr>MDDeleted := MDDeleted res @ [k]\<rparr>))"

definition DeleteMulti ::
  "('b, 'v, 'd, 'z) svc_host_scheme \<Rightarrow> ('b, 'd) svc \<Rightarrow> string \<Rightarrow> string list
     \<Rightarrow> ('b, 'd) svc \<times> multi_delete s3_result" where
  "DeleteMulti H s bucketName objects' =
     (case requireBucket H s bucketName of
        Some e \<Rightarrow> (s, Inl e)
      | None \<Rightarrow>
          (case delete_loop H s bucketName objects' \<lparr>MDDeleted = [], MDError = []\<rparr> of
             (s1, res) \<Rightarrow> (s1, Inr res)))"

definition CopyObject ::
  "('b, 'v, 'd, 'z) svc_host_scheme \<Rightarrow> ('cond, 'rng, 'pre) fakes3 \<Rightarrow> ('b, 'd) svc
     \<Rightarrow> string \<Rightarrow> string \<Rightarrow> string \<Rightarrow> string \<Rightarrow> ('b, 'd) svc \<times> copy_result s3_result" where
  "CopyObject H F s srcBucket srcKey dstBucket dstKey =
     (case resolve H s srcBucket srcKey of
        Inl e \<Rightarrow> (s, Inl e)
      | Inr root \<Rightarrow>
          (case requireBucket H s dstBucket of
             Some e \<Rightarrow> (s, Inl e)
           | None \<Rightarrow>
               (case Get H (sv_store s) root of
                  Inl e \<Rightarrow> (s, Inl (S3_Lower e))
                | Inr None \<Rightarrow> (s, Inl (S3_KeyNotFound srcKey))
                | Inr (Some m) \<Rightarrow>
                    (case with_store s (S3PutObjectKey H (sv_store s) dstBucket dstKey root) of
                       (s1, Inl e) \<Rightarrow>
                         (s1, Inl (if errors_is e ErrBucketNotFound then S3_BucketNotFound dstBucket
                                   else S3_Lower e))
                     | (s1, Inr _) \<Rightarrow>
                         (s1, Inr \<lparr>CRETag = FormatETag F (hexBytes (MD5 m)),
                                   CRLastModified = UpdatedAt m\<rparr>)))))"

text \<open>The loop of \<open>ListBucket\<close>: the calls on the list, in order.\<close>

fun list_loop ::
  "('cond, 'rng, 'pre) fakes3 \<Rightarrow> 'pre \<Rightarrow> s3_object list \<Rightarrow> list_call list \<Rightarrow> list_call list" where
  "list_loop F pre [] calls = calls"
| "list_loop F pre (obj # objs') calls =
     (case MatchPrefix F pre (ObjKey obj) of
        None \<Rightarrow> list_loop F pre objs' calls
      | Some match \<Rightarrow>
          if CommonPrefix match then list_loop F pre objs' (calls @ [AddPrefix (MatchedPart match)])
          else list_loop F pre objs' (calls @ [AddContent
                 \<lparr>CKey = ObjKey obj, CETag = FormatETag F (hexBytes (MD5 (ObjMeta obj))),
                  CSize = Size (ObjMeta obj), CLastModified = UpdatedAt (ObjMeta obj)\<rparr>]))"

definition ListBucket ::
  "('b, 'v, 'd, 'z) svc_host_scheme \<Rightarrow> ('cond, 'rng, 'pre) fakes3 \<Rightarrow> ('b, 'd) svc \<Rightarrow> string
     \<Rightarrow> 'pre option \<Rightarrow> bool \<Rightarrow> list_call list s3_result" where
  "ListBucket H F s name pre page_empty =
     (case requireBucket H s name of
        Some e \<Rightarrow> Inl e
      | None \<Rightarrow>
          (let pre' = (case pre of None \<Rightarrow> EmptyPrefix F | Some p \<Rightarrow> p) in
           if \<not> page_empty then Inl S3_PageNotImplemented
           else
             (case S3ListObjects H (sv_store s) name of
                Inl e \<Rightarrow> Inl (S3_Lower e)
              | Inr objs' \<Rightarrow> Inr (list_loop F pre' objs' []))))"

end
