(* ===== verification/S3_Facts.thy ===== *)
theory S3_Facts
  imports S3gw Gateway
begin

text \<open>
  Facts about the S3 operations: what a successful one has done to the service and the index.
\<close>

section \<open>The index\<close>

definition mapped :: "('b, 'v, 'z) host_scheme \<Rightarrow> 'b store \<Rightarrow> string \<Rightarrow> string \<Rightarrow> string option" where
  "mapped H s b k = map_option (of_bytes H) (bget H (s3_keys s) (s3Composite b k))"

lemma S3GetObjectKey_mapped: "S3GetObjectKey H s b k = Inr x \<longleftrightarrow> \<not> closed s \<and> mapped H s b k = x"
  by (auto simp: S3GetObjectKey_def db_view_def mapped_def)

context store_host
begin

lemma put_key_mapped:
  assumes "store_inv H s" and "S3PutObjectKey H s b k r = (t, Inr ())"
  shows "\<not> closed s \<and> \<not> closed t \<and> mapped H t b k = Some r \<and> CHR ''/'' \<notin> set b \<and> objects t = objects s
    \<and> (\<forall>b' k'. CHR ''/'' \<notin> set b' \<and> (b', k') \<noteq> (b, k) \<longrightarrow> mapped H t b' k' = mapped H s b' k')"
proof -
  note rd = put_key_read [OF assms(2)]
  have "CHR ''/'' \<notin> set b" using rd assms(1) by (auto simp: store_inv_def names_inv_def)
  moreover have "objects t = objects s"
    using assms(2) by (cases rule: S3PutObjectKey_cases) (auto simp: same_objects_def same_data_def)
  ultimately show ?thesis using rd by (auto simp: mapped_def bytes_rt s3Composite_inj)
qed

lemma delete_key_mapped:
  assumes "S3DeleteObjectKey H s b k = (t, x)" and "CHR ''/'' \<notin> set b"
  shows "(x = Inr () \<longrightarrow> mapped H t b k = None)
    \<and> (\<forall>b' k'. CHR ''/'' \<notin> set b' \<and> ((b', k') \<noteq> (b, k) \<or> x \<noteq> Inr ()) \<longrightarrow> mapped H t b' k' = mapped H s b' k')"
  using assms(1)
proof (cases rule: S3DeleteObjectKey_cases)
  case (failed e)
  then show ?thesis by (auto simp: mapped_def same_data_def)
next
  case ok
  then show ?thesis using assms(2) by (auto simp: mapped_def s3Composite_inj)
qed

end

section \<open>Resolution\<close>

lemma resolve_Inr: "resolve H s b k = Inr r \<longleftrightarrow> \<not> closed (sv_store s) \<and> mapped H (sv_store s) b k = Some r"
  unfolding S3GetObjectKey_mapped [symmetric]
  by (auto simp: resolve_def split: sum.splits option.splits)

text \<open>A successful upload: the object is stored, then the key is mapped.\<close>

lemma PutObject_success:
  assumes "PutObject H G F s b k meta body cond = (t, Inr ())"
  obtains u m dup w where "Put H G s body (path_base k) (contentType meta) = (u, Inr (m, dup))"
    "S3PutObjectKey H (sv_store u) b k (Root m) = (w, Inr ())" "t = u\<lparr>sv_store := w\<rparr>"
    "requireBucket H s b = None" "put_conditions H F s b k cond = None"
proof -
  have rb: "requireBucket H s b = None" using assms by (cases "requireBucket H s b") (simp_all add: PutObject_def)
  have pc: "put_conditions H F s b k cond = None"
    using assms rb by (cases "put_conditions H F s b k cond") (simp_all add: PutObject_def)
  obtain u x where p: "Put H G s body (path_base k) (contentType meta) = (u, x)" by force
  obtain m dup where x: "x = Inr (m, dup)"
    using assms rb pc p by (cases x) (auto simp: PutObject_def)
  obtain w y where y: "S3PutObjectKey H (sv_store u) b k (Root m) = (w, y)" by force
  have run: "(case y of Inl e \<Rightarrow> (u\<lparr>sv_store := w\<rparr>, Inl (if errors_is e ErrBucketNotFound
        then S3_BucketNotFound b else S3_Lower e)) | Inr z \<Rightarrow> (u\<lparr>sv_store := w\<rparr>, Inr ())) = (t, Inr ())"
    using assms rb pc p x y by (simp add: PutObject_def with_store_def split: sum.splits)
  then have "y = Inr ()" by (cases y) simp_all
  moreover from this have "t = u\<lparr>sv_store := w\<rparr>" using run by simp
  ultimately show thesis using that p x y rb pc by blast
qed

text \<open>A successful read: the key resolves, the object opens, and the range is applied.\<close>

lemma GetObject_success:
  assumes "GetObject H G F s b k rng = (t, Inr obj)"
  obtains r u f m where "resolve H s b k = Inr r" "Open H G s r = (u, Inr (f, m))"
    "OName obj = k" "OSize obj = Size m" "OHash obj = hexBytes (MD5 m)" "OMetadata obj = metadataOf m"
    "RangeOf F rng (Size m) = Inr (ORange obj)"
    "OContents obj = (case ORange obj of None \<Rightarrow> WholeFile f | Some (st, n) \<Rightarrow> Section f st n)"
proof -
  obtain r where r: "resolve H s b k = Inr r" using assms by (auto simp: GetObject_def split: sum.splits)
  obtain u x where o: "Open H G s r = (u, x)" by force
  obtain f m where x: "x = Inr (f, m)" using assms r o by (cases x) (auto simp: GetObject_def)
  obtain g where g: "RangeOf F rng (Size m) = Inr g"
    using assms r o x by (cases "RangeOf F rng (Size m)") (auto simp: GetObject_def Let_def)
  show thesis
  proof (cases g)
    case None
    then have "obj = \<lparr>OName = k, OSize = Size m, OHash = hexBytes (MD5 m),
                           OMetadata = metadataOf m, ORange = None, OContents = WholeFile f\<rparr>"
      using assms r o x g by (simp add: GetObject_def Let_def)
    then show thesis using that [OF r o [unfolded x]] g None by simp
  next
    case (Some sn)
    obtain st n where sn: "sn = (st, n)" by force
    have "os_fault H (tick u) = None"
      using assms r o x g Some sn
      by (cases "os_fault H (tick u)") (simp_all add: GetObject_def Let_def os_call_def)
    then have "obj = \<lparr>OName = k, OSize = Size m, OHash = hexBytes (MD5 m),
                           OMetadata = metadataOf m, ORange = Some (st, n), OContents = Section f st n\<rparr>"
      using assms r o x g Some sn by (simp add: GetObject_def Let_def os_call_def)
    then show thesis using that [OF r o [unfolded x]] g Some sn by simp
  qed
qed

lemma CopyObject_success:
  assumes "CopyObject H F s sb sk db dk = (t, Inr res)"
  obtains r m w where "resolve H s sb sk = Inr r" "Get H (sv_store s) r = Inr (Some m)"
    "S3PutObjectKey H (sv_store s) db dk r = (w, Inr ())" "t = s\<lparr>sv_store := w\<rparr>"
    "res = \<lparr>CRETag = FormatETag F (hexBytes (MD5 m)), CRLastModified = UpdatedAt m\<rparr>"
proof -
  obtain r where r: "resolve H s sb sk = Inr r" using assms by (auto simp: CopyObject_def split: sum.splits)
  have rb: "requireBucket H s db = None"
    using assms r by (cases "requireBucket H s db") (simp_all add: CopyObject_def)
  obtain m where m: "Get H (sv_store s) r = Inr (Some m)"
    using assms r rb by (auto simp: CopyObject_def split: sum.splits option.splits)
  obtain w y where y: "S3PutObjectKey H (sv_store s) db dk r = (w, y)" by force
  have run: "(case y of Inl e \<Rightarrow> (s\<lparr>sv_store := w\<rparr>, Inl (if errors_is e ErrBucketNotFound
        then S3_BucketNotFound db else S3_Lower e)) | Inr z \<Rightarrow> (s\<lparr>sv_store := w\<rparr>,
        Inr \<lparr>CRETag = FormatETag F (hexBytes (MD5 m)), CRLastModified = UpdatedAt m\<rparr>)) = (t, Inr res)"
    using assms r rb m y by (simp add: CopyObject_def with_store_def split: sum.splits)
  then have y1: "y = Inr ()" by (cases y) simp_all
  show thesis using that [OF r m] y y1 run by simp
qed

section \<open>Uploads on a gateway in its invariant\<close>

context collision_free
begin

lemma PutObject_effect:
  assumes inv: "svc_inv H s" and size: "MaxSize G < 2 ^ 63"
    and run: "PutObject H G F s b k meta body cond = (t, Inr ())"
  obtains r where "svc_inv H t" "merkle_root H (rd_data body) = Inr r"
    "\<not> closed (sv_store t)" "mapped H (sv_store t) b k = Some r"
    "content_of H (sv_store t) r = Some (sha256_hex H (rd_data body), int (length (rd_data body)))"
proof -
  obtain u m dup w where p: "Put H G s body (path_base k) (contentType meta) = (u, Inr (m, dup))"
    "S3PutObjectKey H (sv_store u) b k (Root m) = (w, Inr ())" "t = u\<lparr>sv_store := w\<rparr>"
    using run by (rule PutObject_success)
  have invu: "svc_inv H u" by (rule svc_step_inv [OF Put_ok [OF inv p(1)]])
  note ret = Put_returns [OF inv size p(1)]
  have exec: "store_exec H (sv_store u) (OpPutKey b k (Root m)) = Some (w, Inr ())" using p(2) by simp
  have "svc_inv H (u\<lparr>sv_store := w\<rparr>) \<and> content_of H w = content_of H (sv_store u)"
    by (rule index_svc_inv [OF invu exec]) (use ret in simp_all)
  moreover note put_key_mapped [OF svc_invD(1) [OF invu] p(2)]
  ultimately show thesis using that [of "Root m"] ret p(3) by simp
qed

end

section \<open>Deleting many keys\<close>

context collision_free
begin

lemma delete_loop_effect:
  assumes "delete_loop H s b ks res = (t, res')" and "CHR ''/'' \<notin> set b"
  shows "\<exists>del err. MDDeleted res' = MDDeleted res @ del \<and> MDError res' = MDError res @ err
    \<and> subseq del ks \<and> subseq (map fst err) ks \<and> set del \<union> fst ` set err = set ks
    \<and> (\<forall>k \<in> set del. mapped H (sv_store t) b k = None)
    \<and> (\<forall>k. mapped H (sv_store s) b k = None \<longrightarrow> mapped H (sv_store t) b k = None)
    \<and> (\<forall>b' k'. CHR ''/'' \<notin> set b' \<and> (b' = b \<longrightarrow> k' \<notin> set del) \<longrightarrow>
         mapped H (sv_store t) b' k' = mapped H (sv_store s) b' k')
    \<and> objs t = objs s \<and> tmps t = tmps s"
  using assms(1)
proof (induction ks arbitrary: s res)
  case (Cons k ks)
  obtain w x where d: "S3DeleteObjectKey H (sv_store s) b k = (w, x)" by force
  let ?u = "s\<lparr>sv_store := w\<rparr>"
  note eff = delete_key_mapped [OF d assms(2)]
  show ?case
  proof (cases x)
    case (Inl e)
    have "delete_loop H ?u b ks (res\<lparr>MDError := MDError res @ [(k, err_text e)]\<rparr>) = (t, res')"
      using Cons.prems d Inl by (simp add: with_store_def)
    from Cons.IH [OF this] obtain del err where i: "MDDeleted res' = MDDeleted res @ del"
      "MDError res' = MDError res @ (k, err_text e) # err" "subseq del ks" "subseq (map fst err) ks"
      "set del \<union> fst ` set err = set ks" "\<forall>k \<in> set del. mapped H (sv_store t) b k = None"
      "\<forall>k. mapped H w b k = None \<longrightarrow> mapped H (sv_store t) b k = None"
      "\<forall>b' k'. CHR ''/'' \<notin> set b' \<and> (b' = b \<longrightarrow> k' \<notin> set del) \<longrightarrow> mapped H (sv_store t) b' k' = mapped H w b' k'"
      "objs t = objs s" "tmps t = tmps s" by auto
    have same: "mapped H w b' k' = mapped H (sv_store s) b' k'" if "CHR ''/'' \<notin> set b'" for b' k'
      using eff that Inl by simp
    show ?thesis
      by (intro exI [of _ del] exI [of _ "(k, err_text e) # err"])
        (use i same assms(2) in \<open>auto simp: list_emb_Cons\<close>)
  next
    case (Inr a)
    have "delete_loop H ?u b ks (res\<lparr>MDDeleted := MDDeleted res @ [k]\<rparr>) = (t, res')"
      using Cons.prems d Inr by (simp add: with_store_def)
    from Cons.IH [OF this] obtain del err where i: "MDDeleted res' = MDDeleted res @ k # del"
      "MDError res' = MDError res @ err" "subseq del ks" "subseq (map fst err) ks"
      "set del \<union> fst ` set err = set ks" "\<forall>k \<in> set del. mapped H (sv_store t) b k = None"
      "\<forall>k. mapped H w b k = None \<longrightarrow> mapped H (sv_store t) b k = None"
      "\<forall>b' k'. CHR ''/'' \<notin> set b' \<and> (b' = b \<longrightarrow> k' \<notin> set del) \<longrightarrow> mapped H (sv_store t) b' k' = mapped H w b' k'"
      "objs t = objs s" "tmps t = tmps s" by auto
    have "mapped H w b k = None" using eff Inr by simp
    moreover have "mapped H w b' k' = mapped H (sv_store s) b' k'"
      if "CHR ''/'' \<notin> set b'" "b' = b \<longrightarrow> k' \<noteq> k" for b' k'
      using eff that by auto
    ultimately show ?thesis
      using i assms(2)
      by (intro exI [of _ "k # del"] exI [of _ err]) (auto simp: list_emb_Cons, metis)
  qed
qed simp

end

section \<open>Listing\<close>

text \<open>The call that an object makes on the list, if its key matches.\<close>

definition list_entry :: "('cond, 'rng, 'pre) fakes3 \<Rightarrow> 'pre \<Rightarrow> s3_object \<Rightarrow> list_call option" where
  "list_entry F p obj =
     map_option (\<lambda>x. if CommonPrefix x then AddPrefix (MatchedPart x)
       else AddContent \<lparr>CKey = ObjKey obj, CETag = FormatETag F (hexBytes (MD5 (ObjMeta obj))),
                  CSize = Size (ObjMeta obj), CLastModified = UpdatedAt (ObjMeta obj)\<rparr>)
       (MatchPrefix F p (ObjKey obj))"

lemma list_loop_eq: "list_loop F p objs' calls = calls @ List.map_filter (list_entry F p) objs'"
  by (induction objs' arbitrary: calls) (auto simp: list_entry_def map_filter_simps split: option.splits)

text \<open>The keys of the listed contents, in order.\<close>

fun content_keys :: "list_call list \<Rightarrow> string list" where
  "content_keys [] = []"
| "content_keys (AddContent e # cs) = CKey e # content_keys cs"
| "content_keys (AddPrefix q # cs) = content_keys cs"

lemma content_keys_subseq:
  "subseq (content_keys (List.map_filter (list_entry F p) objs')) (map ObjKey objs')"
proof (induction objs')
  case (Cons ob objs')
  then show ?case by (cases "list_entry F p ob") (auto simp: map_filter_simps list_entry_def)
qed (simp add: map_filter_simps)

lemma map_filter_mem: "y \<in> set (List.map_filter f xs) \<longleftrightarrow> (\<exists>x \<in> set xs. f x = Some y)"
  by (induction xs) (auto simp: map_filter_simps split: option.splits)

lemma content_entry:
  "AddContent e \<in> set (List.map_filter (list_entry F p) obs) \<longleftrightarrow>
     (\<exists>m x. \<lparr>ObjKey = CKey e, ObjMeta = m\<rparr> \<in> set obs
        \<and> MatchPrefix F p (CKey e) = Some x \<and> \<not> CommonPrefix x
        \<and> CETag e = FormatETag F (hexBytes (MD5 m)) \<and> CSize e = Size m \<and> CLastModified e = UpdatedAt m)"
  (is "_ \<longleftrightarrow> ?R")
proof
  assume "AddContent e \<in> set (List.map_filter (list_entry F p) obs)"
  then obtain ob where ob: "ob \<in> set obs" "list_entry F p ob = Some (AddContent e)"
    unfolding map_filter_mem by blast
  obtain k m where "ob = \<lparr>ObjKey = k, ObjMeta = m\<rparr>" by (cases ob)
  then show ?R using ob by (intro exI [of _ m]) (auto simp: list_entry_def split: if_splits)
next
  assume ?R
  then obtain m x where m: "\<lparr>ObjKey = CKey e, ObjMeta = m\<rparr> \<in> set obs"
    "MatchPrefix F p (CKey e) = Some x" "\<not> CommonPrefix x"
    "CETag e = FormatETag F (hexBytes (MD5 m))" "CSize e = Size m" "CLastModified e = UpdatedAt m" by blast
  have "list_entry F p \<lparr>ObjKey = CKey e, ObjMeta = m\<rparr> = Some (AddContent e)"
    using m(2-6) by (simp add: list_entry_def)
  then show "AddContent e \<in> set (List.map_filter (list_entry F p) obs)"
    unfolding map_filter_mem using m(1) by blast
qed

lemma prefix_entry:
  "AddPrefix q \<in> set (List.map_filter (list_entry F p) obs) \<longleftrightarrow>
     (\<exists>k m x. \<lparr>ObjKey = k, ObjMeta = m\<rparr> \<in> set obs
        \<and> MatchPrefix F p k = Some x \<and> CommonPrefix x \<and> MatchedPart x = q)"
  (is "_ \<longleftrightarrow> ?R")
proof
  assume "AddPrefix q \<in> set (List.map_filter (list_entry F p) obs)"
  then obtain ob where ob: "ob \<in> set obs" "list_entry F p ob = Some (AddPrefix q)"
    unfolding map_filter_mem by blast
  obtain k m where "ob = \<lparr>ObjKey = k, ObjMeta = m\<rparr>" by (cases ob)
  then show ?R using ob by (intro exI [of _ k] exI [of _ m]) (auto simp: list_entry_def split: if_splits)
next
  assume ?R
  then obtain k m x where k: "\<lparr>ObjKey = k, ObjMeta = m\<rparr> \<in> set obs"
    "MatchPrefix F p k = Some x" "CommonPrefix x" "MatchedPart x = q" by blast
  then have "list_entry F p \<lparr>ObjKey = k, ObjMeta = m\<rparr> = Some (AddPrefix q)" by (simp add: list_entry_def)
  then show "AddPrefix q \<in> set (List.map_filter (list_entry F p) obs)"
    unfolding map_filter_mem using k(1) by blast
qed

lemma sorted_wrt_subseq: "subseq xs ys \<Longrightarrow> sorted_wrt P ys \<Longrightarrow> sorted_wrt P xs"
  by (induction rule: list_emb.induct) (auto dest: list_emb_set)

end
