(* ===== verification/S3_Run.thy ===== *)
theory S3_Run
  imports S3_Facts
begin

text \<open>
  S3 traffic as runs of the gateway: every call of the S3 server on the backend is a sequence of
  the steps of \<open>Gateway\<close>, so that every property of the gateway's reachable states holds under S3
  traffic.
\<close>

section \<open>Calls\<close>

text \<open>
  A call of the server. It creates buckets with the names that pass its validation, which have
  no slash. \<open>HeadObject\<close>, \<open>ListBucket\<close>, \<open>ListBuckets\<close> and \<open>BucketExists\<close> have no effect.
  \<open>s3_plain\<close> are the calls other than \<open>ForceDeleteBucket\<close>.
\<close>

inductive s3_plain ::
  "('b, 'v, 'd, 'z) svc_host_scheme \<Rightarrow> svc_config \<Rightarrow> ('cond, 'rng, 'pre) fakes3
     \<Rightarrow> ('b, 'd) svc \<Rightarrow> ('b, 'd) svc \<Rightarrow> bool"
  for H :: "('b, 'v, 'd, 'z) svc_host_scheme" and G :: svc_config and F :: "('cond, 'rng, 'pre) fakes3"
where
  s3_create: "CreateBucket H s n = (t, w) \<Longrightarrow> CHR ''/'' \<notin> set n \<Longrightarrow> s3_plain H G F s t"
| s3_delete_bucket: "DeleteBucket H s n = (t, w) \<Longrightarrow> s3_plain H G F s t"
| s3_put: "PutObject H G F s b k meta body cond = (t, w) \<Longrightarrow> s3_plain H G F s t"
| s3_get: "GetObject H G F s b k rng = (t, obj) \<Longrightarrow> s3_plain H G F s t"
| s3_delete: "DeleteObject H s b k = (t, w) \<Longrightarrow> s3_plain H G F s t"
| s3_multi: "DeleteMulti H s b ks = (t, mw) \<Longrightarrow> s3_plain H G F s t"
| s3_copy: "CopyObject H F s sb sk db dk = (t, cw) \<Longrightarrow> s3_plain H G F s t"

inductive s3_call ::
  "('b, 'v, 'd, 'z) svc_host_scheme \<Rightarrow> svc_config \<Rightarrow> ('cond, 'rng, 'pre) fakes3
     \<Rightarrow> ('b, 'd) svc \<Rightarrow> ('b, 'd) svc \<Rightarrow> bool"
  for H :: "('b, 'v, 'd, 'z) svc_host_scheme" and G :: svc_config and F :: "('cond, 'rng, 'pre) fakes3"
where
  s3_unforced: "s3_plain H G F s t \<Longrightarrow> s3_call H G F s t"
| s3_force: "ForceDeleteBucket H s n = Some (t, w) \<Longrightarrow> s3_call H G F s t"

section \<open>Steps that keep every key in its bucket\<close>

text \<open>
  A step of the gateway that, from a state that satisfies the invariant, leaves no key outside the
  registered buckets if there was none.
\<close>

definition gw_kept ::
  "('b, 'v, 'd, 'z) svc_host_scheme \<Rightarrow> 'c chain \<Rightarrow> worker_config \<Rightarrow> svc_config
     \<Rightarrow> ('c, 'b, 'd) gateway \<Rightarrow> ('c, 'b, 'd) gateway \<Rightarrow> bool" where
  "gw_kept H C W G cv cw \<longleftrightarrow> gw_step H C W G cv cw
     \<and> (svc_inv H (snd cv) \<and> orphan_free H (sv_store (snd cv)) \<longrightarrow> orphan_free H (sv_store (snd cw)))"

context store_host
begin

lemma client_orphan:
  "(client_step H)\<^sup>*\<^sup>* s t \<Longrightarrow> store_inv H s \<Longrightarrow> orphan_free H s \<Longrightarrow> store_inv H t \<and> orphan_free H t"
proof (induction rule: rtranclp_induct)
  case (step t u)
  then obtain p x where p: "store_exec H t p = Some (u, x)" "op_ok H t p" "request_op p"
    by (auto simp: client_step_def)
  then have "p \<noteq> OpForceDelete n" for n by auto
  then show ?case using store_exec_inv [OF p(1,2)] store_exec_orphan [OF p(1)] step by blast
qed simp

lemma touched_orphan: "touched H R l s t \<Longrightarrow> store_inv H s \<Longrightarrow> orphan_free H s \<Longrightarrow> orphan_free H t"
proof (induction rule: touched.induct)
  case (touched_step s t p u x)
  have "p \<noteq> OpForceDelete n" for n using touched_step.hyps(2) by auto
  then show ?case
    using store_exec_orphan [OF touched_step.hyps(3) touched_inv [OF touched_step.hyps(1)]] touched_step by blast
qed simp

end

context collision_free
begin

lemma kept_index:
  assumes "store_exec H (sv_store s) p = Some (w, x)" and "op_ok H (sv_store s) p" and "index_op p"
    and "\<And>n. p \<noteq> OpForceDelete n"
  shows "gw_kept H C W G (cl, s) (cl, s\<lparr>sv_store := w\<rparr>)"
  using gw_index [OF assms(1-3)] store_exec_orphan [OF assms(1) _ _ assms(4)]
  by (simp add: gw_kept_def svc_inv_def)

lemma kept_client:
  assumes "gw_step H C W G (cl, s) (cl, t)" and "svc_inv H s \<Longrightarrow> svc_step_ok H s t"
  shows "gw_kept H C W G (cl, s) (cl, t)"
  using assms client_orphan [of "sv_store s" "sv_store t"] svc_invD(1) [of H s]
  by (auto simp: gw_kept_def svc_step_ok_def)

lemma kept_put: "Put H G s r fn ct = (t, x) \<Longrightarrow> gw_kept H C W G (cl, s) (cl, t)"
  by (rule kept_client [OF gw_put]) (assumption, rule Put_ok)

lemma kept_open: "Open H G s root = (t, x) \<Longrightarrow> gw_kept H C W G (cl, s) (cl, t)"
  by (rule kept_client [OF gw_open]) (assumption, rule Open_ok)

lemma kept_same_store:
  "gw_step H C W G (cl, s) (cl, t) \<Longrightarrow> sv_store t = sv_store s \<Longrightarrow> gw_kept H C W G (cl, s) (cl, t)"
  by (simp add: gw_kept_def)

lemma kept_tick: "gw_kept H C W G (cl, s) (cl, s\<lparr>tick := Suc (tick s)\<rparr>)"
  by (rule kept_same_store [OF gw_tick]) simp

lemma kept_run:
  assumes "(gw_kept H C W G)\<^sup>*\<^sup>* cv cw" and "svc_inv H (snd cv)"
  shows "(gw_step H C W G)\<^sup>*\<^sup>* cv cw
    \<and> (orphan_free H (sv_store (snd cv)) \<longrightarrow> orphan_free H (sv_store (snd cw)))"
  using assms(1)
proof (induction rule: rtranclp_induct)
  case (step x y)
  have "svc_inv H (snd x)" using gw.inv_run [of C W G cv x] step.IH assms(2) by blast
  then show ?case using step by (auto simp: gw_kept_def intro: rtranclp.rtrancl_into_rtrancl)
qed simp

end

section \<open>Each call is a run\<close>

abbreviation gw_run ::
  "('b, 'v, 'd, 'z) svc_host_scheme \<Rightarrow> 'c chain \<Rightarrow> worker_config \<Rightarrow> svc_config
     \<Rightarrow> 'c \<times> chain_call list \<Rightarrow> ('b, 'd) svc \<Rightarrow> ('b, 'd) svc \<Rightarrow> bool" where
  "gw_run H C W G cl s t \<equiv> (gw_kept H C W G)\<^sup>*\<^sup>* (cl, s) (cl, t)"

context collision_free
begin

text \<open>An index operation whose result goes through \<open>with_store\<close>.\<close>

lemma index_run:
  assumes "store_exec H (sv_store s) p = Some (w, x)" and "op_ok H (sv_store s) p" and "index_op p"
    and "\<And>n. p \<noteq> OpForceDelete n"
  shows "gw_run H C W G cl s (s\<lparr>sv_store := w\<rparr>)"
  using kept_index [OF assms] by (rule r_into_rtranclp)

lemma delete_loop_run:
  assumes "delete_loop H s b ks res = (t, res')"
  shows "gw_run H C W G cl s t"
  using assms
proof (induction ks arbitrary: s res)
  case (Cons k ks)
  obtain w x where d: "S3DeleteObjectKey H (sv_store s) b k = (w, x)" by force
  obtain res1 where "delete_loop H (s\<lparr>sv_store := w\<rparr>) b ks res1 = (t, res')"
    using Cons.prems d by (cases x) (auto simp: with_store_def)
  then have "gw_run H C W G cl (s\<lparr>sv_store := w\<rparr>) t" by (rule Cons.IH)
  moreover have "gw_run H C W G cl s (s\<lparr>sv_store := w\<rparr>)"
    by (rule index_run [of _ "OpDeleteKey b k" _ x]) (simp_all add: d)
  ultimately show ?case by (rule rtranclp_trans [rotated])
qed simp

lemma GetObject_run:
  assumes "GetObject H G F s b k rng = (t, obj)"
  shows "gw_run H C W G cl s t"
proof (cases "resolve H s b k")
  case (Inl e)
  then show ?thesis using assms by (simp add: GetObject_def)
next
  case (Inr r)
  obtain u x where o: "Open H G s r = (u, x)" by force
  have "t = u \<or> t = u\<lparr>tick := Suc (tick u)\<rparr>"
    using assms Inr o
    by (auto simp: GetObject_def Let_def os_call_def split: sum.splits option.splits)
  moreover have "gw_run H C W G cl s u" using kept_open [OF o] by (rule r_into_rtranclp)
  ultimately show ?thesis using kept_tick [of C W G cl u] by (metis rtranclp.rtrancl_into_rtrancl)
qed

lemma CreateBucket_run:
  assumes "CreateBucket H s n = (t, w)" and "CHR ''/'' \<notin> set n"
  shows "gw_run H C W G cl s t"
proof -
  let ?u = "s\<lparr>tick := Suc (tick s)\<rparr>"
  obtain w' x where c: "S3CreateBucket H (sv_store s) n (wall H (tick s)) = (w', x)" by force
  have "t = ?u\<lparr>sv_store := w'\<rparr>"
    using assms(1) c by (cases x) (simp_all add: CreateBucket_def with_store_def)
  moreover have "gw_run H C W G cl ?u (?u\<lparr>sv_store := w'\<rparr>)"
    by (rule index_run [of _ "OpCreateBucket n (wall H (tick s))" _ x]) (use assms c in simp_all)
  ultimately show ?thesis using kept_tick [of C W G cl s] by (metis converse_rtranclp_into_rtranclp)
qed

lemma PutObject_run:
  assumes inv: "svc_inv H s" and size: "MaxSize G < 2 ^ 63"
    and run: "PutObject H G F s b k meta body cond = (t, w)"
  shows "gw_run H C W G cl s t"
proof (cases "requireBucket H s b = None \<and> put_conditions H F s b k cond = None")
  case False
  then have "t = s" using run by (auto simp: PutObject_def split: option.splits)
  then show ?thesis by simp
next
  case True
  obtain u x where p: "Put H G s body (path_base k) (contentType meta) = (u, x)" by force
  have put: "gw_run H C W G cl s u" using kept_put [OF p] by (rule r_into_rtranclp)
  show ?thesis
  proof (cases x)
    case (Inl e)
    then have "t = u" using run True p by (simp add: PutObject_def)
    then show ?thesis using put by simp
  next
    case (Inr md)
    obtain m dup where x: "x = Inr (m, dup)" using Inr by (cases md) simp
    obtain w' y where y: "S3PutObjectKey H (sv_store u) b k (Root m) = (w', y)" by force
    have "t = u\<lparr>sv_store := w'\<rparr>"
      using run True p x y by (cases y) (simp_all add: PutObject_def with_store_def)
    moreover have "gw_run H C W G cl u (u\<lparr>sv_store := w'\<rparr>)"
    proof (rule index_run [of _ "OpPutKey b k (Root m)" _ y])
      show "op_ok H (sv_store u) (OpPutKey b k (Root m))"
        using Put_returns [OF inv size p [unfolded x]] by (simp add: content_of_def)
    qed (simp_all add: y)
    ultimately show ?thesis using put by (simp add: rtranclp_trans)
  qed
qed

lemma CopyObject_run:
  assumes inv: "svc_inv H s" and run: "CopyObject H F s sb sk db dk = (t, cw)"
  shows "gw_run H C W G cl s t"
proof (cases "\<exists>r m. resolve H s sb sk = Inr r \<and> requireBucket H s db = None
    \<and> Get H (sv_store s) r = Inr (Some m)")
  case False
  then have "t = s"
    using run by (auto simp: CopyObject_def split: sum.splits option.splits)
  then show ?thesis by simp
next
  case True
  then obtain r m where r: "resolve H s sb sk = Inr r" "requireBucket H s db = None"
    "Get H (sv_store s) r = Inr (Some m)" by blast
  obtain w' y where y: "S3PutObjectKey H (sv_store s) db dk r = (w', y)" by force
  have "t = s\<lparr>sv_store := w'\<rparr>"
    using run r y by (cases y) (simp_all add: CopyObject_def with_store_def)
  moreover have "meta_at H (sv_store s) r \<noteq> None"
    using r(3) by (auto simp: Get_def db_view_def split: if_splits dest: getMeta_Some)
  then have "gw_run H C W G cl s (s\<lparr>sv_store := w'\<rparr>)"
    by (intro index_run [of _ "OpPutKey db dk r" _ y]) (simp_all add: y)
  ultimately show ?thesis by simp
qed

lemma s3_plain_run:
  assumes "s3_plain H G F s t" and inv: "svc_inv H s" and size: "MaxSize G < 2 ^ 63"
  shows "gw_run H C W G cl s t"
  using assms(1)
proof cases
  case (s3_delete_bucket n w)
  obtain w' x where d: "S3DeleteBucket H (sv_store s) n = (w', x)" by force
  have "t = s\<lparr>sv_store := w'\<rparr>"
    using s3_delete_bucket d by (cases x) (simp_all add: DeleteBucket_def with_store_def)
  then show ?thesis using index_run [of s "OpDeleteBucket n" w' x C W G cl] d by simp
next
  case (s3_delete b k w)
  obtain w' x where d: "S3DeleteObjectKey H (sv_store s) b k = (w', x)" by force
  have "t = s \<or> t = s\<lparr>sv_store := w'\<rparr>"
    using s3_delete d by (auto simp: DeleteObject_def with_store_def split: option.splits)
  then show ?thesis using index_run [of s "OpDeleteKey b k" w' x C W G cl] d by auto
next
  case (s3_multi b ks mw)
  then have "t = s \<or> (\<exists>res. delete_loop H s b ks \<lparr>MDDeleted = [], MDError = []\<rparr> = (t, res))"
    by (auto simp: DeleteMulti_def split: option.splits prod.splits)
  then show ?thesis using delete_loop_run by blast
next
  case (s3_create n w)
  then show ?thesis by (rule CreateBucket_run)
next
  case (s3_put b k meta body cond w)
  then show ?thesis by (rule PutObject_run [OF inv size])
next
  case (s3_get b k rng obj)
  then show ?thesis by (rule GetObject_run)
next
  case (s3_copy sb sk db dk cw)
  then show ?thesis by (rule CopyObject_run [OF inv])
qed

text \<open>A force deletion is a step of the gateway too.\<close>

lemma s3_call_run:
  assumes "s3_call H G F s t" and inv: "svc_inv H s" and size: "MaxSize G < 2 ^ 63"
  shows "(gw_step H C W G)\<^sup>*\<^sup>* (cl, s) (cl, t)"
  using assms(1)
proof cases
  case s3_unforced
  then have "(gw_kept H C W G)\<^sup>*\<^sup>* (cl, s) (cl, t)" by (rule s3_plain_run [OF _ inv size])
  from kept_run [OF this] show ?thesis using inv by simp
next
  case (s3_force n w)
  obtain w' x where d: "S3ForceDeleteBucket H (sv_store s) n = Some (w', x)"
    using s3_force by (auto simp: ForceDeleteBucket_def split: option.splits)
  have "t = s\<lparr>sv_store := w'\<rparr>"
    using s3_force d by (cases x) (simp_all add: ForceDeleteBucket_def with_store_def)
  then show ?thesis using gw_index [of H s "OpForceDelete n" w' x C W G cl] d by (simp add: r_into_rtranclp)
qed

end

section \<open>The gateway behind the S3 server\<close>

text \<open>
  The whole gateway as its S3 clients drive it, without force deletions: calls of the server, the
  admission of uploads and the image middleware, the passes of the worker, restarts, the clock, and
  the closing of the database.
\<close>

inductive s3_step ::
  "('b, 'v, 'd, 'z) svc_host_scheme \<Rightarrow> 'c chain \<Rightarrow> worker_config \<Rightarrow> svc_config \<Rightarrow> ('cond, 'rng, 'pre) fakes3
     \<Rightarrow> ('c, 'b, 'd) gateway \<Rightarrow> ('c, 'b, 'd) gateway \<Rightarrow> bool"
  for H :: "('b, 'v, 'd, 'z) svc_host_scheme" and C :: "'c chain" and W :: worker_config and G :: svc_config
    and F :: "('cond, 'rng, 'pre) fakes3"
where
  step_serve: "s3_plain H G F s t \<Longrightarrow> s3_step H C W G F (cl, s) (cl, t)"
| step_admit: "ShouldRejectWrite H G s = (t, reject) \<Longrightarrow> s3_step H C W G F (cl, s) (cl, t)"
| step_image: "Open H G s root = (t, x) \<Longrightarrow> s3_step H C W G F (cl, s) (cl, t)"
| step_flush: "Flush H (logged C) W (cl, sv_store s) = Some ((cl', w), e) \<Longrightarrow> 0 < BatchMax W \<Longrightarrow>
    s3_step H C W G F (cl, s) (cl', s\<lparr>sv_store := w\<rparr>)"
| step_poll: "PollFinality H (logged C) (cl, sv_store s) = ((cl', w), e) \<Longrightarrow>
    s3_step H C W G F (cl, s) (cl', s\<lparr>sv_store := w\<rparr>)"
| step_restart: "New_service H G s = (t, u) \<Longrightarrow> s3_step H C W G F (cl, s) (cl, t)"
| step_clock: "s3_step H C W G F (cl, s) (cl, s\<lparr>tick := Suc (tick s)\<rparr>)"
| step_close: "s3_step H C W G F (cl, s) (cl, s\<lparr>sv_store := Close_store (sv_store s)\<rparr>)"

definition s3_reachable ::
  "('b, 'v, 'd, 'z) svc_host_scheme \<Rightarrow> 'c chain \<Rightarrow> worker_config \<Rightarrow> svc_config \<Rightarrow> ('cond, 'rng, 'pre) fakes3
     \<Rightarrow> ('c, 'b, 'd) gateway \<Rightarrow> bool" where
  "s3_reachable H C W G F cv \<longleftrightarrow> (\<exists>cv0. gw_start H cv0 \<and> (s3_step H C W G F)\<^sup>*\<^sup>* cv0 cv)"

context collision_free
begin

lemma worker_step_kept:
  assumes "touched H R l (sv_store s) w" and "gw_step H C W G (cl, s) (cl', s\<lparr>sv_store := w\<rparr>)"
  shows "gw_kept H C W G (cl, s) (cl', s\<lparr>sv_store := w\<rparr>)"
  using assms touched_orphan [OF assms(1)] svc_invD(1) [of H s] by (simp add: gw_kept_def)

lemma s3_step_run:
  assumes "s3_step H C W G F (cl, s) (cl', t)" and inv: "svc_inv H s" and size: "MaxSize G < 2 ^ 63"
  shows "(gw_kept H C W G)\<^sup>*\<^sup>* (cl, s) (cl', t)"
  using assms(1)
proof cases
  case step_serve
  then show ?thesis using s3_plain_run [OF _ inv size] by blast
next
  case (step_admit reject)
  have "gw_kept H C W G (cl, s) (cl, t)"
    by (rule kept_client [OF gw_admit [OF step_admit(2)]]) (use ShouldRejectWrite_ok [of s G] step_admit(2) in simp)
  then show ?thesis using step_admit(1) by blast
next
  case (step_image root x)
  then show ?thesis using kept_open by blast
next
  case (step_flush w e)
  show ?thesis
  proof (cases "closed (sv_store s)")
    case True
    then have "w = sv_store s"
      using step_flush(2) by (auto simp: Flush_def UploadQueue_def listQueue_def db_view_def)
    then show ?thesis using gw_flush [OF step_flush(2,3)] step_flush(1) by (auto simp: gw_kept_def)
  next
    case False
    obtain c l where cl: "cl = (c, l)" by force
    obtain ms :: "object_meta list" and c1 l1 s1 e1 where
      f: "Flush H (logged C) W ((c, l), sv_store s) = Some (((c1, l1), s1), e1)"
      and "flush_done H W (sv_store s) l (map Root ms) l1 s1"
      using Flush_calls [OF svc_invD(1) [OF inv] False step_flush(3), of C c l] by blast
    then obtain new where "touched H (set (map Root ms)) new (sv_store s) w"
      using step_flush(2) cl by (auto simp: flush_done_def)
    then show ?thesis
      using worker_step_kept [OF _ gw_flush [OF step_flush(2,3)]] step_flush(1) by blast
  qed
next
  case (step_poll w e)
  obtain c l where cl: "cl = (c, l)" by force
  obtain d new u e1 R where "PollFinality H (logged C) ((c, l), sv_store s) = (((d, l @ new), u), e1)"
    and "touched H R new (sv_store s) u"
    using PollFinality_calls [OF svc_invD(1) [OF inv], of C c l] by blast
  then show ?thesis
    using worker_step_kept [OF _ gw_poll [OF step_poll(2)]] step_poll cl by auto
next
  case (step_restart u)
  have "gw_kept H C W G (cl, s) (cl, t)"
    by (rule kept_client [OF gw_restart [OF step_restart(2)]]) (rule New_service_ok [OF _ step_restart(2)])
  then show ?thesis using step_restart(1) by blast
next
  case step_clock
  then show ?thesis using kept_tick by blast
next
  case step_close
  then show ?thesis using index_run [of s OpClose "Close_store (sv_store s)" "Inr ()"] by simp
qed

text \<open>What S3 clients can reach is reachable for the gateway, and has no key outside its bucket.\<close>

lemma s3_reachable_kept:
  assumes "s3_reachable H C W G F cv" and size: "MaxSize G < 2 ^ 63"
  shows "gw_reachable H C W G cv \<and> svc_inv H (snd cv) \<and> orphan_free H (sv_store (snd cv))"
proof -
  obtain cv0 where cv0: "gw_start H cv0" and run: "(s3_step H C W G F)\<^sup>*\<^sup>* cv0 cv"
    using assms(1) by (auto simp: s3_reachable_def)
  from run show ?thesis
  proof (induction rule: rtranclp_induct)
    case base
    then show ?case
      using gw_reachable_start [OF cv0] gw_start_inv [OF cv0] store_start_inv(2) cv0 by (simp add: gw_start_def)
  next
    case (step x y)
    have "(gw_kept H C W G)\<^sup>*\<^sup>* x y"
      using s3_step_run [of C W G F "fst x" "snd x" "fst y" "snd y"] step size by simp
    from kept_run [OF this] step.IH show ?case
      using gw_reachable_run gw_reachable_inv by blast
  qed
qed

end

end
