(* ===== verification/S3_Example.thy ===== *)
theory S3_Example
  imports S3_Run Gateway_Example
begin

text \<open>
  An example of S3 traffic on the reference host: a bucket is created, an object is uploaded to
  a key, copied to another key and read back. The helpers of gofakes3 are instantiated by
  simple functions of the documented behaviour: unconditional checks, a range that is the
  first bytes or none, and prefixes of keys.
\<close>

definition ref_fake :: "(string, int, string) fakes3" where
  "ref_fake =
     \<lparr>CheckPutConditions = (\<lambda>h info. if fst info \<and> snd info = h then None
        else Some (S3_Fake ''PreconditionFailed'')),
      RangeOf = (\<lambda>r n. case r of None \<Rightarrow> Inr None
        | Some k \<Rightarrow> if k < 0 \<or> n \<le> k then Inl (S3_Fake ''InvalidRange'') else Inr (Some (k, n - k))),
      MatchPrefix = (\<lambda>p k. if prefix p k then Some \<lparr>CommonPrefix = False, MatchedPart = k\<rparr> else None),
      EmptyPrefix = [], FormatETag = (\<lambda>h. h)\<rparr>"

definition sx_bucket :: "((string \<times> bval) list, (string \<times> string) list) svc" where
  "sx_bucket = fst (CreateBucket gx_host gx_start ''docs'')"

definition sx_meta :: "(string \<times> string) list" where
  "sx_meta = [(''Content-Type'', ''t'')]"

definition sx_put :: "((string \<times> bval) list, (string \<times> string) list) svc" where
  "sx_put = fst (PutObject gx_host gx_config ref_fake sx_bucket ''docs'' ''a/f'' sx_meta gx_body None)"

lemmas s3_eval = requireBucket_def S3BucketExists_def put_conditions_def contentType_def
  resolve_def S3GetObjectKey_def CreateBucket_def

lemma sx_base: "path_base ''a/f'' = ''f''"
  by code_simp

lemma sx_bucket_eq:
  "CreateBucket gx_host gx_start ''docs'' = (sx_bucket, Inr ())"
  "sx_bucket = gx_start\<lparr>tick := 1, sv_store := fst (S3CreateBucket ref_host ex_start ''docs'' 1750000000000000000)\<rparr>"
  by (simp_all add: sx_bucket_def s3_eval gx_eval gx_start_def ex_start_def store_eval)

lemma sx_put_eq:
  "PutObject gx_host gx_config ref_fake sx_bucket ''docs'' ''a/f'' sx_meta gx_body None = (sx_put, Inr ())"
  by (simp add: sx_put_def PutObject_def sx_base sx_meta_def s3_eval Put_def Put_fresh_def gx_eval sx_bucket_eq(2)
      gx_start_def gx_config_def gx_body_def ex_start_def store_eval)

definition sx_obj :: object_meta where
  "sx_obj =
     \<lparr>Root = gx_root, SHA256 = ''616263'', MD5 = ''616263'', Size = 3, Filename = ''f'', ContentType = ''t'',
      Status = StatusPending, TxHash = [], FailReason = [], Retries = 0, SkipTx = False,
      CreatedAt = 1750000002000000000, UpdatedAt = 1750000002000000000, LastAccess = 1750000002000000000\<rparr>"

lemma sx_put_val:
  "sx_put =
     \<lparr>sv_store =
        \<lparr>objects = [(gx_root, VMeta sx_obj)], sha_index = [(''616263'', VBytes gx_root)],
         q_upload = [(gx_root, VBytes [])], q_finalize = [],
         s3_buckets = [(''docs'', VBucket \<lparr>BName = ''docs'', BCreatedAt = 1750000000000000000\<rparr>)],
         s3_keys = [(''docs/a/f'', VBytes gx_root)], txn = 4, closed = False\<rparr>,
      sv_dl = [], objs = [(gx_root, RegFile ''abc'')], tmps = [], cacheBytes = 3, evicting = False, tick = 6\<rparr>"
  by (simp add: sx_put_def PutObject_def sx_base sx_meta_def s3_eval Put_def Put_fresh_def gx_eval sx_bucket_eq(2)
      gx_start_def gx_config_def gx_body_def ex_start_def store_eval sx_obj_def)

text \<open>The parts of the operations on that state.\<close>

lemma sx_parts:
  "requireBucket gx_host sx_put ''docs'' = None"
  "Get gx_host (sv_store sx_put) gx_root = Inr (Some sx_obj)"
  "resolve gx_host sx_put ''docs'' ''a/f'' = Inr gx_root"
  "S3ListObjects gx_host (sv_store sx_put) ''docs'' = Inr [\<lparr>ObjKey = ''a/f'', ObjMeta = sx_obj\<rparr>]"
  "Open gx_host gx_config sx_put gx_root = (sx_put\<lparr>tick := 9\<rparr>, Inr (RegFile ''abc'', sx_obj))"
  by (simp_all add: S3ListObjects_def alist_entries_def cursor_seek_def Open_def open_cached_def touch_svc_def
      touchInterval_def s3_eval sx_put_val sx_obj_def gx_eval gx_config_def store_eval)

lemma sx_get:
  "GetObject gx_host gx_config ref_fake sx_put ''docs'' ''a/f'' (Some 1)
   = (sx_put\<lparr>tick := 10\<rparr>, Inr \<lparr>OName = ''a/f'', OSize = 3, OHash = hexBytes (MD5 sx_obj),
        OMetadata = metadataOf sx_obj, ORange = Some (1, 2), OContents = Section (RegFile ''abc'') 1 2\<rparr>)"
proof -
  have "os_fault gx_host n = None" for n by (simp add: gx_host_def ref_svc_def)
  moreover have "RangeOf ref_fake (Some 1) 3 = Inr (Some (1, 2))" by (simp add: ref_fake_def)
  moreover have "Size sx_obj = 3" "tick sx_put = 6" by (simp_all add: sx_obj_def sx_put_val)
  ultimately show ?thesis by (simp add: GetObject_def sx_parts os_call_def)
qed

definition sx_copied :: "((string \<times> bval) list, (string \<times> string) list) svc" where
  "sx_copied = sx_put\<lparr>sv_store := fst (S3PutObjectKey gx_host (sv_store sx_put) ''docs'' ''b'' gx_root)\<rparr>"

lemma sx_copy:
  "CopyObject gx_host ref_fake sx_put ''docs'' ''a/f'' ''docs'' ''b''
   = (sx_copied, Inr \<lparr>CRETag = FormatETag ref_fake (hexBytes (MD5 sx_obj)), CRLastModified = UpdatedAt sx_obj\<rparr>)"
proof -
  have "\<exists>w. S3PutObjectKey gx_host (sv_store sx_put) ''docs'' ''b'' gx_root = (w, Inr ())"
    by (simp add: sx_put_val gx_eval store_eval)
  then show ?thesis by (auto simp: CopyObject_def sx_parts with_store_def sx_copied_def)
qed

definition sx_entry :: content_entry where
  "sx_entry = \<lparr>CKey = ''a/f'', CETag = FormatETag ref_fake (hexBytes (MD5 sx_obj)),
     CSize = Size sx_obj, CLastModified = UpdatedAt sx_obj\<rparr>"

lemma sx_list: "ListBucket gx_host ref_fake sx_put ''docs'' None True = Inr [AddContent sx_entry]"
proof -
  have "MatchPrefix ref_fake (EmptyPrefix ref_fake) k = Some \<lparr>CommonPrefix = False, MatchedPart = k\<rparr>" for k
    by (simp add: ref_fake_def)
  then show ?thesis by (simp add: ListBucket_def sx_parts sx_entry_def)
qed

text \<open>The states are reachable.\<close>

lemma sx_s3_bucket: "s3_reachable gx_host C W gx_config ref_fake ((c, []), sx_bucket)"
  unfolding s3_reachable_def
proof (intro exI conjI)
  show "gw_start gx_host ((c, []), gx_start)" by (simp add: gw_start_def gx_start_def gx_store_start)
  have "s3_plain gx_host gx_config ref_fake gx_start sx_bucket" by (rule s3_create [OF sx_bucket_eq(1)]) simp
  then show "(s3_step gx_host C W gx_config ref_fake)\<^sup>*\<^sup>* ((c, []), gx_start) ((c, []), sx_bucket)"
    by (intro r_into_rtranclp step_serve)
qed

lemma sx_s3_put: "s3_reachable gx_host C W gx_config ref_fake ((c, []), sx_put)"
proof -
  have "s3_plain gx_host gx_config ref_fake sx_bucket sx_put" by (rule s3_put [OF sx_put_eq])
  then have "s3_step gx_host C W gx_config ref_fake ((c, []), sx_bucket) ((c, []), sx_put)" by (rule step_serve)
  then show ?thesis
    using sx_s3_bucket [of C W c] unfolding s3_reachable_def by (meson rtranclp.rtrancl_into_rtrancl)
qed

lemma sx_limit: "MaxSize gx_config < 2 ^ 63"
  by (simp add: gx_config_def)

lemmas sx_bucket_reachable = collision_free.s3_reachable_kept [OF gx_hosts(1) sx_s3_bucket sx_limit, THEN conjunct1]
  and sx_put_reachable = collision_free.s3_reachable_kept [OF gx_hosts(1) sx_s3_put sx_limit, THEN conjunct1]

end
