(* ===== verification/S3_Props.thy ===== *)
theory S3_Props
  imports S3_Example Uploader_Props
begin

text \<open>
  The properties of the S3 operations over the object service and the bucket index.
\<close>

section \<open>Composition\<close>

text \<open>
  C23: S3 traffic is gateway traffic. Every call of the S3 server on the backend, successful or
  not, is a run of gateway steps, so a reachable gateway stays reachable under it and every
  property of reachable gateways holds at the S3 interface.
\<close>

theorem s3_refines_gateway:
  assumes "collision_free H" and "gw_reachable H C W G (cl, s)" and "MaxSize G < 2 ^ 63"
    and "s3_call H G F s t"
  shows "(gw_step H C W G)\<^sup>*\<^sup>* (cl, s) (cl, t) \<and> gw_reachable H C W G (cl, t)"
proof -
  have "svc_inv H s" using collision_free.gw_reachable_inv [OF assms(1,2)] by simp
  then have "(gw_step H C W G)\<^sup>*\<^sup>* (cl, s) (cl, t)"
    using collision_free.s3_call_run [OF assms(1,4)] assms(3) by blast
  then show ?thesis using gw_reachable_run [OF assms(2)] by blast
qed

theorem s3_refines_gateway_witness:
  "gw_reachable gx_host ex_chain ex_config gx_config ((0, []), sx_bucket)"
proof -
  have "s3_call gx_host gx_config ref_fake gx_start sx_bucket"
    by (intro s3_unforced s3_create [OF sx_bucket_eq(1)]) simp
  moreover have "MaxSize gx_config < 2 ^ 63" by (simp add: gx_config_def)
  ultimately show ?thesis
    using s3_refines_gateway [OF gx_hosts(1) gx_reachable(1) [of ex_chain ex_config 0]] by blast
qed

section \<open>Objects\<close>

text \<open>
  C7: Read your writes at the S3 interface. When \<open>PutObject\<close> succeeds and, after any further run
  of the gateway that leaves the key mapped as it was, \<open>GetObject\<close> of the key succeeds, the
  reported size is the size of the uploaded body and the contents are the body or, for a range
  request, exactly the section of it that the range selects.
\<close>

theorem s3_read_your_writes:
  assumes "collision_free H" and "gw_reachable H C W G (cl, s)" and "MaxSize G < 2 ^ 63"
    and "PutObject H G F s b k meta body cond = (t, Inr ())"
    and "(gw_step H C W G)\<^sup>*\<^sup>* (cl, t) (cl2, u)"
    and "S3GetObjectKey H (sv_store u) b k = S3GetObjectKey H (sv_store t) b k"
    and "GetObject H G F u b k rng = (v, Inr obj)"
  shows "OSize obj = int (length (rd_data body))
    \<and> RangeOf F rng (int (length (rd_data body))) = Inr (ORange obj)
    \<and> contents_bytes (OContents obj)
      = Inr (case ORange obj of None \<Rightarrow> rd_data body
             | Some (start, n) \<Rightarrow> take (nat n) (drop (nat start) (rd_data body)))"
proof -
  have inv: "svc_inv H s" using collision_free.gw_reachable_inv [OF assms(1,2)] by simp
  obtain r where r: "svc_inv H t" "merkle_root H (rd_data body) = Inr r"
    "\<not> closed (sv_store t)" "mapped H (sv_store t) b k = Some r"
    "content_of H (sv_store t) r = Some (sha256_hex H (rd_data body), int (length (rd_data body)))"
    using collision_free.PutObject_effect [OF assms(1) inv assms(3,4)] by blast
  have invu: "svc_inv H u"
    using collision_free.gw_run_content [OF assms(1,5)] r by auto
  have "S3GetObjectKey H (sv_store u) b k = Inr (Some r)"
    using assms(6) r(3,4) S3GetObjectKey_mapped by metis
  then have "resolve H u b k = Inr r" by (simp add: resolve_def)
  then obtain w f m where g: "Open H G u r = (w, Inr (f, m))"
    "OSize obj = Size m" "RangeOf F rng (Size m) = Inr (ORange obj)"
    "OContents obj = (case ORange obj of None \<Rightarrow> WholeFile f | Some (st, n) \<Rightarrow> Section f st n)"
    using GetObject_success [OF assms(7)] by (metis sum.inject(2))
  obtain x where x: "f = RegFile x" "merkle_root H x = Inr r" "int (length x) = Size m"
    using collision_free.Open_returns [OF assms(1) invu g(1)] by blast
  have "x = rd_data body" by (rule collision_free.root_inj [OF assms(1) x(2) r(2)])
  then show ?thesis using g x by (auto split: option.splits)
qed

theorem s3_read_your_writes_witness:
  "\<exists>v obj. GetObject gx_host gx_config ref_fake sx_put ''docs'' ''a/f'' (Some 1) = (v, Inr obj)
     \<and> OSize obj = 3 \<and> contents_bytes (OContents obj) = Inr ''bc''"
proof -
  have "MaxSize gx_config < 2 ^ 63" by (simp add: gx_config_def)
  then show ?thesis
    using s3_read_your_writes [OF gx_hosts(1) sx_bucket_reachable _ sx_put_eq rtranclp.rtrancl_refl refl sx_get]
      sx_get by (simp add: gx_body_def eval_nat_numeral)
qed

text \<open>
  C34: A copy is zero-copy and exact. When \<open>CopyObject\<close> succeeds, the destination key maps to the
  object of the source key, which exists and is what the result reports; no record, no file of
  the cache or the spool, not the cache size and no other key of any bucket changes.
\<close>

theorem copy_shares_content:
  assumes "collision_free H" and "gw_reachable H C W G (cl, s)"
    and "CopyObject H F s sb sk db dk = (t, Inr res)"
  shows "\<exists>r m. S3GetObjectKey H (sv_store s) sb sk = Inr (Some r)
    \<and> S3GetObjectKey H (sv_store t) db dk = Inr (Some r)
    \<and> Get H (sv_store t) r = Inr (Some m)
    \<and> res = \<lparr>CRETag = FormatETag F (hexBytes (MD5 m)), CRLastModified = UpdatedAt m\<rparr>
    \<and> (\<forall>b' k'. CHR ''/'' \<notin> set b' \<and> (b', k') \<noteq> (db, dk) \<longrightarrow>
         S3GetObjectKey H (sv_store t) b' k' = S3GetObjectKey H (sv_store s) b' k')
    \<and> (\<forall>r'. Get H (sv_store t) r' = Get H (sv_store s) r')
    \<and> objs t = objs s \<and> tmps t = tmps s \<and> cacheBytes t = cacheBytes s"
proof -
  have inv: "store_inv H (sv_store s)"
    using collision_free.gw_reachable_inv [OF assms(1,2)] svc_invD(1) by fastforce
  have sh: "store_host H" using assms(1) by (simp add: collision_free_def svc_env_def)
  obtain r m w where c: "resolve H s sb sk = Inr r" "Get H (sv_store s) r = Inr (Some m)"
    "S3PutObjectKey H (sv_store s) db dk r = (w, Inr ())" "t = s\<lparr>sv_store := w\<rparr>"
    "res = \<lparr>CRETag = FormatETag F (hexBytes (MD5 m)), CRLastModified = UpdatedAt m\<rparr>"
    using assms(3) by (rule CopyObject_success)
  note p = store_host.put_key_mapped [OF sh inv c(3)]
  have key: "S3GetObjectKey H (sv_store s) b' k' = Inr (mapped H (sv_store s) b' k')"
    "S3GetObjectKey H w b' k' = Inr (mapped H w b' k')" for b' k'
    using p [simplified c(4)] by (simp_all add: S3GetObjectKey_mapped)
  have get: "Get H w r' = Get H (sv_store s) r'" for r'
    using p getMeta_cong [of w "sv_store s" H] by (simp add: Get_def db_view_def)
  show ?thesis
    using c p by (intro exI [of _ r] exI [of _ m]) (simp add: key get resolve_Inr)
qed

theorem copy_shares_content_witness:
  "\<exists>r. S3GetObjectKey gx_host (sv_store sx_put) ''docs'' ''a/f'' = Inr (Some r)
     \<and> S3GetObjectKey gx_host (sv_store sx_copied) ''docs'' ''b'' = Inr (Some r)"
  using copy_shares_content [OF gx_hosts(1) sx_put_reachable sx_copy] by blast

section \<open>The index\<close>

text \<open>
  C15: No key without its bucket and its object. In every state that S3 traffic without
  \<open>ForceDeleteBucket\<close> can reach, with failing system calls, the worker, restarts and the closing of the
  database in between, on any database with the documented laws of bbolt: every key of the index is
  the composite of a registered bucket and an object key, and it maps to the root of an object on
  record that describes some bytes with that root. (The server creates buckets with names without
  slashes only; with \<open>ForceDeleteBucket\<close> the first part needs a cursor that keeps its place under
  deletions, which bbolt does not document.)
\<close>

theorem no_orphan_keys:
  assumes "collision_free H" and "MaxSize G < 2 ^ 63" and "s3_reachable H C W G F (cl, s)"
    and "bget H (s3_keys (sv_store s)) k = Some v"
  shows "\<exists>b key m data. k = s3Composite b key \<and> CHR ''/'' \<notin> set b
      \<and> S3BucketExists H ((sv_store s)\<lparr>closed := False\<rparr>) b = Inr True
      \<and> meta_at H (sv_store s) (of_bytes H v) = Some m \<and> merkle_root H data = Inr (of_bytes H v)
      \<and> SHA256 m = sha256_hex H data \<and> Size m = int (length data)"
proof -
  note kept = collision_free.s3_reachable_kept [OF assms(1,3,2)]
  then have inv: "svc_inv H s" and "orphan_free H (sv_store s)" by simp_all
  then obtain b key where b: "k = s3Composite b key" "bget H (s3_buckets (sv_store s)) b \<noteq> None"
    using assms(4) by (fastforce simp: orphan_free_def)
  have names: "names_inv H (sv_store s)" using svc_invD(1) [OF inv] by (simp add: store_inv_def)
  obtain m where m: "meta_at H (sv_store s) (of_bytes H v) = Some m"
    using names assms(4) unfolding names_inv_def by blast
  then have "content_of H (sv_store s) (of_bytes H v) = Some (SHA256 m, Size m)" by (simp add: content_of_def)
  then obtain data where "sha256_hex H data = SHA256 m" "int (length data) = Size m"
    "merkle_root H data = Inr (of_bytes H v)"
    using svc_invD(2) [OF inv] by blast
  moreover have "CHR ''/'' \<notin> set b" using names b(2) unfolding names_inv_def by blast
  moreover have "S3BucketExists H ((sv_store s)\<lparr>closed := False\<rparr>) b = Inr True"
    using b(2) by (simp add: S3BucketExists_def db_view_def)
  ultimately show ?thesis using b(1) m by metis
qed

theorem no_orphan_keys_witness:
  "\<exists>b key. ''docs/a/f'' = s3Composite b key \<and> CHR ''/'' \<notin> set b
     \<and> S3BucketExists gx_host ((sv_store sx_put)\<lparr>closed := False\<rparr>) b = Inr True"
proof -
  have "bget gx_host (s3_keys (sv_store sx_put)) ''docs/a/f'' = Some (VBytes gx_root)"
    by (simp add: sx_put_val gx_eval store_eval)
  from no_orphan_keys [OF gx_hosts(1) sx_limit sx_s3_put [of ex_chain ex_config 0] this] show ?thesis by blast
qed

section \<open>Listing\<close>

text \<open>
  C35: A listing is exact. A successful \<open>ListBucket\<close> of a reachable gateway adds an entry for
  every key of the bucket that matches the prefix without being folded, with the size, hash and
  date of the object that the key maps to, in strictly increasing key order and nothing else; it
  adds a common prefix exactly for the keys that fold into it.
\<close>

theorem list_bucket_exact:
  assumes "collision_free H" and "gw_reachable H C W G (cl, s)"
    and "ListBucket H F s b pre page_empty = Inr calls"
    and "p = (case pre of None \<Rightarrow> EmptyPrefix F | Some q \<Rightarrow> q)"
  shows "sorted_wrt (<) (content_keys calls)
    \<and> (\<forall>e. AddContent e \<in> set calls \<longleftrightarrow>
         (\<exists>r m x. S3GetObjectKey H (sv_store s) b (CKey e) = Inr (Some r) \<and> Get H (sv_store s) r = Inr (Some m)
            \<and> MatchPrefix F p (CKey e) = Some x \<and> \<not> CommonPrefix x
            \<and> CETag e = FormatETag F (hexBytes (MD5 m)) \<and> CSize e = Size m \<and> CLastModified e = UpdatedAt m))
    \<and> (\<forall>q. AddPrefix q \<in> set calls \<longleftrightarrow>
         (\<exists>k r x. S3GetObjectKey H (sv_store s) b k = Inr (Some r)
            \<and> MatchPrefix F p k = Some x \<and> CommonPrefix x \<and> MatchedPart x = q))"
proof -
  let ?s = "sv_store s"
  have inv: "store_inv H ?s"
    using collision_free.gw_reachable_inv [OF assms(1,2)] svc_invD(1) by fastforce
  have sh: "store_host H" using assms(1) by (simp add: collision_free_def svc_env_def)
  obtain obs where obs: "S3ListObjects H ?s b = Inr obs" "calls = list_loop F p obs []"
    using assms(3,4) by (auto simp: ListBucket_def Let_def split: option.splits if_splits sum.splits)
  have op: "\<not> closed ?s" using obs(1) by (auto simp: S3ListObjects_def db_view_def split: if_splits)
  note key = S3GetObjectKey_mapped [of H ?s b] mapped_def [of H ?s b]
  have get: "Get H ?s r = Inr (meta_at H ?s r)" for r
    using inv op by (simp add: Get_decodable store_inv_def meta_inv_decodable)
  have live: "mapped H ?s b k = Some r \<Longrightarrow> meta_at H ?s r \<noteq> None" for k r
    using inv by (auto simp: mapped_def store_inv_def names_inv_def)
  have rd: "sorted_wrt (<) (map ObjKey obs)"
    "ob \<in> set obs \<longleftrightarrow> (\<exists>r. mapped H ?s b (ObjKey ob) = Some r \<and> meta_at H ?s r = Some (ObjMeta ob))" for ob
    using store_host.list_objects_read [OF sh inv op, of b] obs(1) by (auto simp: mapped_def)
  have calls: "calls = List.map_filter (list_entry F p) obs" by (simp add: obs(2) list_loop_eq)
  have "sorted_wrt (<) (content_keys calls)"
    unfolding calls by (rule sorted_wrt_subseq [OF content_keys_subseq rd(1)])
  moreover have "AddContent e \<in> set calls \<longleftrightarrow>
         (\<exists>r m x. S3GetObjectKey H ?s b (CKey e) = Inr (Some r) \<and> Get H ?s r = Inr (Some m)
            \<and> MatchPrefix F p (CKey e) = Some x \<and> \<not> CommonPrefix x
            \<and> CETag e = FormatETag F (hexBytes (MD5 m)) \<and> CSize e = Size m \<and> CLastModified e = UpdatedAt m)" for e
    using op unfolding calls content_entry by (auto simp: rd(2) S3GetObjectKey_mapped get)
  moreover have "AddPrefix q \<in> set calls \<longleftrightarrow>
         (\<exists>k r x. S3GetObjectKey H ?s b k = Inr (Some r)
            \<and> MatchPrefix F p k = Some x \<and> CommonPrefix x \<and> MatchedPart x = q)" for q
    using op live unfolding calls prefix_entry by (fastforce simp: rd(2) S3GetObjectKey_mapped)
  ultimately show ?thesis by blast
qed

theorem list_bucket_exact_witness:
  "\<exists>r m. S3GetObjectKey gx_host (sv_store sx_put) ''docs'' ''a/f'' = Inr (Some r)
     \<and> Get gx_host (sv_store sx_put) r = Inr (Some m) \<and> Size m = 3"
proof -
  have e: "AddContent sx_entry \<in> set [AddContent sx_entry]" by simp
  have k: "CKey sx_entry = ''a/f''" "CSize sx_entry = 3" by (simp_all add: sx_entry_def sx_obj_def)
  note l = list_bucket_exact [OF gx_hosts(1) sx_put_reachable sx_list refl, THEN conjunct2, THEN conjunct1,
      THEN spec, THEN iffD1, OF e]
  then show ?thesis unfolding k by metis
qed

end
