(* ===== verification/Imageproc.thy ===== *)
theory Imageproc
  imports Go_Text Complex_Main
begin

text \<open>
  \<open>internal/imageproc/imageproc.go\<close>: the image resizer. The decoders and encoders of Go's
  \<open>image\<close> packages are a parameter. A \<open>float64\<close> is the rational it denotes and every
  floating-point operation rounds: \<open>fl\<close> is the rounding of an exact result to \<open>float64\<close>,
  whose laws are IEEE 754's. No operation of this file leaves the normal range or divides by
  zero, so infinities and NaN do not arise. Go may fuse a multiplication and an addition on
  some machines; the model rounds after each operation, as on amd64.
\<close>

section \<open>Images\<close>

record rgba =
  chR :: int
  chG :: int
  chB :: int
  chA :: int

text \<open>
  An image is its bounds, from the upper left to the lower right corner, and its pixels, already
  converted by \<open>color.RGBAModel\<close>.
\<close>

record img =
  minX :: int
  minY :: int
  maxX :: int
  maxY :: int
  pixel :: "int \<Rightarrow> int \<Rightarrow> rgba"

definition Dx :: "img \<Rightarrow> int" where
  "Dx m = maxX m - minX m"

definition Dy :: "img \<Rightarrow> int" where
  "Dy m = maxY m - minY m"

text \<open>\<open>image.NewRGBA(image.Rect(0, 0, w, h))\<close> after a loop that sets every pixel.\<close>

definition new_image :: "int \<Rightarrow> int \<Rightarrow> (int \<Rightarrow> int \<Rightarrow> rgba) \<Rightarrow> img" where
  "new_image w h f = \<lparr>minX = 0, minY = 0, maxX = w, maxY = h, pixel = f\<rparr>"

datatype resize_mode = Lfit | Fill | Fixed

definition MaxPixels :: int where
  "MaxPixels = 40000000"

definition MaxBytes :: int where
  "MaxBytes = 20 * 2 ^ 20"

abbreviation ErrTooManyPixels :: err where
  "ErrTooManyPixels \<equiv> ErrMsg ''image dimensions exceed processing limit''"

abbreviation ErrImageTooLarge :: err where
  "ErrImageTooLarge \<equiv> ErrMsg ''image exceeds the processing size limit''"

section \<open>Sampling\<close>

text \<open>The conversion of a \<open>float64\<close> to an integer type drops the fraction.\<close>

definition go_trunc :: "rat \<Rightarrow> int" where
  "go_trunc x = (if 0 \<le> x then \<lfloor>x\<rfloor> else \<lceil>x\<rceil>)"

definition iround :: "(rat \<Rightarrow> rat) \<Rightarrow> rat \<Rightarrow> int" where
  "iround fl f = go_trunc (fl (f + 1 / 2))"

definition sample :: "img \<Rightarrow> int \<Rightarrow> int \<Rightarrow> rgba" where
  "sample src x y =
     (let x = (if x < 0 then 0 else x);
          y = (if y < 0 then 0 else y);
          x = (if x > Dx src - 1 then Dx src - 1 else x);
          y = (if y > Dy src - 1 then Dy src - 1 else y)
      in pixel src (minX src + x) (minY src + y))"

definition lerp2 :: "(rat \<Rightarrow> rat) \<Rightarrow> int \<Rightarrow> int \<Rightarrow> int \<Rightarrow> int \<Rightarrow> rat \<Rightarrow> rat \<Rightarrow> int" where
  "lerp2 fl c00 c10 c01 c11 tx ty =
     (let top = fl (fl (of_int c00 * fl (1 - tx)) + fl (of_int c10 * tx));
          bot = fl (fl (of_int c01 * fl (1 - tx)) + fl (of_int c11 * tx));
          v = fl (fl (top * fl (1 - ty)) + fl (bot * ty));
          v = (if v < 0 then 0 else v);
          v = (if v > 255 then 255 else v)
      in go_trunc (fl (v + 1 / 2)))"

text \<open>The source coordinate of an output coordinate, and its cell and offset.\<close>

definition src_coord :: "(rat \<Rightarrow> rat) \<Rightarrow> int \<Rightarrow> int \<Rightarrow> int \<Rightarrow> rat" where
  "src_coord fl x s d =
     fl (fl (fl (fl (of_int x + 1 / 2) * of_int s) / of_int d) - 1 / 2)"

definition bilinear :: "(rat \<Rightarrow> rat) \<Rightarrow> img \<Rightarrow> int \<Rightarrow> int \<Rightarrow> img" where
  "bilinear fl src dw dh =
     (let dw = (if dw < 1 then 1 else dw);
          dh = (if dh < 1 then 1 else dh);
          sw = Dx src; sh = Dy src
      in new_image dw dh (\<lambda>x y.
           let fy = src_coord fl y sh dh; y0 = \<lfloor>fy\<rfloor>; ty = fl (fy - of_int y0);
               fx = src_coord fl x sw dw; x0 = \<lfloor>fx\<rfloor>; tx = fl (fx - of_int x0);
               c00 = sample src x0 y0; c10 = sample src (x0 + 1) y0;
               c01 = sample src x0 (y0 + 1); c11 = sample src (x0 + 1) (y0 + 1)
           in \<lparr>chR = lerp2 fl (chR c00) (chR c10) (chR c01) (chR c11) tx ty,
              chG = lerp2 fl (chG c00) (chG c10) (chG c01) (chG c11) tx ty,
              chB = lerp2 fl (chB c00) (chB c10) (chB c01) (chB c11) tx ty,
              chA = lerp2 fl (chA c00) (chA c10) (chA c01) (chA c11) tx ty\<rparr>))"

text \<open>\<open>draw.Draw\<close> with \<open>draw.Src\<close> copies; Go's division truncates towards zero.\<close>

definition cropCenter :: "img \<Rightarrow> int \<Rightarrow> int \<Rightarrow> img" where
  "cropCenter m w h =
     (let bx = go_trunc (of_int (Dx m - w) / 2);
          by' = go_trunc (of_int (Dy m - h) / 2)
      in new_image w h (\<lambda>x y. pixel m (minX m + bx + x) (minY m + by' + y)))"

definition fitDims :: "(rat \<Rightarrow> rat) \<Rightarrow> int \<Rightarrow> int \<Rightarrow> int \<Rightarrow> int \<Rightarrow> int \<times> int" where
  "fitDims fl sw sh w h =
     (if 0 < w \<and> 0 < h then
        (let s = min (fl (of_int w / of_int sw)) (fl (of_int h / of_int sh))
         in (iround fl (fl (of_int sw * s)), iround fl (fl (of_int sh * s))))
      else if 0 < w then (w, iround fl (fl (fl (of_int sh * of_int w) / of_int sw)))
      else if 0 < h then (iround fl (fl (fl (of_int sw * of_int h) / of_int sh)), h)
      else (sw, sh))"

definition transform :: "(rat \<Rightarrow> rat) \<Rightarrow> img \<Rightarrow> int \<Rightarrow> int \<Rightarrow> resize_mode \<Rightarrow> img" where
  "transform fl src w h mode =
     (let sw = Dx src; sh = Dy src in
      if sw = 0 \<or> sh = 0 then src
      else if mode = Fill \<and> 0 < w \<and> 0 < h then
        (let scale = max (fl (of_int w / of_int sw)) (fl (of_int h / of_int sh));
             resized = bilinear fl src (iround fl (fl (of_int sw * scale))) (iround fl (fl (of_int sh * scale)))
         in cropCenter resized (min w (Dx resized)) (min h (Dy resized)))
      else if mode = Fixed \<and> 0 < w \<and> 0 < h then bilinear fl src w h
      else (case fitDims fl sw sh w h of (tw, th) \<Rightarrow> bilinear fl src tw th))"

section \<open>Decoding and encoding\<close>

text \<open>
  The \<open>image\<close> packages: \<open>DecodeConfig\<close> with width, height and format, \<open>Decode\<close>, and the two
  encoders (the JPEG encoder with its quality).
\<close>

record codec =
  DecodeConfig :: "string \<Rightarrow> (int \<times> int \<times> string) result"
  Decode :: "string \<Rightarrow> img result"
  EncodePNG :: "img \<Rightarrow> string result"
  EncodeJPEG :: "img \<Rightarrow> int \<Rightarrow> string result"

definition Resize ::
  "('z) codec_scheme \<Rightarrow> (rat \<Rightarrow> rat) \<Rightarrow> string \<Rightarrow> int \<Rightarrow> int \<Rightarrow> resize_mode \<Rightarrow> (string \<times> string) result" where
  "Resize K fl data w h mode =
     (case DecodeConfig K data of
        Inl e \<Rightarrow> Inl e
      | Inr (cw, ch, format) \<Rightarrow>
          if int64 (cw * ch) > MaxPixels then Inl ErrTooManyPixels
          else
            (case Decode K data of
               Inl e \<Rightarrow> Inl e
             | Inr m \<Rightarrow>
                 (let dst = transform fl m w h mode in
                  if format = ''png''
                  then map_sum id (\<lambda>out. (out, ''image/png'')) (EncodePNG K dst)
                  else map_sum id (\<lambda>out. (out, ''image/jpeg'')) (EncodeJPEG K dst 85))))"

text \<open>
  \<open>ResizeReader\<close> on a reader that delivers the bytes of \<open>src\<close>, or an error for one that cannot
  be read.
\<close>

definition ResizeReader ::
  "('z) codec_scheme \<Rightarrow> (rat \<Rightarrow> rat) \<Rightarrow> string result \<Rightarrow> int \<Rightarrow> int \<Rightarrow> int \<Rightarrow> resize_mode
     \<Rightarrow> (string \<times> string) result" where
  "ResizeReader K fl src size' w h mode =
     (if size' > MaxBytes then Inl ErrImageTooLarge
      else
        (case map_sum id (take (nat (MaxBytes + 1))) src of
           Inl e \<Rightarrow> Inl e
         | Inr data \<Rightarrow>
             if int (length data) > MaxBytes then Inl ErrImageTooLarge
             else Resize K fl data w h mode))"

end
