(* ===== verification/Middleware.thy ===== *)
theory Middleware
  imports S3gw Imageproc
begin

text \<open>
  The HTTP middlewares in front of the S3 server: \<open>copysource.go\<close>, \<open>backpressure.go\<close>,
  \<open>imageprocess.go\<close> and \<open>xmlcontenttype.go\<close> of \<open>internal/s3gw\<close>. A handler takes the
  service and a request and returns the service with the calls it made on its
  \<open>ResponseWriter\<close>, in order.
\<close>

section \<open>Requests and responses\<close>

text \<open>
  What the middlewares read of a request: the method, the URL path, the first value of the
  query parameter \<open>x-image-process\<close> and the header \<open>X-Amz-Copy-Source\<close> (empty when absent).
\<close>

record request =
  Method :: string
  URLPath :: string
  ImageQuery :: string
  CopySource :: string

datatype wcall = SetHeader string string | WriteHeader int | WriteBody string

type_synonym ('b, 'd) handler = "('b, 'd) svc \<Rightarrow> request \<Rightarrow> ('b, 'd) svc \<times> wcall list"

text \<open>\<open>http.Error\<close>.\<close>

definition newline :: string where
  "newline = [char_of (10 :: nat)]"

definition http_error :: "string \<Rightarrow> int \<Rightarrow> wcall list" where
  "http_error msg code =
     [SetHeader ''Content-Type'' ''text/plain; charset=utf-8'',
      SetHeader ''X-Content-Type-Options'' ''nosniff'', WriteHeader code, WriteBody (msg @ newline)]"

text \<open>\<open>None\<close> when there is no key segment.\<close>

definition splitBucketKey :: "string \<Rightarrow> (string \<times> string) option" where
  "splitBucketKey p =
     (case cut_at (CHR ''/'') (trim_prefix p ''/'') of
        (bucket, Some (c # key)) \<Rightarrow> Some (bucket, c # key)
      | _ \<Rightarrow> None)"

definition isObjectRead :: "request \<Rightarrow> bool" where
  "isObjectRead r \<longleftrightarrow>
     (Method r = ''GET'' \<or> Method r = ''HEAD'') \<and> splitBucketKey (URLPath r) \<noteq> None"

definition isObjectWrite :: "request \<Rightarrow> bool" where
  "isObjectWrite r \<longleftrightarrow>
     Method r = ''PUT'' \<and> CopySource r = [] \<and> splitBucketKey (URLPath r) \<noteq> None"

section \<open>Copy source\<close>

definition normalizeCopySource :: "string \<Rightarrow> string option" where
  "normalizeCopySource src =
     (case PathUnescape (trim_prefix (fst (cut_at (CHR ''?'') src)) ''/'') of
        None \<Rightarrow> None
      | Some dec \<Rightarrow>
          (case splitBucketKey dec of
             None \<Rightarrow> None
           | Some (bucket, key) \<Rightarrow> Some (''/'' @ bucket @ ''/'' @ QueryEscape key)))"

definition FixCopySourceHandler :: "('b, 'd) handler \<Rightarrow> ('b, 'd) handler" where
  "FixCopySourceHandler next s r =
     (if CopySource r \<noteq> []
      then (case normalizeCopySource (CopySource r) of
              Some src' \<Rightarrow> next s (r\<lparr>CopySource := src'\<rparr>)
            | None \<Rightarrow> next s r)
      else next s r)"

section \<open>Backpressure\<close>

text \<open>
  \<open>slow_down\<close> is the body, or nothing when \<open>xml.Marshal\<close> fails, which falls back to a plain
  error.
\<close>

definition writeSlowDown :: "string option \<Rightarrow> wcall list" where
  "writeSlowDown slow_down =
     (case slow_down of
        None \<Rightarrow> http_error ''SlowDown'' 503
      | Some body \<Rightarrow>
          [SetHeader ''Content-Type'' ''application/xml'', SetHeader ''Retry-After'' ''5'',
           WriteHeader 503,
           WriteBody (''<?xml version=''  @ [CHR 0x22] @ ''1.0'' @ [CHR 0x22] @ '' encoding='' @ [CHR 0x22]
             @ ''UTF-8'' @ [CHR 0x22] @ ''?>'' @ newline),
           WriteBody body])"

definition BackpressureHandler ::
  "('b, 'v, 'd, 'z) svc_host_scheme \<Rightarrow> svc_config \<Rightarrow> string option \<Rightarrow> ('b, 'd) handler
     \<Rightarrow> ('b, 'd) handler" where
  "BackpressureHandler H G slow_down next s r =
     (if isObjectWrite r
      then (case ShouldRejectWrite H G s of
              (s1, True) \<Rightarrow> (s1, writeSlowDown slow_down)
            | (s1, False) \<Rightarrow> next s1 r)
      else next s r)"

section \<open>Image processing\<close>

definition maxResizeDim :: int where
  "maxResizeDim = 4096"

definition atoi :: "string \<Rightarrow> int" where
  "atoi s = fst (ParseInt s)"

definition clampDim :: "int \<Rightarrow> int" where
  "clampDim n = (if n < 0 then 0 else if n > maxResizeDim then maxResizeDim else n)"

text \<open>The parameters of a resize action.\<close>

fun resize_params :: "string list \<Rightarrow> int \<times> int \<times> resize_mode \<Rightarrow> int \<times> int \<times> resize_mode" where
  "resize_params [] acc = acc"
| "resize_params (p # ps) (w, h, mode) =
     (case cut_at (CHR ''_'') p of
        (k, None) \<Rightarrow> resize_params ps (w, h, mode)
      | (k, Some v) \<Rightarrow>
          if k = ''w'' then resize_params ps (clampDim (atoi v), h, mode)
          else if k = ''h'' then resize_params ps (w, clampDim (atoi v), mode)
          else if k = ''m''
          then resize_params ps
                 (w, h, if v = ''fill'' then Fill else if v = ''fixed'' then Fixed else mode)
          else resize_params ps (w, h, mode))"

fun resize_actions :: "string list \<Rightarrow> int \<times> int \<times> resize_mode \<times> bool" where
  "resize_actions [] = (0, 0, Lfit, False)"
| "resize_actions (action # rest) =
     (case split_on (CHR '','') action of
        [] \<Rightarrow> resize_actions rest
      | name # ps \<Rightarrow>
          if name \<noteq> ''resize'' then resize_actions rest
          else (case resize_params ps (0, 0, Lfit) of (w, h, mode) \<Rightarrow> (w, h, mode, 0 < w \<or> 0 < h)))"

definition parseHuaweiResize :: "string \<Rightarrow> int \<times> int \<times> resize_mode \<times> bool" where
  "parseHuaweiResize spec = resize_actions (split_on (CHR ''/'') (trim_prefix spec ''image/''))"

text \<open>The file that \<open>Open\<close> returned, as the reader that \<open>ResizeReader\<close> gets.\<close>

fun file_bytes :: "fnode \<Rightarrow> string result" where
  "file_bytes (RegFile b) = Inr b"
| "file_bytes (SubDir n) = Inl (ErrOS ''is a directory'')"

definition ImageProcessHandler ::
  "('b, 'v, 'd, 'z) svc_host_scheme \<Rightarrow> svc_config \<Rightarrow> ('y) codec_scheme \<Rightarrow> (rat \<Rightarrow> rat)
     \<Rightarrow> ('b, 'd) handler \<Rightarrow> ('b, 'd) handler" where
  "ImageProcessHandler H G K fl next s r =
     (let spec = ImageQuery r in
      if Method r \<noteq> ''GET'' \<or> spec = [] then next s r
      else
        (case parseHuaweiResize spec of
           (rw, rh, mode, False) \<Rightarrow> next s r
         | (rw, rh, mode, True) \<Rightarrow>
             (case splitBucketKey (URLPath r) of
                None \<Rightarrow> next s r
              | Some (bucket, key) \<Rightarrow>
                  (case S3GetObjectKey H (sv_store s) bucket key of
                     Inl e \<Rightarrow> (s, http_error (err_text e) 500)
                   | Inr None \<Rightarrow> next s r
                   | Inr (Some rt) \<Rightarrow>
                       (case Open H G s rt of
                          (s1, Inl e) \<Rightarrow> (s1, http_error ''object restore failed'' 502)
                        | (s1, Inr (f, m)) \<Rightarrow>
                            (case ResizeReader K fl (file_bytes f) (Size m) rw rh mode of
                               Inl e \<Rightarrow>
                                 (s1, if errors_is e ErrImageTooLarge
                                      then http_error ''image too large to process'' 413
                                      else http_error ''not a resizable image'' 400)
                             | Inr (out, ct) \<Rightarrow>
                                 (s1, [SetHeader ''Content-Type'' ct,
                                       SetHeader ''Content-Length'' (itoa (int (length out))),
                                       WriteHeader 200, WriteBody out])))))))"

section \<open>XML content type\<close>

definition xml_space :: "char \<Rightarrow> bool" where
  "xml_space c \<longleftrightarrow> byte_of c \<in> {32, 9, 13, 10}"

text \<open>
  \<open>normalize\<close> on the current Content-Type (empty when unset) and the first bytes of the body:
  the header it sets, if any.
\<close>

definition normalize_type :: "string \<Rightarrow> string \<Rightarrow> wcall list" where
  "normalize_type ct body =
     (if prefix ''text/xml'' ct then [SetHeader ''Content-Type'' ''application/xml'']
      else if ct = [] \<and> prefix ''<?xml'' (dropWhile xml_space body)
      then [SetHeader ''Content-Type'' ''application/xml'']
      else [])"

text \<open>
  The wrapped writer: the calls of the inner handler become calls on the real writer. The state
  is the committed flag and the current Content-Type.
\<close>

fun xml_writer :: "bool \<Rightarrow> string \<Rightarrow> wcall list \<Rightarrow> wcall list" where
  "xml_writer committed ct [] = []"
| "xml_writer committed ct (SetHeader n v # cs) =
     SetHeader n v # xml_writer committed (if n = ''Content-Type'' then v else ct) cs"
| "xml_writer committed ct (WriteHeader code # cs) =
     (if committed then [] else normalize_type ct []) @ WriteHeader code # xml_writer True ct cs"
| "xml_writer committed ct (WriteBody p # cs) =
     (if committed then [] else normalize_type ct p) @ WriteBody p # xml_writer True ct cs"

definition FixXMLContentTypeHandler :: "('b, 'd) handler \<Rightarrow> ('b, 'd) handler" where
  "FixXMLContentTypeHandler next s r =
     (if isObjectRead r then next s r
      else (case next s r of (s1, calls) \<Rightarrow> (s1, xml_writer False [] calls)))"

section \<open>The stack\<close>

definition Wrap ::
  "('b, 'v, 'd, 'z) svc_host_scheme \<Rightarrow> svc_config \<Rightarrow> ('y) codec_scheme \<Rightarrow> (rat \<Rightarrow> rat)
     \<Rightarrow> string option \<Rightarrow> ('b, 'd) handler \<Rightarrow> ('b, 'd) handler" where
  "Wrap H G K fl slow_down next =
     BackpressureHandler H G slow_down
       (FixCopySourceHandler (ImageProcessHandler H G K fl (FixXMLContentTypeHandler next)))"

end
