(* ===== verification/Float64.thy ===== *)
theory Float64
  imports Complex_Main "HOL-Library.Log_Nat"
begin

text \<open>
  Rounding to \<open>float64\<close>: the contract \<open>float_rounding\<close> that the resizer's bounds rest on, and
  IEEE 754's round-half-even with a 53-bit significand, which satisfies it.
\<close>

section \<open>The contract\<close>

text \<open>
  Half-integers up to 2^52 are exact, and in the normal range the relative error is at most one
  half unit in the last place.
\<close>

locale float_rounding =
  fixes fl :: "rat \<Rightarrow> rat"
  assumes half_exact: "\<bar>n\<bar> \<le> 2 ^ 53 \<Longrightarrow> fl (of_int n / 2) = of_int n / 2"
    and rel_error: "\<bar>fl x - x\<bar> \<le> \<bar>x\<bar> / 2 ^ 53"
begin

lemma int_exact: "\<bar>n\<bar> \<le> 2 ^ 52 \<Longrightarrow> fl (of_int n) = of_int n"
  using half_exact [of "2 * n"] by simp

lemma fl_01 [simp]: "fl 0 = 0" "fl 1 = 1"
  using int_exact [of 0] int_exact [of 1] by simp_all

lemma fl_upper: "0 \<le> x \<Longrightarrow> fl x \<le> x * (1 + 1 / 2 ^ 53)"
proof -
  assume "0 \<le> x"
  then have "fl x - x \<le> x / 2 ^ 53" using abs_le_D1 [OF rel_error [of x]] by simp
  then show ?thesis by (simp add: distrib_left)
qed

lemma fl_lower: "0 \<le> x \<Longrightarrow> x * (1 - 1 / 2 ^ 53) \<le> fl x"
proof -
  assume "0 \<le> x"
  then have "- (fl x - x) \<le> x / 2 ^ 53" using abs_le_D2 [OF rel_error [of x]] by simp
  then show ?thesis by (simp add: right_diff_distrib)
qed

lemma fl_nonneg: "0 \<le> x \<Longrightarrow> 0 \<le> fl x"
proof -
  assume x: "0 \<le> x"
  have "0 \<le> x * (1 - 1 / 2 ^ 53)" using x by simp
  then show ?thesis using fl_lower [OF x] by linarith
qed

end

section \<open>Round half to even\<close>

definition round_even :: "rat \<Rightarrow> int" where
  "round_even q =
     (let f = \<lfloor>q\<rfloor>; d = q - of_int f
      in if d < 1 / 2 then f else if 1 / 2 < d then f + 1 else if even f then f else f + 1)"

lemma round_even_error: "\<bar>of_int (round_even q) - q\<bar> \<le> 1 / 2"
proof -
  have "of_int \<lfloor>q\<rfloor> \<le> q" "q < of_int \<lfloor>q\<rfloor> + 1" by linarith+
  then show ?thesis by (auto simp: round_even_def Let_def abs_le_iff)
qed

lemma round_even_int: "round_even (of_int n) = n"
  by (simp add: round_even_def)

text \<open>The binary exponent of a positive rational.\<close>

definition exponent :: "rat \<Rightarrow> int" where
  "exponent x =
     (case quotient_of x of (p, q) \<Rightarrow>
        let k = bitlen p - bitlen q in if 2 powi k \<le> x then k else k - 1)"

definition round64 :: "rat \<Rightarrow> rat" where
  "round64 x =
     (if x = 0 then 0
      else let u = 2 powi (exponent \<bar>x\<bar> - 52) in of_int (round_even (x / u)) * u)"

lemma exponent_bounds:
  assumes "0 < x"
  shows "2 powi exponent x \<le> x" and "x < 2 powi (exponent x + 1)"
proof -
  obtain p q where pq: "quotient_of x = (p, q)" by force
  have q: "0 < q" using quotient_of_denom_pos [OF pq] .
  have x: "x = of_int p / of_int q" using quotient_of_div [OF pq] .
  then have p: "0 < p" using assms q by (simp add: zero_less_divide_iff)
  have bp: "2 powi (bitlen p - 1) \<le> (of_int p :: rat)" "(of_int p :: rat) < 2 powi bitlen p"
    and bq: "2 powi (bitlen q - 1) \<le> (of_int q :: rat)" "(of_int q :: rat) < 2 powi bitlen q"
  proof -
    have "2 powi (bitlen n - 1) \<le> (of_int n :: rat) \<and> (of_int n :: rat) < 2 powi bitlen n" if n: "0 < n" for n
    proof -
      have b: "1 \<le> bitlen n" using n bitlen_eq_zero_iff [of n] bitlen_nonneg [of n] by linarith
      have l: "2 ^ nat (bitlen n - 1) \<le> n" "n < 2 ^ nat (bitlen n)" using bitlen_bounds [OF n] by auto
      have "of_int (2 ^ nat (bitlen n - 1)) \<le> (of_int n :: rat)" "(of_int n :: rat) < of_int (2 ^ nat (bitlen n))"
        using l by (simp_all only: of_int_le_iff of_int_less_iff)
      then show ?thesis using b by (simp add: power_int_def)
    qed
    then show "2 powi (bitlen p - 1) \<le> (of_int p :: rat)" "(of_int p :: rat) < 2 powi bitlen p"
      "2 powi (bitlen q - 1) \<le> (of_int q :: rat)" "(of_int q :: rat) < 2 powi bitlen q"
      using p q by blast+
  qed
  define k where "k = bitlen p - bitlen q"
  have up: "x < 2 powi (k + 1)"
  proof -
    have "of_int p < 2 powi (k + 1) * (2 powi (bitlen q - 1) :: rat)"
      using bp(2) by (simp add: k_def power_int_add [symmetric])
    also have "\<dots> \<le> 2 powi (k + 1) * of_int q" using bq(1) by (intro mult_left_mono) simp_all
    finally show ?thesis using q by (simp add: x field_simps)
  qed
  have lo: "2 powi (k - 1) \<le> x"
  proof -
    have "2 powi (k - 1) * of_int q \<le> 2 powi (k - 1) * (2 powi bitlen q :: rat)"
      using bq(2) by (intro mult_left_mono) simp_all
    also have "\<dots> = 2 powi (bitlen p - 1)" by (simp add: k_def power_int_add [symmetric])
    also have "\<dots> \<le> of_int p" by (rule bp(1))
    finally show ?thesis using q by (simp add: x field_simps)
  qed
  have e: "exponent x = (if 2 powi k \<le> x then k else k - 1)"
    by (simp add: exponent_def pq k_def Let_def)
  show "2 powi exponent x \<le> x" using lo e by simp
  show "x < 2 powi (exponent x + 1)" using up e by simp
qed

lemma round64_error: "\<bar>round64 x - x\<bar> \<le> \<bar>x\<bar> / 2 ^ 53"
proof (cases "x = 0")
  case False
  define u :: rat where "u = 2 powi (exponent \<bar>x\<bar> - 52)"
  have u: "0 < u" by (simp add: u_def)
  have "round64 x - x = (of_int (round_even (x / u)) - x / u) * u"
    using False u by (simp add: round64_def u_def [symmetric] Let_def algebra_simps)
  then have "\<bar>round64 x - x\<bar> \<le> 1 / 2 * u"
    using round_even_error [of "x / u"] u by (simp add: abs_mult)
  also have "u = 2 powi exponent \<bar>x\<bar> / 2 ^ 52"
    by (simp add: u_def power_int_diff)
  also have "1 / 2 * (2 powi exponent \<bar>x\<bar> / 2 ^ 52) \<le> \<bar>x\<bar> / 2 ^ 53"
    using exponent_bounds(1) [of "\<bar>x\<bar>"] False by (simp add: field_simps)
  finally show ?thesis .
qed (simp add: round64_def)

lemma round64_half:
  assumes "\<bar>n\<bar> \<le> 2 ^ 53"
  shows "round64 (of_int n / 2) = of_int n / 2"
proof (cases "n = 0")
  case False
  define x :: rat where "x = of_int n / 2"
  have x: "x \<noteq> 0" "\<bar>x\<bar> = of_int \<bar>n\<bar> / 2" using False by (simp_all add: x_def)
  define e where "e = exponent \<bar>x\<bar>"
  have eb: "2 powi e \<le> \<bar>x\<bar>" using exponent_bounds(1) [of "\<bar>x\<bar>"] x(1) by (simp add: e_def)
  have ex: "\<bar>x\<bar> \<le> 2 ^ 52"
  proof -
    have "(of_int \<bar>n\<bar> :: rat) \<le> of_int (2 ^ 53)" using assms by (simp only: of_int_le_iff)
    then show ?thesis using x(2) by simp
  qed
  have e52: "e \<le> 52"
  proof (rule ccontr)
    assume "\<not> e \<le> 52"
    then have "(2 :: rat) powi 53 \<le> 2 powi e" by (intro power_int_increasing) simp_all
    then show False using eb ex by simp
  qed
  have "\<exists>m. x / 2 powi (e - 52) = of_int m"
  proof (cases "e = 52")
    case True
    then have "\<bar>x\<bar> = 2 ^ 52" using eb ex by simp
    then have "x = 2 ^ 52 \<or> x = - (2 ^ 52)" by (auto simp: abs_if split: if_splits)
    then show ?thesis using True by (auto intro: exI [of _ "2 ^ 52"] exI [of _ "- (2 ^ 52)"])
  next
    case False
    then have "(1 :: rat) / 2 powi (e - 52) = 2 * 2 ^ nat (51 - e)"
      using e52 by (simp add: power_int_def nat_diff_distrib' field_simps power_Suc [symmetric] Suc_nat_eq_nat_zadd1)
    then have "x / 2 powi (e - 52) = of_int (n * 2 ^ nat (51 - e))" by (simp add: x_def field_simps)
    then show ?thesis by blast
  qed
  then obtain m where m: "x / 2 powi (e - 52) = of_int m" by blast
  have "round64 x = of_int m * 2 powi (e - 52)"
    using x(1) by (simp add: round64_def Let_def e_def [symmetric] m round_even_int)
  also have "\<dots> = x" using m by (simp add: field_simps)
  finally show ?thesis by (simp add: x_def)
qed (simp add: round64_def)

interpretation round64: float_rounding round64
  by unfold_locales (rule round64_half round64_error; assumption)+

end
