(* ===== verification/Imageproc_Facts.thy ===== *)
theory Imageproc_Facts
  imports Imageproc Float64
begin

text \<open>
  The dimensions that the resizer produces, whatever the rounding of \<open>float64\<close> does within its
  contract, and the pixels of a resize to the image's own size.
\<close>

section \<open>Rounding to integers\<close>

lemma go_trunc_nonneg: "0 \<le> x \<Longrightarrow> go_trunc x = \<lfloor>x\<rfloor>"
  by (simp add: go_trunc_def)

text \<open>A pixel whose four channels are bytes.\<close>

definition byte_pixel :: "rgba \<Rightarrow> bool" where
  "byte_pixel p \<longleftrightarrow> (\<forall>c \<in> {chR p, chG p, chB p, chA p}. 0 \<le> c \<and> c \<le> 255)"

context float_rounding
begin

text \<open>
  Scaling a side by the rounded ratio and rounding the product gives the target again: not more
  for a scale of at most the ratio, not less for a scale of at least the ratio.
\<close>

lemma iround_le:
  assumes w: "0 < w" "w \<le> 2 ^ 20" and sw: "0 < sw" and s: "0 \<le> s" "s \<le> fl (of_int w / of_int sw)"
  shows "0 \<le> iround fl (fl (of_int sw * s)) \<and> iround fl (fl (of_int sw * s)) \<le> w"
proof -
  define W S :: rat where "W = of_int w" and "S = of_int sw"
  have W: "0 < W" "W \<le> 2 ^ 20" and S: "0 < S"
    using w sw of_int_le_iff [of w "2 ^ 20", where ?'a = rat] by (simp_all add: W_def S_def)
  define p where "p = fl (S * s)"
  have "s \<le> W / S * (1 + 1 / 2 ^ 53)"
    using s(2) fl_upper [of "W / S"] W S by (simp add: W_def S_def)
  then have "S * s \<le> S * (W / S * (1 + 1 / 2 ^ 53))" using S by (intro mult_left_mono) simp_all
  then have ss: "S * s \<le> W * (1 + 1 / 2 ^ 53)" using S by simp
  have nn: "0 \<le> S * s" using S s(1) by simp
  have "p \<le> S * s * (1 + 1 / 2 ^ 53)" unfolding p_def by (rule fl_upper [OF nn])
  also have "\<dots> \<le> W * (1 + 1 / 2 ^ 53) * (1 + 1 / 2 ^ 53)" using ss by (intro mult_right_mono) simp_all
  also have "\<dots> \<le> W + 1 / 8" using W by (simp add: field_simps)
  finally have p: "p \<le> W + 1 / 8" .
  have p0: "0 \<le> p" unfolding p_def by (rule fl_nonneg [OF nn])
  have "fl (p + 1 / 2) \<le> (p + 1 / 2) * (1 + 1 / 2 ^ 53)" using p0 by (intro fl_upper) simp
  also have "\<dots> \<le> (W + 5 / 8) * (1 + 1 / 2 ^ 53)" using p by (intro mult_right_mono) simp_all
  also have "\<dots> < W + 1" using W by (simp add: field_simps)
  finally have "\<lfloor>fl (p + 1 / 2)\<rfloor> \<le> w" unfolding W_def by (simp add: floor_le_iff)
  moreover have "0 \<le> fl (p + 1 / 2)" using p0 by (intro fl_nonneg) simp
  ultimately show ?thesis by (simp add: iround_def go_trunc_nonneg p_def [symmetric] S_def [symmetric])
qed

lemma iround_ge:
  assumes w: "0 < w" "w \<le> 2 ^ 20" and sw: "0 < sw" and s: "fl (of_int w / of_int sw) \<le> s"
  shows "w \<le> iround fl (fl (of_int sw * s))"
proof -
  define W S :: rat where "W = of_int w" and "S = of_int sw"
  have W: "0 < W" "W \<le> 2 ^ 20" and S: "0 < S"
    using w sw of_int_le_iff [of w "2 ^ 20", where ?'a = rat] by (simp_all add: W_def S_def)
  define p where "p = fl (S * s)"
  have "W / S * (1 - 1 / 2 ^ 53) \<le> s"
    using s fl_lower [of "W / S"] W S by (simp add: W_def S_def)
  then have "S * (W / S * (1 - 1 / 2 ^ 53)) \<le> S * s" using S by (intro mult_left_mono) simp_all
  then have ss: "W * (1 - 1 / 2 ^ 53) \<le> S * s" using S by simp
  have "0 \<le> W * (1 - 1 / 2 ^ 53)" using W by simp
  then have nn: "0 \<le> S * s" using ss by linarith
  have "W - 1 / 8 \<le> W * (1 - 1 / 2 ^ 53) * (1 - 1 / 2 ^ 53)" using W by (simp add: field_simps)
  also have "\<dots> \<le> S * s * (1 - 1 / 2 ^ 53)" using ss by (intro mult_right_mono) simp_all
  also have "\<dots> \<le> p" unfolding p_def by (rule fl_lower [OF nn])
  finally have p: "W - 1 / 8 \<le> p" .
  have p0: "0 \<le> p" unfolding p_def by (rule fl_nonneg [OF nn])
  have "W \<le> (W + 3 / 8) * (1 - 1 / 2 ^ 53)" using W by (simp add: field_simps)
  also have "\<dots> \<le> (p + 1 / 2) * (1 - 1 / 2 ^ 53)" using p by (intro mult_right_mono) simp_all
  also have "\<dots> \<le> fl (p + 1 / 2)" using p0 by (intro fl_lower) simp
  finally have "w \<le> \<lfloor>fl (p + 1 / 2)\<rfloor>" unfolding W_def by (simp add: le_floor_iff)
  moreover have "0 \<le> fl (p + 1 / 2)" using p0 by (intro fl_nonneg) simp
  ultimately show ?thesis by (simp add: iround_def go_trunc_nonneg p_def [symmetric] S_def [symmetric])
qed

section \<open>Dimensions\<close>

lemma bilinear_dims [simp]:
  "Dx (bilinear fl src dw dh) = max 1 dw" "Dy (bilinear fl src dw dh) = max 1 dh"
  by (auto simp: bilinear_def Let_def new_image_def Dx_def Dy_def)

lemma cropCenter_dims [simp]: "Dx (cropCenter m w h) = w" "Dy (cropCenter m w h) = h"
  by (simp_all add: cropCenter_def Let_def new_image_def Dx_def Dy_def)

lemma transform_dims:
  assumes src: "0 < Dx src" "0 < Dy src" and w: "0 \<le> w" "w \<le> 2 ^ 20" and h: "0 \<le> h" "h \<le> 2 ^ 20"
  shows "0 < w \<and> 0 < h \<and> mode \<noteq> Lfit \<Longrightarrow>
      Dx (transform fl src w h mode) = w \<and> Dy (transform fl src w h mode) = h"
    and "0 < w \<and> 0 < h \<and> mode = Lfit \<Longrightarrow>
      1 \<le> Dx (transform fl src w h mode) \<and> Dx (transform fl src w h mode) \<le> w
      \<and> 1 \<le> Dy (transform fl src w h mode) \<and> Dy (transform fl src w h mode) \<le> h
      \<and> (Dx (transform fl src w h mode) = w \<or> Dy (transform fl src w h mode) = h)"
    and "0 < w \<and> h = 0 \<Longrightarrow> Dx (transform fl src w h mode) = w"
    and "w = 0 \<and> 0 < h \<Longrightarrow> Dy (transform fl src w h mode) = h"
proof -
  let ?a = "fl (of_int w / of_int (Dx src))" and ?b = "fl (of_int h / of_int (Dy src))"
  show "Dx (transform fl src w h mode) = w \<and> Dy (transform fl src w h mode) = h"
    if pos: "0 < w \<and> 0 < h \<and> mode \<noteq> Lfit"
  proof (cases mode)
    case Fill
    have "w \<le> iround fl (fl (of_int (Dx src) * max ?a ?b))" "h \<le> iround fl (fl (of_int (Dy src) * max ?a ?b))"
      using iround_ge [of w "Dx src" "max ?a ?b"] iround_ge [of h "Dy src" "max ?a ?b"] pos src w h by simp_all
    then show ?thesis using pos src Fill by (simp add: transform_def Let_def)
  next
    case Fixed
    then show ?thesis using pos src by (simp add: transform_def Let_def)
  qed (use pos in simp)
  show "1 \<le> Dx (transform fl src w h mode) \<and> Dx (transform fl src w h mode) \<le> w
      \<and> 1 \<le> Dy (transform fl src w h mode) \<and> Dy (transform fl src w h mode) \<le> h
      \<and> (Dx (transform fl src w h mode) = w \<or> Dy (transform fl src w h mode) = h)"
    if pos: "0 < w \<and> 0 < h \<and> mode = Lfit"
  proof -
    have "0 \<le> (of_int w / of_int (Dx src) :: rat)" "0 \<le> (of_int h / of_int (Dy src) :: rat)"
      using pos src by simp_all
    then have s0: "0 \<le> min ?a ?b" by (simp add: fl_nonneg)
    have le: "iround fl (fl (of_int (Dx src) * min ?a ?b)) \<le> w" "iround fl (fl (of_int (Dy src) * min ?a ?b)) \<le> h"
      using iround_le [of w "Dx src" "min ?a ?b"] iround_le [of h "Dy src" "min ?a ?b"] s0 pos src w h by simp_all
    have ge: "w \<le> iround fl (fl (of_int (Dx src) * min ?a ?b)) \<or> h \<le> iround fl (fl (of_int (Dy src) * min ?a ?b))"
      using iround_ge [of w "Dx src" "min ?a ?b"] iround_ge [of h "Dy src" "min ?a ?b"] pos src w h
      by (cases "?a \<le> ?b") (simp_all add: min_def)
    have t: "transform fl src w h mode = bilinear fl src (iround fl (fl (of_int (Dx src) * min ?a ?b)))
        (iround fl (fl (of_int (Dy src) * min ?a ?b)))"
      using pos src by (simp add: transform_def fitDims_def Let_def)
    show ?thesis unfolding t using le ge pos by auto
  qed
  show "Dx (transform fl src w h mode) = w" if "0 < w \<and> h = 0"
    using that src by (simp add: transform_def fitDims_def Let_def)
  show "Dy (transform fl src w h mode) = h" if "w = 0 \<and> 0 < h"
    using that src by (simp add: transform_def fitDims_def Let_def)
qed

section \<open>Resizing to the same size\<close>

lemma src_coord_same:
  assumes "0 \<le> x" "x < s" "s \<le> 2 ^ 25"
  shows "src_coord fl x s s = of_int x"
proof -
  have e1: "fl (of_int x + 1 / 2) = of_int (2 * x + 1) / 2"
    using half_exact [of "2 * x + 1"] assms by (simp add: add_divide_distrib)
  have "(2 * x + 1) * s \<le> (2 * 2 ^ 25) * 2 ^ 25" using assms by (intro mult_mono) simp_all
  moreover have "0 \<le> (2 * x + 1) * s" using assms by simp
  ultimately have "\<bar>(2 * x + 1) * s\<bar> \<le> 2 ^ 53" by simp
  from half_exact [OF this]
  have e2: "fl (of_int (2 * x + 1) / 2 * of_int s) = of_int (2 * x + 1) / 2 * of_int s" by simp
  have e3: "of_int (2 * x + 1) / 2 * of_int s / of_int s = (of_int (2 * x + 1) / 2 :: rat)"
    using assms by simp
  have e4: "fl (of_int (2 * x + 1) / 2) = of_int (2 * x + 1) / 2"
    using assms by (intro half_exact) simp
  have e5: "of_int (2 * x + 1) / 2 - 1 / 2 = (of_int x :: rat)" by (simp add: field_simps)
  have e6: "fl (of_int x) = of_int x" using assms by (intro int_exact) simp
  show ?thesis unfolding src_coord_def e1 e2 e3 e4 e5 e6 ..
qed

lemma lerp2_corner:
  assumes "0 \<le> c" "c \<le> 255"
  shows "lerp2 fl c c10 c01 c11 0 0 = c"
proof -
  have "fl (of_int c) = of_int c" using assms by (intro int_exact) simp
  moreover have "fl (of_int c + 1 / 2) = of_int c + 1 / 2"
    using half_exact [of "2 * c + 1"] assms by (simp add: add_divide_distrib)
  moreover have "\<lfloor>of_int c + 1 / 2 :: rat\<rfloor> = c" by (simp add: floor_eq_iff)
  ultimately show ?thesis using assms by (simp add: lerp2_def Let_def go_trunc_def)
qed

lemma bilinear_same_size:
  assumes dim: "Dx src \<le> 2 ^ 25" "Dy src \<le> 2 ^ 25"
    and x: "0 \<le> x" "x < Dx src" and y: "0 \<le> y" "y < Dy src"
    and px: "byte_pixel (pixel src (minX src + x) (minY src + y))"
  shows "pixel (bilinear fl src (Dx src) (Dy src)) x y = pixel src (minX src + x) (minY src + y)"
proof -
  have d: "\<not> Dx src < 1" "\<not> Dy src < 1" using x y by simp_all
  have "sample src x y = pixel src (minX src + x) (minY src + y)"
    using x y by (simp add: sample_def Let_def)
  moreover have "lerp2 fl (ch (pixel src (minX src + x) (minY src + y))) c10 c01 c11 0 0
      = ch (pixel src (minX src + x) (minY src + y))"
    if "ch \<in> {chR, chG, chB, chA}" for ch c10 c01 c11
    using px that by (intro lerp2_corner) (auto simp: byte_pixel_def)
  ultimately show ?thesis
    using src_coord_same [OF x dim(1)] src_coord_same [OF y dim(2)] d
    by (simp add: bilinear_def Let_def new_image_def)
qed

end

end
