(* ===== verification/Middleware_Props.thy ===== *)
theory Middleware_Props
  imports Middleware Imageproc_Facts Gateway_Example
begin

text \<open>
  Properties of the image resizer and of the HTTP middlewares.
\<close>

section \<open>Image resizing\<close>

lemma clampDim_range: "0 \<le> clampDim n \<and> clampDim n \<le> 4096"
  by (simp add: clampDim_def maxResizeDim_def)

lemma resize_params_range:
  assumes "0 \<le> w" "w \<le> 4096" "0 \<le> h" "h \<le> 4096" and "resize_params ps (w, h, mode) = (w', h', mode')"
  shows "0 \<le> w' \<and> w' \<le> 4096 \<and> 0 \<le> h' \<and> h' \<le> 4096"
  using assms
proof (induction ps arbitrary: w h mode)
  case (Cons p ps)
  have "\<exists>w1 h1 m1. resize_params (p # ps) (w, h, mode) = resize_params ps (w1, h1, m1)
      \<and> 0 \<le> w1 \<and> w1 \<le> 4096 \<and> 0 \<le> h1 \<and> h1 \<le> 4096"
    using Cons.prems(1-4) clampDim_range by (auto split: prod.splits option.splits)
  then show ?case using Cons.IH Cons.prems(5) by metis
qed simp

lemma parse_range:
  assumes "parseHuaweiResize spec = (w, h, mode, True)"
  shows "0 \<le> w \<and> w \<le> 4096 \<and> 0 \<le> h \<and> h \<le> 4096 \<and> (0 < w \<or> 0 < h)"
proof -
  have "0 \<le> w \<and> w \<le> 4096 \<and> 0 \<le> h \<and> h \<le> 4096 \<and> (0 < w \<or> 0 < h)"
    if "resize_actions as = (w, h, mode, True)" for as
    using that
  proof (induction as)
    case (Cons a as)
    obtain n ps where n: "split_on (CHR '','') a = n # ps" by (cases "split_on (CHR '','') a") simp_all
    show ?case
    proof (cases "n = ''resize''")
      case True
      obtain w1 h1 m1 where r: "resize_params ps (0, 0, Lfit) = (w1, h1, m1)" by (metis prod_cases3)
      then show ?thesis using Cons.prems n True resize_params_range [OF _ _ _ _ r] by auto
    next
      case False
      then show ?thesis using Cons n by simp
    qed
  qed simp
  then show ?thesis using assms by (simp add: parseHuaweiResize_def)
qed

text \<open>
  C38: The size of a resized image. For every resize specification that is accepted, a width and
  a height between 0 and 4096 are requested, not both 0. On a non-empty source, fill and fixed
  produce exactly that size, the default mode an image of at least one pixel inside the box
  that touches it, and one given side is met exactly. This holds for every rounding of the
  floating-point operations within the contract of \<open>float64\<close>.
\<close>

theorem resize_dimensions:
  assumes "float_rounding fl" and "parseHuaweiResize spec = (w, h, mode, True)"
    and "0 < Dx src" and "0 < Dy src" and "dst = transform fl src w h mode"
  shows "0 \<le> w \<and> w \<le> 4096 \<and> 0 \<le> h \<and> h \<le> 4096 \<and> (0 < w \<or> 0 < h)
    \<and> (0 < w \<and> 0 < h \<and> mode \<noteq> Lfit \<longrightarrow> Dx dst = w \<and> Dy dst = h)
    \<and> (0 < w \<and> 0 < h \<and> mode = Lfit \<longrightarrow>
         1 \<le> Dx dst \<and> Dx dst \<le> w \<and> 1 \<le> Dy dst \<and> Dy dst \<le> h \<and> (Dx dst = w \<or> Dy dst = h))
    \<and> (h = 0 \<longrightarrow> Dx dst = w) \<and> (w = 0 \<longrightarrow> Dy dst = h)"
proof -
  have r: "0 \<le> w \<and> w \<le> 4096 \<and> 0 \<le> h \<and> h \<le> 4096 \<and> (0 < w \<or> 0 < h)" by (rule parse_range [OF assms(2)])
  then have b: "0 \<le> w" "w \<le> 2 ^ 20" "0 \<le> h" "h \<le> 2 ^ 20" by simp_all
  note d = float_rounding.transform_dims [OF assms(1,3,4) b, of mode, folded assms(5)]
  have "h = 0 \<longrightarrow> 0 < w" "w = 0 \<longrightarrow> 0 < h" using r by auto
  then show ?thesis using r d by blast
qed

definition ex_image :: img where
  "ex_image = \<lparr>minX = 0, minY = 0, maxX = 600, maxY = 400,
     pixel = (\<lambda>x y. \<lparr>chR = 0, chG = 0, chB = 0, chA = 255\<rparr>)\<rparr>"

lemma ex_image_dims: "Dx ex_image = 600" "Dy ex_image = 400"
  by (simp_all add: ex_image_def Dx_def Dy_def)

lemma ex_spec: "parseHuaweiResize ''image/resize,m_fill,w_200,h_9000'' = (200, 4096, Fill, True)"
  by code_simp

theorem resize_dimensions_witness:
  "Dx (transform round64 ex_image 200 4096 Fill) = 200 \<and> Dy (transform round64 ex_image 200 4096 Fill) = 4096"
  using resize_dimensions [OF round64.float_rounding_axioms ex_spec _ _ refl, of ex_image]
  by (simp add: ex_image_dims)

text \<open>
  Resizing to the same size changes nothing. For an image of up to 2^25 pixels a side with
  byte channels, bilinear sampling at the image's own size returns every pixel as it is.
\<close>

theorem resize_same_size_identity:
  assumes "float_rounding fl" and "Dx src \<le> 2 ^ 25" and "Dy src \<le> 2 ^ 25"
    and "0 \<le> x" and "x < Dx src" and "0 \<le> y" and "y < Dy src"
    and "byte_pixel (pixel src (minX src + x) (minY src + y))"
  shows "pixel (transform fl src (Dx src) (Dy src) Fixed) x y = pixel src (minX src + x) (minY src + y)"
  using float_rounding.bilinear_same_size [OF assms] assms(4-7) by (simp add: transform_def Let_def)

theorem resize_same_size_identity_witness:
  "pixel (transform round64 ex_image 600 400 Fixed) 3 7 = \<lparr>chR = 0, chG = 0, chB = 0, chA = 255\<rparr>"
proof -
  have "byte_pixel (pixel ex_image (minX ex_image + 3) (minY ex_image + 7))"
    by (simp add: ex_image_def byte_pixel_def)
  from resize_same_size_identity [OF round64.float_rounding_axioms _ _ _ _ _ _ this]
  show ?thesis by (simp add: ex_image_dims) (simp add: ex_image_def)
qed

text \<open>
  The guard on the source's pixels does not bound the result: a column of 40 million pixels is
  admitted, and a specification with a width only asks for 4096 times 163.84 billion of them.
\<close>

lemma resize_output_unbounded:
  assumes "float_rounding fl" and "Dx src = 1" and "Dy src = MaxPixels"
  shows "Dx (transform fl src 4096 0 Lfit) = 4096 \<and> Dy (transform fl src 4096 0 Lfit) = 163840000000"
proof -
  have ex: "fl (of_int n) = of_int n" if "\<bar>n\<bar> \<le> 2 ^ 52" for n
    by (rule float_rounding.int_exact [OF assms(1) that])
  have "fl (of_int 327680000001 / 2) = of_int 327680000001 / 2"
    by (rule float_rounding.half_exact [OF assms(1)]) simp
  then have "fl (327680000001 / 2) = 327680000001 / 2" unfolding of_int_numeral .
  then have half: "fl (163840000000 + 1 / 2) = 163840000000 + 1 / 2" by simp
  have "iround fl 163840000000 = 163840000000"
    unfolding iround_def half go_trunc_def by (simp add: floor_eq_iff)
  then have "iround fl (fl (fl (of_int (Dy src) * of_int 4096) / of_int 1)) = 163840000000"
    using ex [of 163840000000] by (simp add: assms(3) MaxPixels_def)
  then show ?thesis
    using assms(2,3) by (simp add: transform_def fitDims_def Let_def MaxPixels_def
        float_rounding.bilinear_dims [OF assms(1)])
qed

section \<open>Copy source\<close>

text \<open>
  C36: The copy source is normalized without loss. When \<open>normalizeCopySource\<close> accepts a header,
  whatever its encoding, the result is a slash, the bucket, a slash and an escaped key; bucket
  and key are those of the fully decoded header, the escaped key has no slash or question mark
  that the parser could split on, and unescaping it recovers the key exactly. A header with a
  malformed escape or without a key is rejected.
\<close>

theorem copy_source_normalized:
  assumes "dec = PathUnescape (trim_prefix (fst (cut_at (CHR ''?'') src)) ''/'')"
  shows "(case normalizeCopySource src of
       Some out \<Rightarrow> \<exists>d bucket key e. dec = Some d \<and> trim_prefix d ''/'' = bucket @ ''/'' @ key \<and> key \<noteq> []
          \<and> CHR ''/'' \<notin> set bucket \<and> out = ''/'' @ bucket @ ''/'' @ e
          \<and> CHR ''/'' \<notin> set e \<and> CHR ''?'' \<notin> set e \<and> QueryUnescape e = Some key
     | None \<Rightarrow> dec = None \<or> (\<exists>d. dec = Some d
          \<and> (\<nexists>bucket key. trim_prefix d ''/'' = bucket @ ''/'' @ key \<and> key \<noteq> [] \<and> CHR ''/'' \<notin> set bucket)))"
proof (cases dec)
  case None
  then show ?thesis using assms by (simp add: normalizeCopySource_def)
next
  case (Some d)
  show ?thesis
  proof (cases "splitBucketKey d")
    case None
    have "False" if "trim_prefix d ''/'' = bucket @ ''/'' @ key" "key \<noteq> []" "CHR ''/'' \<notin> set bucket" for bucket key
    proof -
      have "cut_at (CHR ''/'') (trim_prefix d ''/'') = (bucket, Some key)"
        using that by (simp add: cut_at_Some)
      then show False using None that(2) by (cases key) (simp_all add: splitBucketKey_def)
    qed
    then show ?thesis using Some None assms by (auto simp: normalizeCopySource_def)
  next
    case (Some bk)
    obtain bucket key where bk: "splitBucketKey d = Some (bucket, key)" using Some by (cases bk) simp
    then have c: "cut_at (CHR ''/'') (trim_prefix d ''/'') = (bucket, Some key)" "key \<noteq> []"
      by (auto simp: splitBucketKey_def split: prod.splits option.splits list.splits)
    then have "trim_prefix d ''/'' = bucket @ ''/'' @ key" "CHR ''/'' \<notin> set bucket"
      by (simp_all add: cut_at_Some)
    moreover have "normalizeCopySource src = Some (''/'' @ bucket @ ''/'' @ QueryEscape key)"
      using \<open>dec = Some d\<close> assms bk by (simp add: normalizeCopySource_def)
    ultimately show ?thesis using \<open>dec = Some d\<close> c(2) query_escape_plain by fastforce
  qed
qed

theorem copy_source_normalized_witness:
  "normalizeCopySource ''photos%2F2024%2Fa%20b.jpg?versionId=3'' = Some ''/photos/2024%2Fa+b.jpg''
   \<and> (\<exists>e. ''/photos/2024%2Fa+b.jpg'' = ''/'' @ ''photos'' @ ''/'' @ e \<and> QueryUnescape e = Some ''2024/a b.jpg'')"
proof -
  have n: "normalizeCopySource ''photos%2F2024%2Fa%20b.jpg?versionId=3'' = Some ''/photos/2024%2Fa+b.jpg''"
    by code_simp
  have d: "PathUnescape (trim_prefix (fst (cut_at (CHR ''?'') ''photos%2F2024%2Fa%20b.jpg?versionId=3'')) ''/'')
      = Some ''photos/2024/a b.jpg''" by code_simp
  have t: "trim_prefix ''photos/2024/a b.jpg'' ''/'' = ''photos/2024/a b.jpg''" by code_simp
  obtain bucket key e where x: "''photos/2024/a b.jpg'' = bucket @ ''/'' @ key" "CHR ''/'' \<notin> set bucket"
    "''/photos/2024%2Fa+b.jpg'' = ''/'' @ bucket @ ''/'' @ e" "QueryUnescape e = Some key"
    using copy_source_normalized [OF refl, of "''photos%2F2024%2Fa%20b.jpg?versionId=3''"] by (auto simp: n d t)
  have "cut_at (CHR ''/'') ''photos/2024/a b.jpg'' = (''photos'', Some ''2024/a b.jpg'')" by code_simp
  moreover have "cut_at (CHR ''/'') ''photos/2024/a b.jpg'' = (bucket, Some key)"
    using x(1,2) by (simp only: cut_at_Some append_Cons append_Nil simp_thms not_False_eq_True)
  ultimately have "bucket = ''photos''" "key = ''2024/a b.jpg''" by simp_all
  then show ?thesis using n x(3,4) by blast
qed

text \<open>
  The normalization is not idempotent: what it makes of a key with a space is already in the form
  that the server parses, and normalizing it again names another key.
\<close>

lemma copy_source_not_idempotent:
  "normalizeCopySource ''/photos/a%20b'' = Some ''/photos/a+b''"
  "normalizeCopySource ''/photos/a+b'' = Some ''/photos/a%2Bb''"
  "QueryUnescape ''a+b'' = Some ''a b''" "QueryUnescape ''a%2Bb'' = Some ''a+b''"
  by code_simp+

section \<open>Content types\<close>



text \<open>The value of a header when the response is committed: the last one set before.\<close>

fun sent_header :: "string \<Rightarrow> string \<Rightarrow> wcall list \<Rightarrow> string" where
  "sent_header n v (SetHeader m x # cs) = sent_header n (if m = n then x else v) cs"
| "sent_header n v cs = v"

text \<open>The header calls before the response is committed go through, and decide the type.\<close>

fun header_only :: "wcall \<Rightarrow> bool" where
  "header_only (SetHeader n v) = True"
| "header_only c = False"

lemma xml_writer_committed: "xml_writer True ct cs = cs"
proof (induction cs arbitrary: ct)
  case (Cons c cs)
  then show ?case by (cases c) simp_all
qed simp

lemma xml_writer_headers:
  "\<forall>c \<in> set pre. header_only c \<Longrightarrow>
   xml_writer False ct (pre @ cs) = pre @ xml_writer False (sent_header ''Content-Type'' ct pre) cs"
proof (induction pre arbitrary: ct)
  case (Cons c pre)
  then show ?case by (cases c) simp_all
qed simp


text \<open>The paths that name an object: a bucket without slashes, a slash, and a key that is not empty.\<close>

definition object_path :: "string \<Rightarrow> bool" where
  "object_path p \<longleftrightarrow>
     (\<exists>bucket key. trim_prefix p ''/'' = bucket @ ''/'' @ key \<and> CHR ''/'' \<notin> set bucket \<and> key \<noteq> [])"

lemma splitBucketKey_path: "splitBucketKey p \<noteq> None \<longleftrightarrow> object_path p"
proof
  assume "splitBucketKey p \<noteq> None"
  then obtain bucket k key where "cut_at (CHR ''/'') (trim_prefix p ''/'') = (bucket, Some (k # key))"
    by (auto simp: splitBucketKey_def split: prod.splits option.splits list.splits)
  then show "object_path p" unfolding object_path_def cut_at_Some by fastforce
next
  assume "object_path p"
  then obtain bucket k key where "cut_at (CHR ''/'') (trim_prefix p ''/'') = (bucket, Some (k # key))"
    unfolding object_path_def cut_at_Some by (metis append_Cons append_Nil neq_Nil_conv)
  then show "splitBucketKey p \<noteq> None" by (simp add: splitBucketKey_def)
qed

lemma routing:
  "isObjectRead r \<longleftrightarrow> (Method r = ''GET'' \<or> Method r = ''HEAD'') \<and> object_path (URLPath r)"
  "isObjectWrite r \<longleftrightarrow> Method r = ''PUT'' \<and> CopySource r = [] \<and> object_path (URLPath r)"
  by (simp_all only: isObjectRead_def isObjectWrite_def splitBucketKey_path)

text \<open>
  C37: What the XML middleware does to a response. A GET or HEAD of an object goes through untouched.
  On any other request the calls of the inner handler reach the real writer in order, and at most
  one is added: a header call that sets the Content-Type to application/xml, right before the first
  Write or WriteHeader. It is added when the type set so far begins with text/xml, and also, when
  that first call is a Write, if no type is set and its bytes begin an XML document after white
  space. When the first call is a WriteHeader nothing is known of the body, so an XML body that
  follows without a type gets none (the comment at xmlcontenttype.go:54-58 says WriteHeader decides
  only if there is no body).
\<close>

theorem xml_content_type_normalized:
  assumes "next s r = (t, calls)" and "FixXMLContentTypeHandler next s r = (u, out)"
  shows "u = t
    \<and> ((Method r = ''GET'' \<or> Method r = ''HEAD'') \<and> object_path (URLPath r) \<longrightarrow> out = calls)
    \<and> (\<not> ((Method r = ''GET'' \<or> Method r = ''HEAD'') \<and> object_path (URLPath r)) \<longrightarrow>
         (\<forall>pre rest body code. (\<forall>c \<in> set pre. header_only c) \<longrightarrow>
            (let ct = sent_header ''Content-Type'' [] pre;
                 xml = [SetHeader ''Content-Type'' ''application/xml'']
             in (calls = pre \<longrightarrow> out = calls)
                \<and> (calls = pre @ WriteBody body # rest \<longrightarrow>
                     out = pre @ (if prefix ''text/xml'' ct
                                     \<or> ct = [] \<and> prefix ''<?xml'' (dropWhile xml_space body)
                                  then xml else []) @ WriteBody body # rest)
                \<and> (calls = pre @ WriteHeader code # rest \<longrightarrow>
                     out = pre @ (if prefix ''text/xml'' ct then xml else []) @ WriteHeader code # rest))))"
proof (cases "(Method r = ''GET'' \<or> Method r = ''HEAD'') \<and> object_path (URLPath r)")
  case True
  then show ?thesis using assms by (simp add: FixXMLContentTypeHandler_def routing)
next
  case False
  then have o: "u = t" "out = xml_writer False [] calls"
    using assms by (auto simp: FixXMLContentTypeHandler_def routing)
  have "\<not> prefix ''<?xml'' []" by simp
  then show ?thesis unfolding o Let_def
    using False xml_writer_headers [of _ "[]" "[]"]
    by (auto simp: xml_writer_headers xml_writer_committed normalize_type_def)
qed

theorem xml_content_type_normalized_witness:
  "snd (FixXMLContentTypeHandler (\<lambda>s r. (s, [WriteBody ''<?xml ?>'', WriteBody ''<a/>'']))
        (undefined :: (nat, nat) svc) \<lparr>Method = ''GET'', URLPath = ''/bucket'', ImageQuery = [], CopySource = []\<rparr>)
   = [SetHeader ''Content-Type'' ''application/xml'', WriteBody ''<?xml ?>'', WriteBody ''<a/>'']"
proof -
  let ?r = "\<lparr>Method = ''GET'', URLPath = ''/bucket'', ImageQuery = [], CopySource = []\<rparr>"
  let ?next = "\<lambda>(s :: (nat, nat) svc) (r :: request). (s, [WriteBody ''<?xml ?>'', WriteBody ''<a/>''])"
  obtain u out where f: "FixXMLContentTypeHandler ?next (undefined :: (nat, nat) svc) ?r = (u, out)" by force
  have "splitBucketKey ''/bucket'' = None" by code_simp
  then have no: "\<not> object_path ''/bucket''" using splitBucketKey_path by blast
  have "prefix ''<?xml'' (dropWhile xml_space ''<?xml ?>'')" by code_simp
  then show ?thesis
    using xml_content_type_normalized [OF refl f, THEN conjunct2, THEN conjunct2, rule_format, of "[]"]
      no f by (simp add: Let_def)
qed

text \<open>
  A status that is written before the body commits the type while the body is not known: the
  XML document that follows is sent without a Content-Type and is left to the sniffer.
\<close>

lemma xml_after_status_not_normalized:
  "snd (FixXMLContentTypeHandler (\<lambda>s r. (s, [WriteHeader 404, WriteBody ''<?xml ?>'']))
        (s :: (nat, nat) svc) \<lparr>Method = ''GET'', URLPath = ''/bucket'', ImageQuery = [], CopySource = []\<rparr>)
   = [WriteHeader 404, WriteBody ''<?xml ?>'']"
proof -
  have "splitBucketKey ''/bucket'' = None" "normalize_type [] [] = []" by code_simp+
  then show ?thesis by (simp add: FixXMLContentTypeHandler_def isObjectRead_def)
qed

section \<open>The stack\<close>






end
