(* ===== verification/Config.thy ===== *)
theory Config
  imports Chain Uploader Object Go_Net
begin

text \<open>
  \<open>cmd/gateway/config.go\<close>: the configuration and how it is resolved from defaults, the YAML
  file and the environment, and how \<open>main.go\<close> hands it to the components. The YAML decoder,
  the file system, the environment and \<open>%q\<close> are parameters.
\<close>

record gw_config =
  cListen :: string
  cDataDir :: string
  cNodes :: "string list"
  cEthRPC :: string
  cPrivateKey :: string
  cMaxSize :: int
  cCacheMaxBytes :: int
  cBatchMax :: int
  cMaxRetries :: int
  cFlushIntervalMS :: int
  cExpectedReplica :: "64 word"

text \<open>
  \<open>yaml_Unmarshal\<close> decodes onto a configuration; the environment is a function, empty where
  a variable is unset.
\<close>

record config_host =
  ReadFile :: "string \<Rightarrow> string result"
  yaml_Unmarshal :: "string \<Rightarrow> gw_config \<Rightarrow> gw_config result"
  Getenv :: "string \<Rightarrow> string"
  quoted :: "string \<Rightarrow> string"

definition defaultConfig :: gw_config where
  "defaultConfig =
     \<lparr>cListen = '':8080'', cDataDir = ''./data'', cNodes = [], cEthRPC = [], cPrivateKey = [],
      cMaxSize = 4 * 2 ^ 30, cCacheMaxBytes = 10 * 2 ^ 30, cBatchMax = 20, cMaxRetries = 5,
      cFlushIntervalMS = 3000, cExpectedReplica = 0\<rparr>"

section \<open>Values of variables\<close>

text \<open>The UTF-8 encodings of the characters that \<open>unicode.IsSpace\<close> accepts.\<close>

definition space_runes :: "string list" where
  "space_runes =
     map (map char_of)
       ([[9], [10], [11], [12], [13], [32], [0xC2, 0x85], [0xC2, 0xA0], [0xE1, 0x9A, 0x80],
         [0xE2, 0x80, 0xA8], [0xE2, 0x80, 0xA9], [0xE2, 0x80, 0xAF], [0xE2, 0x81, 0x9F],
         [0xE3, 0x80, 0x80]]
        @ map (\<lambda>n. [0xE2, 0x80, n]) [0x80..<0x8B :: nat])"

definition first_match :: "string list \<Rightarrow> string \<Rightarrow> string option" where
  "first_match qs s = find (\<lambda>q. prefix q s) qs"

function trim_while :: "string list \<Rightarrow> string \<Rightarrow> string" where
  "trim_while qs s =
     (case first_match qs s of
        None \<Rightarrow> s
      | Some q \<Rightarrow> if q = [] then s else trim_while qs (drop (length q) s))"
  by pat_completeness auto

termination trim_while
proof (relation "measure (length \<circ> snd)")
  fix qs s and q :: string
  assume "first_match qs s = Some q" "q \<noteq> []"
  then have "prefix q s" by (auto simp: first_match_def find_Some_iff)
  then have "length q \<le> length s" by (rule prefix_length_le)
  then show "((qs, drop (length q) s), qs, s) \<in> measure (length \<circ> snd)"
    using \<open>q \<noteq> []\<close> by (cases q) simp_all
qed simp

declare trim_while.simps [simp del]

text \<open>\<open>strings.TrimSpace\<close>: both ends; an encoding read backwards ends the string.\<close>

definition TrimSpace :: "string \<Rightarrow> string" where
  "TrimSpace s = rev (trim_while (map rev space_runes) (rev (trim_while space_runes s)))"

definition splitCSV :: "string \<Rightarrow> string list" where
  "splitCSV v = filter (\<lambda>p. p \<noteq> []) (map TrimSpace (split_on (CHR '','') v))"

definition envStr :: "config_host \<Rightarrow> string \<Rightarrow> string \<Rightarrow> string" where
  "envStr E k dst = (let v = Getenv E k in if v \<noteq> [] then v else dst)"

text \<open>\<open>conv\<close> is the conversion \<open>T(n)\<close> to the field's type.\<close>

definition envInt :: "config_host \<Rightarrow> (int \<Rightarrow> 'a) \<Rightarrow> string \<Rightarrow> 'a \<Rightarrow> 'a result" where
  "envInt E conv k dst =
     (let v = Getenv E k in
      if v = [] then Inr dst
      else
        (case ParseInt v of
           (n, True) \<Rightarrow> Inl (ErrMsg (''invalid integer for '' @ k @ '': '' @ quoted E v))
         | (n, False) \<Rightarrow> Inr (conv n)))"

definition to_uint :: "int \<Rightarrow> 64 word" where
  "to_uint n = word_of_int n"

section \<open>Resolution\<close>

definition applyEnvOverrides :: "config_host \<Rightarrow> gw_config \<Rightarrow> gw_config result" where
  "applyEnvOverrides E c0 =
     (let c1 = c0\<lparr>cListen := envStr E ''ZGS_GW_LISTEN'' (cListen c0)\<rparr>;
          c2 = c1\<lparr>cDataDir := envStr E ''ZGS_GW_DATA_DIR'' (cDataDir c1)\<rparr>;
          c3 = c2\<lparr>cEthRPC := envStr E ''ZGS_ETH_RPC'' (cEthRPC c2)\<rparr>;
          c4 = c3\<lparr>cPrivateKey := envStr E ''ZGS_PRIVATE_KEY'' (cPrivateKey c3)\<rparr>;
          c5 = (let v = Getenv E ''ZGS_NODES'' in if v \<noteq> [] then c4\<lparr>cNodes := splitCSV v\<rparr> else c4)
      in case envInt E id ''ZGS_GW_MAX_SIZE'' (cMaxSize c5) of
           Inl e \<Rightarrow> Inl e
         | Inr n6 \<Rightarrow> (let c6 = c5\<lparr>cMaxSize := n6\<rparr> in
         case envInt E id ''ZGS_GW_CACHE_MAX_BYTES'' (cCacheMaxBytes c6) of
           Inl e \<Rightarrow> Inl e
         | Inr n7 \<Rightarrow> (let c7 = c6\<lparr>cCacheMaxBytes := n7\<rparr> in
         case envInt E id ''ZGS_GW_BATCH_MAX'' (cBatchMax c7) of
           Inl e \<Rightarrow> Inl e
         | Inr n8 \<Rightarrow> (let c8 = c7\<lparr>cBatchMax := n8\<rparr> in
         case envInt E id ''ZGS_GW_MAX_RETRIES'' (cMaxRetries c8) of
           Inl e \<Rightarrow> Inl e
         | Inr n9 \<Rightarrow> (let c9 = c8\<lparr>cMaxRetries := n9\<rparr> in
         case envInt E id ''ZGS_GW_FLUSH_INTERVAL_MS'' (cFlushIntervalMS c9) of
           Inl e \<Rightarrow> Inl e
         | Inr n10 \<Rightarrow> (let c10 = c9\<lparr>cFlushIntervalMS := n10\<rparr> in
         case envInt E to_uint ''ZGS_EXPECTED_REPLICA'' (cExpectedReplica c10) of
           Inl e \<Rightarrow> Inl e
         | Inr n11 \<Rightarrow> Inr (c10\<lparr>cExpectedReplica := n11\<rparr>)))))))"

text \<open>The names of the missing settings, and \<open>strings.Join\<close> with a comma and a space.\<close>

definition missing_settings :: "gw_config \<Rightarrow> string list" where
  "missing_settings c =
     (if cNodes c = [] then [''nodes (ZGS_NODES)''] else [])
     @ (if cEthRPC c = [] then [''eth_rpc (ZGS_ETH_RPC)''] else [])
     @ (if cPrivateKey c = [] then [''private_key (ZGS_PRIVATE_KEY)''] else [])"

fun join_comma :: "string list \<Rightarrow> string" where
  "join_comma [] = []"
| "join_comma [x] = x"
| "join_comma (x # y # ys) = x @ '', '' @ join_comma (y # ys)"

definition validate :: "gw_config \<Rightarrow> err option" where
  "validate c =
     (if missing_settings c \<noteq> []
      then Some (ErrMsg (''missing required configuration: '' @ join_comma (missing_settings c)))
      else if cFlushIntervalMS c \<le> 0
      then Some (ErrMsg (''flush_interval_ms must be a positive integer, got '' @ itoa (cFlushIntervalMS c)))
      else if cCacheMaxBytes c < 0
      then Some (ErrMsg (''cache_max_bytes must be >= 0 (0 = unbounded), got '' @ itoa (cCacheMaxBytes c)))
      else None)"

text \<open>The configuration before the environment: the defaults, or the file decoded onto them.\<close>

definition read_config :: "config_host \<Rightarrow> string \<Rightarrow> gw_config result" where
  "read_config E path =
     (let explicit = (path \<noteq> []);
          path' = (if path = [] then ''config.yaml'' else path)
      in case ReadFile E path' of
           Inr data \<Rightarrow>
             (case yaml_Unmarshal E data defaultConfig of
                Inl e \<Rightarrow> Inl (Wrapped (''parse config file '' @ path') e)
              | Inr c \<Rightarrow> Inr c)
         | Inl e \<Rightarrow>
             if explicit \<or> e \<noteq> ErrNotExist then Inl (Wrapped (''read config file '' @ path') e)
             else Inr defaultConfig)"

definition loadConfig :: "config_host \<Rightarrow> string \<Rightarrow> gw_config result" where
  "loadConfig E path =
     (case read_config E path of
        Inl e \<Rightarrow> Inl e
      | Inr c \<Rightarrow>
          (case applyEnvOverrides E c of
             Inl e \<Rightarrow> Inl e
           | Inr c' \<Rightarrow> (case validate c' of Some e \<Rightarrow> Inl e | None \<Rightarrow> Inr c')))"

section \<open>What main hands out\<close>

text \<open>The flush interval in nanoseconds: the multiplication of \<open>time.Duration\<close> wraps.\<close>

definition flush_interval :: "gw_config \<Rightarrow> int" where
  "flush_interval c = int64 (cFlushIntervalMS c * 1000000)"

definition replica_count :: "gw_config \<Rightarrow> 64 word" where
  "replica_count c = (if cExpectedReplica c = 0 then of_nat (length (cNodes c)) else cExpectedReplica c)"

definition chain_options :: "gw_config \<Rightarrow> options" where
  "chain_options c =
     \<lparr>Nodes = cNodes c, EthRPC = cEthRPC c, PrivateKey = cPrivateKey c,
      ExpectedReplica = replica_count c\<rparr>"

definition service_config :: "gw_config \<Rightarrow> svc_config" where
  "service_config c = \<lparr>DataDir = cDataDir c, MaxSize = cMaxSize c, CacheMaxBytes = cCacheMaxBytes c\<rparr>"

definition uploader_config :: "gw_config \<Rightarrow> worker_config" where
  "uploader_config c =
     \<lparr>BatchMax = cBatchMax c, MaxRetries = cMaxRetries c, PathOf = CachePath (service_config c)\<rparr>"

end
