(* ===== verification/Config_Props.thy ===== *)
theory Config_Props
  imports Config
begin

text \<open>
  Properties of the configuration: how it is resolved, and what the validation lets through.
\<close>

section \<open>Resolution\<close>

text \<open>A number is the value of its variable, converted to the field's type, where that is set.\<close>

definition number_of ::
  "config_host \<Rightarrow> (int \<Rightarrow> 'a) \<Rightarrow> string \<Rightarrow> 'a \<Rightarrow> 'a \<Rightarrow> bool" where
  "number_of E conv v dflt x \<longleftrightarrow>
     (if Getenv E v = [] then x = dflt else \<exists>n. ParseInt (Getenv E v) = (n, False) \<and> x = conv n)"

lemma envInt_iff: "envInt E conv v dflt = Inr x \<longleftrightarrow> number_of E conv v dflt x"
  by (auto simp: envInt_def number_of_def Let_def split: prod.splits bool.splits)

lemma envInt_bind:
  "(case envInt E conv v dflt of Inl e \<Rightarrow> Inl e | Inr x \<Rightarrow> f x) = Inr y
   \<longleftrightarrow> (\<exists>x. number_of E conv v dflt x \<and> f x = Inr y)"
  by (cases "envInt E conv v dflt") (auto simp: envInt_iff [symmetric])

lemma validate_iff:
  "validate c = None \<longleftrightarrow>
     cNodes c \<noteq> [] \<and> cEthRPC c \<noteq> [] \<and> cPrivateKey c \<noteq> [] \<and> 0 < cFlushIntervalMS c \<and> 0 \<le> cCacheMaxBytes c"
  by (auto simp: validate_def missing_settings_def)

lemma overrides_iff:
  "applyEnvOverrides E c0 = Inr c \<longleftrightarrow>
     cListen c = envStr E ''ZGS_GW_LISTEN'' (cListen c0)
     \<and> cDataDir c = envStr E ''ZGS_GW_DATA_DIR'' (cDataDir c0)
     \<and> cEthRPC c = envStr E ''ZGS_ETH_RPC'' (cEthRPC c0)
     \<and> cPrivateKey c = envStr E ''ZGS_PRIVATE_KEY'' (cPrivateKey c0)
     \<and> cNodes c = (if Getenv E ''ZGS_NODES'' = [] then cNodes c0 else splitCSV (Getenv E ''ZGS_NODES''))
     \<and> number_of E id ''ZGS_GW_MAX_SIZE'' (cMaxSize c0) (cMaxSize c)
     \<and> number_of E id ''ZGS_GW_CACHE_MAX_BYTES'' (cCacheMaxBytes c0) (cCacheMaxBytes c)
     \<and> number_of E id ''ZGS_GW_BATCH_MAX'' (cBatchMax c0) (cBatchMax c)
     \<and> number_of E id ''ZGS_GW_MAX_RETRIES'' (cMaxRetries c0) (cMaxRetries c)
     \<and> number_of E id ''ZGS_GW_FLUSH_INTERVAL_MS'' (cFlushIntervalMS c0) (cFlushIntervalMS c)
     \<and> number_of E to_uint ''ZGS_EXPECTED_REPLICA'' (cExpectedReplica c0) (cExpectedReplica c)"
proof -
  define c5 where "c5 = c0\<lparr>cListen := envStr E ''ZGS_GW_LISTEN'' (cListen c0),
    cDataDir := envStr E ''ZGS_GW_DATA_DIR'' (cDataDir c0), cEthRPC := envStr E ''ZGS_ETH_RPC'' (cEthRPC c0),
    cPrivateKey := envStr E ''ZGS_PRIVATE_KEY'' (cPrivateKey c0),
    cNodes := (if Getenv E ''ZGS_NODES'' = [] then cNodes c0 else splitCSV (Getenv E ''ZGS_NODES''))\<rparr>"
  have "applyEnvOverrides E c0 = Inr c \<longleftrightarrow>
    (\<exists>n6. number_of E id ''ZGS_GW_MAX_SIZE'' (cMaxSize c0) n6
    \<and> (\<exists>n7. number_of E id ''ZGS_GW_CACHE_MAX_BYTES'' (cCacheMaxBytes c0) n7
    \<and> (\<exists>n8. number_of E id ''ZGS_GW_BATCH_MAX'' (cBatchMax c0) n8
    \<and> (\<exists>n9. number_of E id ''ZGS_GW_MAX_RETRIES'' (cMaxRetries c0) n9
    \<and> (\<exists>n10. number_of E id ''ZGS_GW_FLUSH_INTERVAL_MS'' (cFlushIntervalMS c0) n10
    \<and> (\<exists>n11. number_of E to_uint ''ZGS_EXPECTED_REPLICA'' (cExpectedReplica c0) n11
    \<and> c5\<lparr>cMaxSize := n6, cCacheMaxBytes := n7, cBatchMax := n8, cMaxRetries := n9,
        cFlushIntervalMS := n10, cExpectedReplica := n11\<rparr> = c))))))"
    by (simp add: applyEnvOverrides_def Let_def envInt_bind c5_def if_distrib cong: if_cong)
  then show ?thesis by (cases c0; cases c) (auto simp: c5_def)
qed

lemma loadConfig_iff:
  "loadConfig E path = Inr c \<longleftrightarrow>
     (\<exists>c0. read_config E path = Inr c0 \<and> applyEnvOverrides E c0 = Inr c) \<and> validate c = None"
  by (auto simp: loadConfig_def split: sum.splits option.splits)

text \<open>
  C39: The configuration is resolved with the environment over the file over the defaults, and
  validated. \<open>loadConfig\<close> succeeds exactly when the file can be used (or is the missing default
  file), every number that the environment sets can be parsed, and nodes, RPC and key are there,
  the flush interval is positive and the cache limit not negative; then each setting is that of
  its variable where it is set and not empty, and that of the file or the default otherwise.
\<close>

theorem config_resolution:
  "loadConfig E path = Inr c \<longleftrightarrow>
   (\<exists>c0. (case ReadFile E (if path = [] then ''config.yaml'' else path) of
            Inr data \<Rightarrow> yaml_Unmarshal E data defaultConfig = Inr c0
          | Inl e \<Rightarrow> path = [] \<and> e = ErrNotExist \<and> c0 = defaultConfig)
     \<and> cListen c = envStr E ''ZGS_GW_LISTEN'' (cListen c0)
     \<and> cDataDir c = envStr E ''ZGS_GW_DATA_DIR'' (cDataDir c0)
     \<and> cEthRPC c = envStr E ''ZGS_ETH_RPC'' (cEthRPC c0)
     \<and> cPrivateKey c = envStr E ''ZGS_PRIVATE_KEY'' (cPrivateKey c0)
     \<and> cNodes c = (if Getenv E ''ZGS_NODES'' = [] then cNodes c0 else splitCSV (Getenv E ''ZGS_NODES''))
     \<and> number_of E id ''ZGS_GW_MAX_SIZE'' (cMaxSize c0) (cMaxSize c)
     \<and> number_of E id ''ZGS_GW_CACHE_MAX_BYTES'' (cCacheMaxBytes c0) (cCacheMaxBytes c)
     \<and> number_of E id ''ZGS_GW_BATCH_MAX'' (cBatchMax c0) (cBatchMax c)
     \<and> number_of E id ''ZGS_GW_MAX_RETRIES'' (cMaxRetries c0) (cMaxRetries c)
     \<and> number_of E id ''ZGS_GW_FLUSH_INTERVAL_MS'' (cFlushIntervalMS c0) (cFlushIntervalMS c)
     \<and> number_of E to_uint ''ZGS_EXPECTED_REPLICA'' (cExpectedReplica c0) (cExpectedReplica c))
   \<and> cNodes c \<noteq> [] \<and> cEthRPC c \<noteq> [] \<and> cPrivateKey c \<noteq> [] \<and> 0 < cFlushIntervalMS c \<and> 0 \<le> cCacheMaxBytes c"
proof -
  have rd: "read_config E path = Inr c0 \<longleftrightarrow>
      (case ReadFile E (if path = [] then ''config.yaml'' else path) of
            Inr data \<Rightarrow> yaml_Unmarshal E data defaultConfig = Inr c0
          | Inl e \<Rightarrow> path = [] \<and> e = ErrNotExist \<and> c0 = defaultConfig)" for c0
    by (auto simp: read_config_def Let_def split: sum.splits)
  show ?thesis unfolding loadConfig_iff rd overrides_iff validate_iff by blast
qed

section \<open>What the validation lets through\<close>

text \<open>
  A negative replica count wraps to an unsigned number near 2 ^ 64, which is not 0, so that the
  default, the number of nodes, does not replace it.
\<close>

lemma negative_replica_wraps:
  assumes "ParseInt (Getenv E ''ZGS_EXPECTED_REPLICA'') = (- 1, False)" and "loadConfig E path = Inr c"
  shows "unat (replica_count c) = 2 ^ 64 - 1"
proof -
  have "ParseInt [] = (0, True)" by code_simp
  then have v: "Getenv E ''ZGS_EXPECTED_REPLICA'' \<noteq> []" using assms(1) by auto
  obtain c0 where "applyEnvOverrides E c0 = Inr c"
    using assms(2) unfolding loadConfig_iff by blast
  then have "number_of E to_uint ''ZGS_EXPECTED_REPLICA'' (cExpectedReplica c0) (cExpectedReplica c)"
    unfolding overrides_iff by blast
  then have "cExpectedReplica c = - 1"
    unfolding number_of_def if_not_P [OF v] assms(1) by (simp add: to_uint_def)
  then have "replica_count c = - 1" by (simp add: replica_count_def)
  moreover have "unat (- 1 :: 64 word) = 2 ^ 64 - 1"
    by (simp add: unsigned_minus_1_eq_mask mask_eq_exp_minus_1)
  ultimately show ?thesis by simp
qed

text \<open>
  An interval of 9223372036855 ms or more is accepted, and overflows the nanoseconds of
  \<open>time.Duration\<close> to a negative number, on which \<open>time.NewTicker\<close> panics.
\<close>

lemma flush_interval_overflows:
  assumes "validate c = None"
  shows "validate (c\<lparr>cFlushIntervalMS := 9223372036855\<rparr>) = None
    \<and> flush_interval (c\<lparr>cFlushIntervalMS := 9223372036855\<rparr>) < 0"
  using assms by (simp add: validate_iff flush_interval_def int64_def)

text \<open>Below that the interval that the worker gets is the configured one.\<close>

lemma flush_interval_exact:
  "validate c = None \<Longrightarrow> cFlushIntervalMS c < 9223372036855 \<Longrightarrow>
   flush_interval c = cFlushIntervalMS c * 1000000 \<and> 0 < flush_interval c"
  by (simp add: validate_iff flush_interval_def int64_id)

end
