(* ===== verification/Threads.thy ===== *)
theory Threads
  imports Object
begin

text \<open>
  \<open>internal/object/service.go\<close> under concurrency. Each HTTP request runs in a goroutine of its
  own, and \<open>Put\<close>, \<open>Open\<close> and \<open>ShouldRejectWrite\<close> take no lock. Here a request is a thread
  with a program point between any two accesses to what the goroutines share: the database
  (one transaction is one access), the cache directory, the counter \<open>cacheBytes\<close> and the flag
  \<open>evicting\<close>. What a thread does to its own spool file alone is merged with the access that
  comes before or after it.
\<close>

section \<open>The pieces between two shared accesses\<close>

text \<open>\<open>Put\<close> up to the dedup lookup: the body is in the spool file.\<close>

definition put_spool ::
  "('b, 'v, 'd, 'z) svc_host_scheme \<Rightarrow> svc_config \<Rightarrow> ('b, 'd) svc \<Rightarrow> reader
     \<Rightarrow> ('b, 'd) svc \<times> (string \<times> string) result" where
  "put_spool H G s r =
     (case os_call H s of
        (s1, Some e) \<Rightarrow> (s1, Inl e)
      | (s1, None) \<Rightarrow>
          (let tmp = temp_name H (map fst (tmps s1)) (tick s);
               s2 = s1\<lparr>tmps := dir_put (tmps s1) tmp (RegFile [])\<rparr>;
               src = (if 0 < MaxSize G then limit_reader r (int64 (MaxSize G + 1)) else r)
           in (case io_copy H s2 tmp src of
                 (s3, Inl e) \<Rightarrow> (remove_tmp H s3 tmp, Inl e)
               | (s3, Inr data) \<Rightarrow>
                   let n = int (length data) in
                   if n = 0 then (remove_tmp H s3 tmp, Inl ErrEmpty)
                   else if 0 < MaxSize G \<and> MaxSize G < n then (remove_tmp H s3 tmp, Inl ErrTooLarge)
                   else (s3, Inr (tmp, data)))))"

text \<open>The fresh branch up to the rename into the cache: the root of the object.\<close>

definition put_file ::
  "('b, 'v, 'd, 'z) svc_host_scheme \<Rightarrow> ('b, 'd) svc \<Rightarrow> string \<Rightarrow> string \<Rightarrow> ('b, 'd) svc \<times> string result" where
  "put_file H s tmp data =
     (case os_call H s of
        (s1, Some e) \<Rightarrow> (remove_tmp H s1 tmp, Inl e)
      | (s1, None) \<Rightarrow>
          (case os_call H s1 of
             (s2, Some e) \<Rightarrow> (remove_tmp H s2 tmp, Inl e)
           | (s2, None) \<Rightarrow>
               (case merkle_root H data of
                  Inl e \<Rightarrow> (remove_tmp H s2 tmp, Inl (Wrapped ''merkle root'' e))
                | Inr root \<Rightarrow>
                    (case rename_into_cache H s2 tmp root of
                       (s3, Some e) \<Rightarrow> (remove_tmp H s3 tmp, Inl e)
                     | (s3, None) \<Rightarrow> (s3, Inr root)))))"

definition new_meta ::
  "('b, 'v, 'd, 'z) svc_host_scheme \<Rightarrow> string \<Rightarrow> string \<Rightarrow> string \<Rightarrow> string \<Rightarrow> object_meta" where
  "new_meta H root data filename contentType =
     zero_meta\<lparr>Root := root, SHA256 := sha256_hex H data, MD5 := md5_hex H data,
       Size := int (length data), Filename := filename, ContentType := contentType,
       Status := StatusPending\<rparr>"

text \<open>The cold read up to the rename into the cache.\<close>

definition restore_file ::
  "('b, 'v, 'd, 'z) svc_host_scheme \<Rightarrow> ('b, 'd) svc \<Rightarrow> string \<Rightarrow> ('b, 'd) svc \<times> unit result" where
  "restore_file H s root =
     (let short = trim_prefix root ''0x'' in
      if length short < 16 then (s, Inl ErrPanic)
      else
        (let tmp = ''dl-'' @ take 16 short @ ''-'' @ itoa (rand63 H (tick s)) in
         (case download H (sv_dl s) root of (d', left_file, derr) \<Rightarrow>
            (let s1 = s\<lparr>sv_dl := d', tick := Suc (tick s)\<rparr>;
                 s2 = (case left_file of
                         None \<Rightarrow> s1
                       | Some b \<Rightarrow> s1\<lparr>tmps := dir_put (tmps s1) tmp (RegFile b)\<rparr>)
             in (case derr of
                   Some e \<Rightarrow> (remove_tmp H s2 tmp, Inl (Wrapped ''restore from 0g'' e))
                 | None \<Rightarrow>
                     (case rename_into_cache H s2 tmp root of
                        (s3, Some e) \<Rightarrow> (remove_tmp H s3 tmp, Inl e)
                      | (s3, None) \<Rightarrow> (s3, Inr ())))))))"

section \<open>Program points\<close>

text \<open>
  Inside \<open>evictIfNeeded\<close>: before the comparison with the limit, before the compare-and-swap,
  before the listing, at the head of the loop with the candidates left, before \<open>Stat\<close> of one,
  before \<open>Remove\<close> of one with what \<open>Stat\<close> saw, before the subtraction of its size, and before
  the flag is reset.
\<close>

datatype evict_pc =
    EvLimit
  | EvSwap
  | EvList
  | EvLoop "cache_entry list"
  | EvStat cache_entry "cache_entry list"
  | EvRemove string fnode "cache_entry list"
  | EvAccount int "cache_entry list"
  | EvDone

text \<open>
  Inside the requests. \<open>Account n k\<close> is a call of \<open>noteAdded\<close> with \<open>n\<close> bytes, and \<open>Evict e k\<close> a
  point inside \<open>evictIfNeeded\<close>, that return to \<open>k\<close>. The three points \<open>PutDone\<close>, \<open>OpenDone\<close> and
  \<open>AdmitDone\<close> carry the result of a finished request.
\<close>

datatype pc =
    PutSpool reader string string
  | PutLookup string string string string
  | PutStat string object_meta
  | PutSalvage string object_meta
  | PutRequeue object_meta
  | PutRetry string object_meta
  | PutRetried string
  | PutFile string string string string
  | PutCreate string string string string
  | PutRead string bool
  | PutDone "(object_meta \<times> bool) result"
  | OpenLookup string
  | OpenLocal string object_meta
  | OpenTouch string object_meta fnode
  | OpenRestore string object_meta
  | OpenFile string object_meta
  | OpenMark string object_meta fnode
  | OpenDone "(fnode \<times> object_meta) result"
  | AdmitStart
  | AdmitLoad
  | AdmitDone bool
  | Account int pc
  | Evict evict_pc pc

fun finished :: "pc \<Rightarrow> bool" where
  "finished (PutDone x) = True"
| "finished (OpenDone x) = True"
| "finished (AdmitDone b) = True"
| "finished p = False"

section \<open>Steps\<close>

text \<open>\<open>evictIfNeeded\<close>; the low-water mark is a local value of the caller.\<close>

fun evict_step ::
  "('b, 'v, 'd, 'z) svc_host_scheme \<Rightarrow> svc_config \<Rightarrow> ('b, 'd) svc \<Rightarrow> evict_pc \<Rightarrow> pc \<Rightarrow> ('b, 'd) svc \<times> pc" where
  "evict_step H G s EvLimit k =
     (if CacheMaxBytes G \<le> 0 \<or> cacheBytes s \<le> CacheMaxBytes G then (s, k) else (s, Evict EvSwap k))"
| "evict_step H G s EvSwap k =
     (if evicting s then (s, k) else (s\<lparr>evicting := True\<rparr>, Evict EvList k))"
| "evict_step H G s EvList k =
     (case FinalizedCacheEntries H (sv_store s) of
        Inl e \<Rightarrow> (s, Evict EvDone k)
      | Inr cands \<Rightarrow> (s, Evict (EvLoop (sort_lru H cands)) k))"
| "evict_step H G s (EvLoop []) k = (s, Evict EvDone k)"
| "evict_step H G s (EvLoop (c # cands)) k =
     (if cacheBytes s \<le> CacheMaxBytes G - CacheMaxBytes G div 10 then (s, Evict EvDone k)
      else (s, Evict (EvStat c cands) k))"
| "evict_step H G s (EvStat c cands) k =
     (case os_call H s of
        (s1, Some e) \<Rightarrow> (s1, Evict (EvLoop cands) k)
      | (s1, None) \<Rightarrow>
          (case map_of (objs s1) (CERoot c) of
             None \<Rightarrow> (s1, Evict (EvLoop cands) k)
           | Some x \<Rightarrow> (s1, Evict (EvRemove (CERoot c) x cands) k)))"
| "evict_step H G s (EvRemove root x cands) k =
     (case os_call H s of
        (s1, Some e) \<Rightarrow> (s1, Evict (EvLoop cands) k)
      | (s1, None) \<Rightarrow>
          (case map_of (objs s1) root of
             Some (RegFile b) \<Rightarrow>
               (s1\<lparr>objs := dir_del (objs s1) root\<rparr>, Evict (EvAccount (node_size x) cands) k)
           | _ \<Rightarrow> (s1, Evict (EvLoop cands) k)))"
| "evict_step H G s (EvAccount n cands) k =
     (s\<lparr>cacheBytes := int64 (cacheBytes s - n)\<rparr>, Evict (EvLoop cands) k)"
| "evict_step H G s EvDone k = (s\<lparr>evicting := False\<rparr>, k)"

fun thread_step ::
  "('b, 'v, 'd, 'z) svc_host_scheme \<Rightarrow> svc_config \<Rightarrow> ('b, 'd) svc \<Rightarrow> pc \<Rightarrow> ('b, 'd) svc \<times> pc" where
  "thread_step H G s (PutSpool r fn ct) =
     (case put_spool H G s r of
        (s1, Inl e) \<Rightarrow> (s1, PutDone (Inl e))
      | (s1, Inr (tmp, data)) \<Rightarrow> (s1, PutLookup tmp data fn ct))"
| "thread_step H G s (PutLookup tmp data fn ct) =
     (case BySHA256 H (sv_store s) (sha256_hex H data) of
        Inl e \<Rightarrow> (remove_tmp H s tmp, PutDone (Inl e))
      | Inr (Some m) \<Rightarrow> (s, PutStat tmp m)
      | Inr None \<Rightarrow> (s, PutFile tmp data fn ct))"
| "thread_step H G s (PutStat tmp m) =
     (case (if Status m \<noteq> StatusFinalized
            then (case fileExists H s (Root m) of (s1, there) \<Rightarrow> (s1, \<not> there))
            else (s, False)) of
        (s1, needsCache) \<Rightarrow>
          if needsCache then (s1, PutSalvage tmp m)
          else if Status m = StatusFailed then (s1, PutRetry tmp m)
          else (remove_tmp H s1 tmp, PutDone (Inr (m, True))))"
| "thread_step H G s (PutSalvage tmp m) =
     (case materialize H s tmp (Root m) of
        (s1, Some e) \<Rightarrow> (s1, PutDone (Inl e))
      | (s1, None) \<Rightarrow> (s1, Account (Size m) (PutRequeue m)))"
| "thread_step H G s (PutRequeue m) =
     (case with_store s (Reenqueue H (sv_store s) (Root m)) of
        (s1, Inl e) \<Rightarrow> (s1, PutDone (Inl e))
      | (s1, Inr _) \<Rightarrow> (s1, PutRead (Root m) True))"
| "thread_step H G s (PutRetry tmp m) =
     (let s1 = remove_tmp H s tmp in
      (case with_store s1 (Reenqueue H (sv_store s1) (Root m)) of
         (s2, Inl e) \<Rightarrow> (s2, PutDone (Inl e))
       | (s2, Inr _) \<Rightarrow> (s2, PutRetried (Root m))))"
| "thread_step H G s (PutRetried root) =
     (s, PutDone (Inr (case get_record H s root of Inl e \<Rightarrow> zero_meta | Inr m \<Rightarrow> m, True)))"
| "thread_step H G s (PutFile tmp data fn ct) =
     (case put_file H s tmp data of
        (s1, Inl e) \<Rightarrow> (s1, PutDone (Inl e))
      | (s1, Inr root) \<Rightarrow> (s1, Account (int (length data)) (PutCreate root data fn ct)))"
| "thread_step H G s (PutCreate root data fn ct) =
     (case with_store s (CreateObject H (sv_store s) (new_meta H root data fn ct)) of
        (s1, Inl e) \<Rightarrow> if errors_is e ErrExists then (s1, PutRead root True) else (s1, PutDone (Inl e))
      | (s1, Inr _) \<Rightarrow> (s1, PutRead root False))"
| "thread_step H G s (PutRead root dup) =
     (s, PutDone (map_sum id (\<lambda>m. (m, dup)) (get_record H s root)))"
| "thread_step H G s (OpenLookup root) =
     (case Get H (sv_store s) root of
        Inl e \<Rightarrow> (s, OpenDone (Inl e))
      | Inr None \<Rightarrow> (s, OpenDone (Inl ErrNotFound))
      | Inr (Some m) \<Rightarrow> (s, OpenLocal root m))"
| "thread_step H G s (OpenLocal root m) =
     (case open_cached H s root m of
        (s1, Inl e) \<Rightarrow> (s1, OpenDone (Inl e))
      | (s1, Inr (Some x)) \<Rightarrow> (s1, OpenTouch root m x)
      | (s1, Inr None) \<Rightarrow> (s1, OpenRestore root m))"
| "thread_step H G s (OpenTouch root m x) =
     (touch_svc H G s root (LastAccess m), OpenDone (Inr (x, m)))"
| "thread_step H G s (OpenRestore root m) =
     (case restore_file H s root of
        (s1, Inl e) \<Rightarrow> (s1, OpenDone (Inl e))
      | (s1, Inr _) \<Rightarrow> (s1, OpenFile root m))"
| "thread_step H G s (OpenFile root m) =
     (case os_call H s of
        (s1, Some e) \<Rightarrow> (s1, OpenDone (Inl e))
      | (s1, None) \<Rightarrow>
          (case map_of (objs s1) root of
             None \<Rightarrow> (s1, OpenDone (Inl ErrNotExist))
           | Some x \<Rightarrow> (s1, OpenMark root m x)))"
| "thread_step H G s (OpenMark root m x) =
     ((if 0 < CacheMaxBytes G then touch_now H s root else s), Account (Size m) (OpenDone (Inr (x, m))))"
| "thread_step H G s AdmitStart =
     (if CacheMaxBytes G \<le> 0 then (s, AdmitDone False) else (s, Evict EvLimit AdmitLoad))"
| "thread_step H G s AdmitLoad = (s, AdmitDone (CacheMaxBytes G < cacheBytes s))"
| "thread_step H G s (Account n k) =
     (if CacheMaxBytes G \<le> 0 then (s, k)
      else (s\<lparr>cacheBytes := int64 (cacheBytes s + n)\<rparr>, Evict EvLimit k))"
| "thread_step H G s (Evict e k) = evict_step H G s e k"
| "thread_step H G s p = (s, p)"

section \<open>A request alone\<close>

definition thread_rel ::
  "('b, 'v, 'd, 'z) svc_host_scheme \<Rightarrow> svc_config \<Rightarrow> ('b, 'd) svc \<times> pc \<Rightarrow> ('b, 'd) svc \<times> pc \<Rightarrow> bool" where
  "thread_rel H G x y \<longleftrightarrow> thread_step H G (fst x) (snd x) = y"

text \<open>The steps of one thread with no other step in between.\<close>

abbreviation alone ::
  "('b, 'v, 'd, 'z) svc_host_scheme \<Rightarrow> svc_config \<Rightarrow> ('b, 'd) svc \<times> pc \<Rightarrow> ('b, 'd) svc \<times> pc \<Rightarrow> bool" where
  "alone H G \<equiv> (thread_rel H G)\<^sup>*\<^sup>*"

lemma alone_step: "alone H G (thread_step H G s p) y \<Longrightarrow> alone H G (s, p) y"
  by (rule converse_rtranclp_into_rtranclp [of _ _ "thread_step H G s p"]) (simp_all add: thread_rel_def)

lemma alone_trans: "alone H G x y \<Longrightarrow> alone H G y z \<Longrightarrow> alone H G x z"
  by (rule rtranclp_trans)

lemma finished_step [simp]: "finished p \<Longrightarrow> thread_step H G s p = (s, p)"
  by (cases p) simp_all

end
