(* ===== verification/Threads_Seq.thy ===== *)
theory Threads_Seq
  imports Threads
begin

text \<open>
  A thread that runs alone does what the sequential model of \<open>Object\<close> does, and every request
  ends after finitely many steps of its own, whatever the other threads do in between.
\<close>

section \<open>Agreement\<close>

lemma evict_loop_alone:
  assumes "low = CacheMaxBytes G - CacheMaxBytes G div 10"
  shows "alone H G (s, Evict (EvLoop cs) k) (evict_loop H low s cs, Evict EvDone k)"
proof (induction cs arbitrary: s)
  case Nil
  show ?case by (rule alone_step) simp
next
  case (Cons c cs)
  let ?s1 = "s\<lparr>tick := Suc (tick s)\<rparr>" and ?s2 = "s\<lparr>tick := Suc (Suc (tick s))\<rparr>"
  have head: "thread_step H G s (Evict (EvLoop (c # cs)) k) = (s, Evict (EvStat c cs) k)"
    if "\<not> cacheBytes s \<le> low" using that assms by simp
  consider (low) "cacheBytes s \<le> low"
    | (stat) e where "\<not> cacheBytes s \<le> low" "os_fault H (tick s) = Some e"
    | (gone) "\<not> cacheBytes s \<le> low" "os_fault H (tick s) = None" "map_of (objs s) (CERoot c) = None"
    | (remove) x e where "\<not> cacheBytes s \<le> low" "os_fault H (tick s) = None"
        "map_of (objs s) (CERoot c) = Some x" "os_fault H (Suc (tick s)) = Some e"
    | (dir) n where "\<not> cacheBytes s \<le> low" "os_fault H (tick s) = None"
        "map_of (objs s) (CERoot c) = Some (SubDir n)" "os_fault H (Suc (tick s)) = None"
    | (regular) b where "\<not> cacheBytes s \<le> low" "os_fault H (tick s) = None"
        "map_of (objs s) (CERoot c) = Some (RegFile b)" "os_fault H (Suc (tick s)) = None"
    by (metis fnode.exhaust not_None_eq)
  then show ?case
  proof cases
    case low
    then show ?thesis by (intro alone_step) (simp add: assms)
  next
    case stat
    have "alone H G (s, Evict (EvStat c cs) k) (evict_loop H low ?s1 cs, Evict EvDone k)"
      by (rule alone_step) (simp add: stat os_call_def Cons.IH)
    then show ?thesis using stat by (intro alone_step) (simp add: head os_call_def del: thread_step.simps)
  next
    case gone
    have "alone H G (s, Evict (EvStat c cs) k) (evict_loop H low ?s1 cs, Evict EvDone k)"
      by (rule alone_step) (simp add: gone os_call_def Cons.IH)
    then show ?thesis using gone by (intro alone_step) (simp add: head os_call_def del: thread_step.simps)
  next
    case (remove x e)
    have "alone H G (?s1, Evict (EvRemove (CERoot c) x cs) k) (evict_loop H low ?s2 cs, Evict EvDone k)"
      by (rule alone_step) (simp add: remove os_call_def Cons.IH)
    then have "alone H G (s, Evict (EvStat c cs) k) (evict_loop H low ?s2 cs, Evict EvDone k)"
      by (intro alone_step) (simp add: remove os_call_def)
    then show ?thesis using remove by (intro alone_step) (simp add: head os_call_def del: thread_step.simps)
  next
    case (dir n)
    have "alone H G (?s1, Evict (EvRemove (CERoot c) (SubDir n) cs) k) (evict_loop H low ?s2 cs, Evict EvDone k)"
      by (rule alone_step) (simp add: dir os_call_def Cons.IH)
    then have "alone H G (s, Evict (EvStat c cs) k) (evict_loop H low ?s2 cs, Evict EvDone k)"
      by (intro alone_step) (simp add: dir os_call_def)
    then show ?thesis using dir by (intro alone_step) (simp add: head os_call_def del: thread_step.simps)
  next
    case (regular b)
    let ?s3 = "?s2\<lparr>objs := dir_del (objs s) (CERoot c)\<rparr>"
    let ?s4 = "?s3\<lparr>cacheBytes := int64 (cacheBytes s - int (length b))\<rparr>"
    have "alone H G (?s3, Evict (EvAccount (int (length b)) cs) k) (evict_loop H low ?s4 cs, Evict EvDone k)"
      by (rule alone_step) (simp add: Cons.IH)
    then have "alone H G (?s1, Evict (EvRemove (CERoot c) (RegFile b) cs) k) (evict_loop H low ?s4 cs, Evict EvDone k)"
      by (intro alone_step) (simp add: regular os_call_def)
    then have "alone H G (s, Evict (EvStat c cs) k) (evict_loop H low ?s4 cs, Evict EvDone k)"
      by (intro alone_step) (simp add: regular os_call_def)
    then show ?thesis using regular by (intro alone_step) (simp add: head os_call_def del: thread_step.simps)
  qed
qed

lemma evict_alone: "alone H G (s, Evict EvLimit k) (evictIfNeeded H G s, k)"
proof (cases "CacheMaxBytes G \<le> 0 \<or> cacheBytes s \<le> CacheMaxBytes G")
  case True
  then show ?thesis by (intro alone_step) (auto simp: evictIfNeeded_def Let_def)
next
  case over: False
  have swap: "thread_step H G s (Evict EvLimit k) = (s, Evict EvSwap k)" using over by simp
  show ?thesis
  proof (cases "evicting s")
    case True
    have "alone H G (s, Evict EvSwap k) (s, k)" by (rule alone_step) (simp add: True)
    then show ?thesis
      using over True by (intro alone_step) (simp add: swap evictIfNeeded_def Let_def del: thread_step.simps)
  next
    case idle: False
    let ?s1 = "s\<lparr>evicting := True\<rparr>" and ?low = "CacheMaxBytes G - CacheMaxBytes G div 10"
    obtain t where t: "alone H G (?s1, Evict EvList k) (t, Evict EvDone k)"
      "evictIfNeeded H G s = t\<lparr>evicting := False\<rparr>"
    proof (cases "FinalizedCacheEntries H (sv_store s)")
      case (Inl e)
      have "alone H G (?s1, Evict EvList k) (?s1, Evict EvDone k)" by (rule alone_step) (simp add: Inl)
      then show thesis using that over idle Inl by (simp add: evictIfNeeded_def Let_def)
    next
      case (Inr cands)
      have "alone H G (?s1, Evict EvList k) (evict_loop H ?low ?s1 (sort_lru H cands), Evict EvDone k)"
        by (rule alone_step) (simp add: Inr evict_loop_alone)
      then show thesis using that over idle Inr by (simp add: evictIfNeeded_def Let_def)
    qed
    have "alone H G (t, Evict EvDone k) (evictIfNeeded H G s, k)" by (rule alone_step) (simp add: t(2))
    then have "alone H G (?s1, Evict EvList k) (evictIfNeeded H G s, k)" by (rule alone_trans [OF t(1)])
    then have "alone H G (s, Evict EvSwap k) (evictIfNeeded H G s, k)"
      by (intro alone_step) (simp add: idle)
    then show ?thesis by (intro alone_step) (simp add: swap del: thread_step.simps)
  qed
qed

lemma account_alone: "alone H G (s, Account n k) (noteAdded H G s n, k)"
proof (cases "CacheMaxBytes G \<le> 0")
  case True
  then show ?thesis by (intro alone_step) (simp add: noteAdded_def)
next
  case False
  then show ?thesis
    using evict_alone [of H G "s\<lparr>cacheBytes := int64 (cacheBytes s + n)\<rparr>" k]
    by (intro alone_step) (simp add: noteAdded_def)
qed

lemma account_then: "alone H G (noteAdded H G s n, k) y \<Longrightarrow> alone H G (s, Account n k) y"
  by (rule alone_trans [OF account_alone])

text \<open>The sequential operations in terms of their pieces.\<close>

lemma Put_pieces:
  "Put H G s r fn ct =
     (case put_spool H G s r of
        (s1, Inl e) \<Rightarrow> (s1, Inl e)
      | (s1, Inr (tmp, data)) \<Rightarrow>
          (case BySHA256 H (sv_store s1) (sha256_hex H data) of
             Inl e \<Rightarrow> (remove_tmp H s1 tmp, Inl e)
           | Inr (Some m) \<Rightarrow> Put_known H G s1 tmp m
           | Inr None \<Rightarrow> Put_fresh H G s1 tmp data fn ct))"
  by (simp add: Put_def put_spool_def Let_def split: prod.splits option.splits sum.splits)

lemma Put_fresh_pieces:
  "Put_fresh H G s tmp data fn ct =
     (case put_file H s tmp data of
        (s1, Inl e) \<Rightarrow> (s1, Inl e)
      | (s1, Inr root) \<Rightarrow>
          (let s2 = noteAdded H G s1 (int (length data)) in
           (case with_store s2 (CreateObject H (sv_store s2) (new_meta H root data fn ct)) of
              (s3, Inl e) \<Rightarrow>
                if errors_is e ErrExists
                then (s3, map_sum id (\<lambda>m'. (m', True)) (get_record H s3 root)) else (s3, Inl e)
            | (s3, Inr _) \<Rightarrow> (s3, map_sum id (\<lambda>m'. (m', False)) (get_record H s3 root)))))"
  by (simp add: Put_fresh_def put_file_def new_meta_def Let_def split: prod.splits option.splits sum.splits)

lemma restore_pieces:
  "restore H G s root m =
     (case restore_file H s root of
        (s1, Inl e) \<Rightarrow> (s1, Inl e)
      | (s1, Inr _) \<Rightarrow>
          (case os_call H s1 of
             (s2, Some e) \<Rightarrow> (s2, Inl e)
           | (s2, None) \<Rightarrow>
               (case map_of (objs s2) root of
                  None \<Rightarrow> (s2, Inl ErrNotExist)
                | Some x \<Rightarrow>
                    (let s3 = (if 0 < CacheMaxBytes G then touch_now H s2 root else s2)
                     in (noteAdded H G s3 (Size m), Inr (x, m))))))"
  by (simp add: restore_def restore_file_def Let_def split: prod.splits option.splits sum.splits)

lemma put_read_alone:
  "alone H G (s, PutRead root dup) (s, PutDone (map_sum id (\<lambda>m. (m, dup)) (get_record H s root)))"
  by (rule alone_step) simp

lemma put_known_alone:
  assumes "Put_known H G s tmp m = (t, x)"
  shows "alone H G (s, PutStat tmp m) (t, PutDone x)"
proof -
  obtain s1 needs where n: "(if Status m \<noteq> StatusFinalized
      then (case fileExists H s (Root m) of (s1, there) \<Rightarrow> (s1, \<not> there)) else (s, False)) = (s1, needs)"
    by force
  consider (salvage) "needs" | (retry) "\<not> needs" "Status m = StatusFailed" | (hit) "\<not> needs" "Status m \<noteq> StatusFailed"
    by blast
  then show ?thesis
  proof cases
    case salvage
    obtain s2 e where mat: "materialize H s1 tmp (Root m) = (s2, e)" by force
    have first: "thread_step H G s (PutStat tmp m) = (s1, PutSalvage tmp m)"
      unfolding thread_step.simps n using salvage by simp
    have run: "(t, x) = (case e of Some e \<Rightarrow> (s2, Inl e)
             | None \<Rightarrow>
                 (let s3 = noteAdded H G s2 (Size m) in
                  (case with_store s3 (Reenqueue H (sv_store s3) (Root m)) of
                     (s4, Inl e) \<Rightarrow> (s4, Inl e)
                   | (s4, Inr _) \<Rightarrow> (s4, map_sum id (\<lambda>m'. (m', True)) (get_record H s4 (Root m))))))"
      using assms mat salvage unfolding Put_known_def n by (simp split: option.splits)
    have "alone H G (s1, PutSalvage tmp m) (t, PutDone x)"
    proof (cases e)
      case (Some er)
      then show ?thesis using run mat by (intro alone_step) simp
    next
      case None
      let ?s3 = "noteAdded H G s2 (Size m)"
      obtain s4 y where y: "with_store ?s3 (Reenqueue H (sv_store ?s3) (Root m)) = (s4, y)" by force
      have "alone H G (?s3, PutRequeue m) (t, PutDone x)"
      proof (cases y)
        case (Inl er)
        then show ?thesis using run None y by (intro alone_step) simp
      next
        case (Inr a)
        then show ?thesis using run None y put_read_alone [of H G s4 "Root m" True] by (intro alone_step) simp
      qed
      then have "alone H G (s2, Account (Size m) (PutRequeue m)) (t, PutDone x)" by (rule account_then)
      then show ?thesis using mat None by (intro alone_step) simp
    qed
    then show ?thesis by (intro alone_step) (simp only: first)
  next
    case retry
    have first: "thread_step H G s (PutStat tmp m) = (s1, PutRetry tmp m)"
      unfolding thread_step.simps n using retry by simp
    let ?s2 = "remove_tmp H s1 tmp"
    obtain s3 y where y: "with_store ?s2 (Reenqueue H (sv_store ?s2) (Root m)) = (s3, y)" by force
    have run: "(t, x) = (case y of Inl e \<Rightarrow> (s3, Inl e)
              | Inr _ \<Rightarrow> (s3, Inr (case get_record H s3 (Root m) of Inl e \<Rightarrow> zero_meta | Inr m' \<Rightarrow> m', True)))"
      using assms retry y unfolding Put_known_def n by (simp add: Let_def split: sum.splits)
    have "alone H G (s1, PutRetry tmp m) (t, PutDone x)"
    proof (cases y)
      case (Inl er)
      then show ?thesis using run y by (intro alone_step) (simp add: Let_def)
    next
      case (Inr a)
      have "alone H G (s3, PutRetried (Root m)) (t, PutDone x)"
        using run Inr by (intro alone_step) simp
      then show ?thesis using Inr y by (intro alone_step) (simp add: Let_def)
    qed
    then show ?thesis by (intro alone_step) (simp only: first)
  next
    case hit
    then have "thread_step H G s (PutStat tmp m) = (t, PutDone x)"
      using assms unfolding thread_step.simps Put_known_def n by simp
    then show ?thesis by (intro alone_step) (simp only: rtranclp.rtrancl_refl)
  qed
qed

lemma put_fresh_alone:
  assumes "Put_fresh H G s tmp data fn ct = (t, x)"
  shows "alone H G (s, PutFile tmp data fn ct) (t, PutDone x)"
proof -
  obtain s1 y where y: "put_file H s tmp data = (s1, y)" by force
  show ?thesis
  proof (cases y)
    case (Inl e)
    then show ?thesis using assms y by (intro alone_step) (simp add: Put_fresh_pieces)
  next
    case (Inr root)
    let ?s2 = "noteAdded H G s1 (int (length data))"
    obtain s3 z where z: "with_store ?s2 (CreateObject H (sv_store ?s2) (new_meta H root data fn ct)) = (s3, z)"
      by force
    have run: "(t, x) = (case z of Inl e \<Rightarrow>
                if errors_is e ErrExists
                then (s3, map_sum id (\<lambda>m'. (m', True)) (get_record H s3 root)) else (s3, Inl e)
            | Inr _ \<Rightarrow> (s3, map_sum id (\<lambda>m'. (m', False)) (get_record H s3 root)))"
      using assms y z Inr unfolding Put_fresh_pieces by (simp add: Let_def split: sum.splits)
    have "alone H G (?s2, PutCreate root data fn ct) (t, PutDone x)"
    proof (cases z)
      case (Inl e)
      then show ?thesis
        using run z put_read_alone [of H G s3 root True]
        by (intro alone_step) (simp split: if_splits)
    next
      case (Inr a)
      then show ?thesis using run z put_read_alone [of H G s3 root False] by (intro alone_step) simp
    qed
    then have "alone H G (s1, Account (int (length data)) (PutCreate root data fn ct)) (t, PutDone x)"
      by (rule account_then)
    then show ?thesis using y Inr by (intro alone_step) simp
  qed
qed

lemma put_alone:
  assumes "Put H G s r fn ct = (t, x)"
  shows "alone H G (s, PutSpool r fn ct) (t, PutDone x)"
proof -
  obtain s1 y where y: "put_spool H G s r = (s1, y)" by force
  show ?thesis
  proof (cases y)
    case (Inl e)
    then show ?thesis using assms y by (intro alone_step) (simp add: Put_pieces)
  next
    case (Inr td)
    obtain tmp data where td: "td = (tmp, data)" by force
    have "alone H G (s1, PutLookup tmp data fn ct) (t, PutDone x)"
    proof (cases "BySHA256 H (sv_store s1) (sha256_hex H data)")
      case (Inl e)
      then show ?thesis using assms y Inr td by (intro alone_step) (simp add: Put_pieces)
    next
      case look: (Inr mo)
      show ?thesis
      proof (cases mo)
        case None
        then have "Put_fresh H G s1 tmp data fn ct = (t, x)"
          using assms y Inr td look by (simp add: Put_pieces)
        then show ?thesis using look None put_fresh_alone by (intro alone_step) simp
      next
        case (Some m)
        then have "Put_known H G s1 tmp m = (t, x)"
          using assms y Inr td look by (simp add: Put_pieces)
        then have "alone H G (s1, PutStat tmp m) (t, PutDone x)" by (rule put_known_alone)
        then show ?thesis using look Some by (intro alone_step) simp
      qed
    qed
    then show ?thesis using y Inr td by (intro alone_step) simp
  qed
qed

lemma open_alone:
  assumes "Open H G s root = (t, x)"
  shows "alone H G (s, OpenLookup root) (t, OpenDone x)"
proof (cases "Get H (sv_store s) root")
  case (Inl e)
  then show ?thesis using assms by (intro alone_step) (simp add: Open_def)
next
  case got: (Inr mo)
  show ?thesis
  proof (cases mo)
    case None
    then show ?thesis using assms got by (intro alone_step) (simp add: Open_def)
  next
    case (Some m)
    obtain s1 y where y: "open_cached H s root m = (s1, y)" by force
    have run: "(t, x) = (case y of Inl e \<Rightarrow> (s1, Inl e)
        | Inr (Some x) \<Rightarrow> (touch_svc H G s1 root (LastAccess m), Inr (x, m))
        | Inr None \<Rightarrow> restore H G s1 root m)"
      using assms got Some y by (simp add: Open_def split: sum.splits option.splits)
    have "alone H G (s, OpenLocal root m) (t, OpenDone x)"
    proof (cases y)
      case (Inl e)
      then show ?thesis using run y by (intro alone_step) simp
    next
      case local: (Inr xo)
      show ?thesis
      proof (cases xo)
        case (Some z)
        have "alone H G (s1, OpenTouch root m z) (t, OpenDone x)"
          using run local Some by (intro alone_step) simp
        then show ?thesis using y local Some by (intro alone_step) simp
      next
        case None
        obtain s2 z where z: "restore_file H s1 root = (s2, z)" by force
        have "alone H G (s1, OpenRestore root m) (t, OpenDone x)"
        proof (cases z)
          case (Inl e)
          then show ?thesis using run local None z by (intro alone_step) (simp add: restore_pieces)
        next
          case (Inr u)
          let ?s3 = "s2\<lparr>tick := Suc (tick s2)\<rparr>"
          have "alone H G (s2, OpenFile root m) (t, OpenDone x)"
          proof (cases "os_fault H (tick s2)")
            case (Some e)
            then show ?thesis
              using run local None z Inr by (intro alone_step) (simp add: restore_pieces os_call_def)
          next
            case ok: None
            show ?thesis
            proof (cases "map_of (objs s2) root")
              case None
              then show ?thesis
                using run local \<open>xo = None\<close> z Inr ok by (intro alone_step) (simp add: restore_pieces os_call_def)
            next
              case (Some f)
              let ?s4 = "if 0 < CacheMaxBytes G then touch_now H ?s3 root else ?s3"
              have "(t, x) = (noteAdded H G ?s4 (Size m), Inr (f, m))"
                using run local \<open>xo = None\<close> z Inr ok Some by (simp add: restore_pieces os_call_def Let_def)
              then have "alone H G (?s4, Account (Size m) (OpenDone (Inr (f, m)))) (t, OpenDone x)"
                by (intro account_then) simp
              then have "alone H G (?s3, OpenMark root m f) (t, OpenDone x)" by (intro alone_step) simp
              then show ?thesis using ok Some by (intro alone_step) (simp add: os_call_def)
            qed
          qed
          then show ?thesis using z Inr by (intro alone_step) simp
        qed
        then show ?thesis using y local None by (intro alone_step) simp
      qed
    qed
    then show ?thesis using got Some by (intro alone_step) simp
  qed
qed

lemma admit_alone:
  assumes "ShouldRejectWrite H G s = (t, b)"
  shows "alone H G (s, AdmitStart) (t, AdmitDone b)"
proof (cases "CacheMaxBytes G \<le> 0")
  case True
  then show ?thesis using assms by (intro alone_step) (simp add: ShouldRejectWrite_def)
next
  case False
  have "alone H G (evictIfNeeded H G s, AdmitLoad) (t, AdmitDone b)"
    using assms False by (intro alone_step) (auto simp: ShouldRejectWrite_def Let_def)
  then have "alone H G (s, Evict EvLimit AdmitLoad) (t, AdmitDone b)" by (rule alone_trans [OF evict_alone])
  then show ?thesis using False by (intro alone_step) simp
qed

section \<open>Termination\<close>

fun evict_rank :: "evict_pc \<Rightarrow> nat \<times> nat" where
  "evict_rank EvLimit = (2, 2)"
| "evict_rank EvSwap = (2, 1)"
| "evict_rank EvList = (2, 0)"
| "evict_rank (EvLoop cs) = (1, 4 * length cs + 1)"
| "evict_rank (EvStat c cs) = (1, 4 * length cs + 4)"
| "evict_rank (EvRemove r x cs) = (1, 4 * length cs + 3)"
| "evict_rank (EvAccount n cs) = (1, 4 * length cs + 2)"
| "evict_rank EvDone = (1, 0)"

fun rank :: "pc \<Rightarrow> nat \<times> nat" where
  "rank (PutSpool r fn ct) = (9, 0)"
| "rank (PutLookup tmp data fn ct) = (8, 0)"
| "rank (PutStat tmp m) = (7, 0)"
| "rank (PutSalvage tmp m) = (6, 0)"
| "rank (PutFile tmp data fn ct) = (6, 0)"
| "rank (PutRequeue m) = (2, 0)"
| "rank (PutRetry tmp m) = (2, 0)"
| "rank (PutCreate root data fn ct) = (2, 0)"
| "rank (PutRetried root) = (1, 0)"
| "rank (PutRead root dup) = (1, 0)"
| "rank (OpenLookup root) = (8, 0)"
| "rank (OpenLocal root m) = (7, 0)"
| "rank (OpenRestore root m) = (6, 0)"
| "rank (OpenFile root m) = (5, 0)"
| "rank (OpenMark root m x) = (4, 0)"
| "rank (OpenTouch root m x) = (1, 0)"
| "rank AdmitStart = (4, 0)"
| "rank AdmitLoad = (1, 0)"
| "rank (Account n k) = (fst (rank k) + 3, 0)"
| "rank (Evict e k) = (fst (rank k) + fst (evict_rank e), snd (evict_rank e))"
| "rank p = (0, 0)"

definition rank_less :: "((nat \<times> nat) \<times> (nat \<times> nat)) set" where
  "rank_less = less_than <*lex*> less_than"

lemma rank_less_wf: "wf rank_less"
  unfolding rank_less_def by (intro wf_lex_prod wf_less_than)

lemma evict_step_rank: "(rank (snd (evict_step H G s e k)), rank (Evict e k)) \<in> rank_less"
  by (cases "rank k"; induction H G s e k rule: evict_step.induct)
    (auto simp: rank_less_def os_call_def split: option.splits sum.splits fnode.splits prod.splits)

lemma thread_step_rank:
  assumes "\<not> finished p"
  shows "(rank (snd (thread_step H G s p)), rank p) \<in> rank_less"
proof (cases p)
  case (Evict e k)
  then show ?thesis using evict_step_rank [of H G s e k] by simp
next
  case (PutStat tmp m)
  then show ?thesis by (auto simp: rank_less_def Let_def split: prod.splits)
next
  case (Account n k)
  then show ?thesis by (cases "rank k") (auto simp: rank_less_def)
qed (use assms in \<open>auto simp: rank_less_def Let_def split: prod.splits sum.splits option.splits\<close>)

end
