(* ===== verification/Concurrent.thy ===== *)
theory Concurrent
  imports Threads_Seq Gateway
begin

text \<open>
  The gateway with any number of requests in flight. A configuration is the log of the chain's
  answers, the service and the program points of the requests; a step is one access of one
  request, a new request, an answer of the chain, one write of the worker, an operation of the
  bucket index, or a crash at any moment followed by a restart.
\<close>

section \<open>The interleaving semantics\<close>

fun request_pc :: "pc \<Rightarrow> bool" where
  "request_pc (PutSpool r fn ct) = True"
| "request_pc (OpenLookup root) = True"
| "request_pc AdmitStart = True"
| "request_pc p = False"

type_synonym ('b, 'd) conf = "chain_call list \<times> ('b, 'd) svc \<times> pc list"

text \<open>What a crash leaves of the database is its file, and opening it again finds every bucket.\<close>

definition db_file_of :: "'b store \<Rightarrow> 'b db_file" where
  "db_file_of s =
     \<lparr>f_objects = Some (objects s), f_sha = Some (sha_index s), f_upload = Some (q_upload s),
      f_finalize = Some (q_finalize s), f_buckets = Some (s3_buckets s), f_keys = Some (s3_keys s)\<rparr>"

lemma Open_store_again:
  "Open_store H e (db_file_of s) = Inr u \<Longrightarrow> u = s\<lparr>txn := 1, closed := False\<rparr>"
  by (cases s) (auto simp: Open_store_def db_file_of_def create_if_not_exists_def split: option.splits)

text \<open>
  The chain may answer anything at any time. The worker's writes are the operations that its
  passes are made of (\<open>Uploader_Facts\<close>): a status it sets is one that some answer justifies.
  A crash ends every request; the database is opened again with any number for its next
  transaction, so that the clock and the failing commits of the next run are not those of the
  last, and the service is constructed on what is there.
\<close>

inductive con_step ::
  "('b, 'v, 'd, 'z) svc_host_scheme \<Rightarrow> svc_config \<Rightarrow> ('b, 'd) conf \<Rightarrow> ('b, 'd) conf \<Rightarrow> bool"
  for H :: "('b, 'v, 'd, 'z) svc_host_scheme" and G :: svc_config
where
  con_thread: "i < length ps \<Longrightarrow> thread_step H G s (ps ! i) = (t, q) \<Longrightarrow>
    con_step H G (l, s, ps) (l, t, ps[i := q])"
| con_request: "request_pc p \<Longrightarrow> con_step H G (l, s, ps) (l, s, ps @ [p])"
| con_chain: "con_step H G (l, s, ps) (l @ new, s, ps)"
| con_worker: "worker_op UNIV l p \<Longrightarrow> store_exec H (sv_store s) p = Some (t, x) \<Longrightarrow>
    con_step H G (l, s, ps) (l, s\<lparr>sv_store := t\<rparr>, ps)"
| con_index: "store_exec H (sv_store s) p = Some (t, x) \<Longrightarrow> op_ok H (sv_store s) p \<Longrightarrow> index_op p \<Longrightarrow>
    con_step H G (l, s, ps) (l, s\<lparr>sv_store := t\<rparr>, ps)"
| con_tick: "con_step H G (l, s, ps) (l, s\<lparr>tick := Suc (tick s)\<rparr>, ps)"
| con_reopen: "Open_store H e (db_file_of (sv_store s)) = Inr u \<Longrightarrow>
    con_step H G (l, s, ps) (l, s\<lparr>sv_store := u\<lparr>txn := n\<rparr>\<rparr>, [])"
| con_restart: "New_service H G s = (t, x) \<Longrightarrow> con_step H G (l, s, ps) (l, t, [])"

definition con_start :: "('b, 'v, 'd, 'z) svc_host_scheme \<Rightarrow> ('b, 'd) conf \<Rightarrow> bool" where
  "con_start H c \<longleftrightarrow> store_start H (sv_store (fst (snd c))) \<and> objs (fst (snd c)) = []
     \<and> fst c = [] \<and> snd (snd c) = []"

definition con_reachable ::
  "('b, 'v, 'd, 'z) svc_host_scheme \<Rightarrow> svc_config \<Rightarrow> ('b, 'd) conf \<Rightarrow> bool" where
  "con_reachable H G c \<longleftrightarrow> (\<exists>c0. con_start H c0 \<and> (con_step H G)\<^sup>*\<^sup>* c0 c)"

lemma con_reachable_start: "con_start H c \<Longrightarrow> con_reachable H G c"
  unfolding con_reachable_def by (intro exI conjI) (assumption, rule rtranclp.rtrancl_refl)

lemma con_reachable_run:
  assumes "con_reachable H G c" and "(con_step H G)\<^sup>*\<^sup>* c d"
  shows "con_reachable H G d"
proof -
  obtain c0 where "con_start H c0" "(con_step H G)\<^sup>*\<^sup>* c0 c"
    using assms(1) unfolding con_reachable_def by (elim exE conjE)
  then show ?thesis
    unfolding con_reachable_def by (intro exI conjI) (assumption, erule rtranclp_trans, rule assms(2))
qed

section \<open>Assertions\<close>

text \<open>
  \<open>on_chain l r\<close>: some answer reported the object finalized. Once true it stays true, which is
  what makes the assertions below stable under the steps of the other threads.
\<close>

definition on_chain :: "chain_call list \<Rightarrow> string \<Rightarrow> bool" where
  "on_chain l r \<longleftrightarrow> Ask r (Inr FileFinalized) \<in> set l"

definition safe :: "chain_call list \<Rightarrow> ('b, 'd) svc \<Rightarrow> string \<Rightarrow> bool" where
  "safe l s r \<longleftrightarrow> on_chain l r \<or> map_of (objs s) r \<noteq> None"

definition con_ok :: "('b, 'v, 'd, 'z) svc_host_scheme \<Rightarrow> chain_call list \<Rightarrow> ('b, 'd) svc \<Rightarrow> bool" where
  "con_ok H l s \<longleftrightarrow>
     store_inv H (sv_store s)
     \<and> (\<forall>r m. meta_at H (sv_store s) r = Some m \<longrightarrow> status_ok l r (Status m))
     \<and> (\<forall>r x n. content_of H (sv_store s) r = Some (x, n) \<longrightarrow>
          (\<exists>b. sha256_hex H b = x \<and> int (length b) = n \<and> merkle_root H b = Inr r))
     \<and> (\<forall>r y. map_of (objs s) r = Some y \<longrightarrow> (\<exists>b. y = RegFile b \<and> merkle_root H b = Inr r))
     \<and> (\<forall>r. meta_at H (sv_store s) r \<noteq> None \<longrightarrow> safe l s r)"

lemma con_okD:
  assumes "con_ok H l s"
  shows "store_inv H (sv_store s)"
    and "meta_at H (sv_store s) r = Some m \<Longrightarrow> status_ok l r (Status m)"
    and "content_of H (sv_store s) r = Some (x, n) \<Longrightarrow>
      \<exists>b. sha256_hex H b = x \<and> int (length b) = n \<and> merkle_root H b = Inr r"
    and "map_of (objs s) r = Some y \<Longrightarrow> \<exists>b. y = RegFile b \<and> merkle_root H b = Inr r"
    and "meta_at H (sv_store s) r \<noteq> None \<Longrightarrow> safe l s r"
  using assms unfolding con_ok_def by blast+

lemma con_okI:
  assumes "store_inv H (sv_store s)"
    and "\<And>r m. meta_at H (sv_store s) r = Some m \<Longrightarrow> status_ok l r (Status m)"
    and "\<And>r x n. content_of H (sv_store s) r = Some (x, n) \<Longrightarrow>
      \<exists>b. sha256_hex H b = x \<and> int (length b) = n \<and> merkle_root H b = Inr r"
    and "\<And>r y. map_of (objs s) r = Some y \<Longrightarrow> \<exists>b. y = RegFile b \<and> merkle_root H b = Inr r"
    and "\<And>r. meta_at H (sv_store s) r \<noteq> None \<Longrightarrow> safe l s r"
  shows "con_ok H l s"
  using assms unfolding con_ok_def by blast

text \<open>The bytes that a request has in its spool file.\<close>

definition spool_root :: "('b, 'v, 'd, 'z) svc_host_scheme \<Rightarrow> ('b, 'd) svc \<Rightarrow> string \<Rightarrow> string \<Rightarrow> bool" where
  "spool_root H s tmp root \<longleftrightarrow> (\<exists>b. map_of (tmps s) tmp = Some (RegFile b) \<and> merkle_root H b = Inr root)"

text \<open>What a reader of the object that the record describes must get.\<close>

definition right_bytes :: "('b, 'v, 'd, 'z) svc_host_scheme \<Rightarrow> object_meta \<Rightarrow> fnode \<Rightarrow> bool" where
  "right_bytes H m x \<longleftrightarrow>
     (\<exists>b. x = RegFile b \<and> merkle_root H b = Inr (Root m) \<and> sha256_hex H b = SHA256 m \<and> int (length b) = Size m)"

definition known_as :: "('b, 'v, 'd, 'z) svc_host_scheme \<Rightarrow> ('b, 'd) svc \<Rightarrow> string \<Rightarrow> object_meta \<Rightarrow> bool" where
  "known_as H s root m \<longleftrightarrow>
     Root m = root \<and> content_of H (sv_store s) root = Some (SHA256 m, Size m)"

fun owned :: "pc \<Rightarrow> string list" where
  "owned (PutLookup tmp data fn ct) = [tmp]"
| "owned (PutStat tmp m) = [tmp]"
| "owned (PutSalvage tmp m) = [tmp]"
| "owned (PutRetry tmp m) = [tmp]"
| "owned (PutFile tmp data fn ct) = [tmp]"
| "owned (Account n k) = owned k"
| "owned (Evict e k) = owned k"
| "owned p = []"

fun evict_ok :: "chain_call list \<Rightarrow> evict_pc \<Rightarrow> bool" where
  "evict_ok l (EvLoop cs) = (\<forall>c \<in> set cs. on_chain l (CERoot c))"
| "evict_ok l (EvStat c cs) = (\<forall>c \<in> set (c # cs). on_chain l (CERoot c))"
| "evict_ok l (EvRemove r x cs) = (on_chain l r \<and> (\<forall>c \<in> set cs. on_chain l (CERoot c)))"
| "evict_ok l (EvAccount n cs) = (\<forall>c \<in> set cs. on_chain l (CERoot c))"
| "evict_ok l e = True"

fun pc_ok :: "('b, 'v, 'd, 'z) svc_host_scheme \<Rightarrow> chain_call list \<Rightarrow> ('b, 'd) svc \<Rightarrow> pc \<Rightarrow> bool" where
  "pc_ok H l s (PutLookup tmp data fn ct) = (map_of (tmps s) tmp = Some (RegFile data))"
| "pc_ok H l s (PutFile tmp data fn ct) = (map_of (tmps s) tmp = Some (RegFile data))"
| "pc_ok H l s (PutStat tmp m) = spool_root H s tmp (Root m)"
| "pc_ok H l s (PutSalvage tmp m) = spool_root H s tmp (Root m)"
| "pc_ok H l s (PutRetry tmp m) = spool_root H s tmp (Root m)"
| "pc_ok H l s (PutCreate root data fn ct) = (merkle_root H data = Inr root \<and> safe l s root)"
| "pc_ok H l s (OpenLocal root m) = known_as H s root m"
| "pc_ok H l s (OpenTouch root m x) = right_bytes H m x"
| "pc_ok H l s (OpenRestore root m) = known_as H s root m"
| "pc_ok H l s (OpenFile root m) = known_as H s root m"
| "pc_ok H l s (OpenMark root m x) = right_bytes H m x"
| "pc_ok H l s (OpenDone (Inr (x, m))) = right_bytes H m x"
| "pc_ok H l s (Account n k) = pc_ok H l s k"
| "pc_ok H l s (Evict e k) = (evict_ok l e \<and> pc_ok H l s k)"
| "pc_ok H l s p = True"

definition con_inv :: "('b, 'v, 'd, 'z) svc_host_scheme \<Rightarrow> ('b, 'd) conf \<Rightarrow> bool" where
  "con_inv H c \<longleftrightarrow> (case c of (l, s, ps) \<Rightarrow>
     con_ok H l s \<and> (\<forall>p \<in> set ps. pc_ok H l s p \<and> (\<forall>n \<in> set (owned p). prefix ''spool-'' n))
     \<and> (\<forall>i < length ps. \<forall>j < length ps. i \<noteq> j \<longrightarrow> set (owned (ps ! i)) \<inter> set (owned (ps ! j)) = {}))"

lemma con_invD:
  assumes "con_inv H (l, s, ps)"
  shows "con_ok H l s" and "p \<in> set ps \<Longrightarrow> pc_ok H l s p"
    and "p \<in> set ps \<Longrightarrow> n \<in> set (owned p) \<Longrightarrow> prefix ''spool-'' n"
    and "i < length ps \<Longrightarrow> j < length ps \<Longrightarrow> i \<noteq> j \<Longrightarrow> set (owned (ps ! i)) \<inter> set (owned (ps ! j)) = {}"
  using assms unfolding con_inv_def by auto

lemma con_invI:
  assumes "con_ok H l s" and "\<And>i. i < length ps \<Longrightarrow> pc_ok H l s (ps ! i)"
    and "\<And>i n. i < length ps \<Longrightarrow> n \<in> set (owned (ps ! i)) \<Longrightarrow> prefix ''spool-'' n"
    and "\<And>i j. i < length ps \<Longrightarrow> j < length ps \<Longrightarrow> i \<noteq> j \<Longrightarrow> set (owned (ps ! i)) \<inter> set (owned (ps ! j)) = {}"
  shows "con_inv H (l, s, ps)"
  using assms unfolding con_inv_def by (auto simp: in_set_conv_nth [of _ ps])

text \<open>A spool name that a request owns is in the spool.\<close>

lemma owned_there: "pc_ok H l s p \<Longrightarrow> n \<in> set (owned p) \<Longrightarrow> map_of (tmps s) n \<noteq> None"
  by (induction p) (auto simp: spool_root_def)

section \<open>Stability\<close>

text \<open>
  \<open>rely N l s l' s'\<close>: what a step may do as the other threads see it; \<open>N\<close> are the spool names
  that it may touch.
\<close>

definition spool_frame :: "string set \<Rightarrow> ('b, 'd) svc \<Rightarrow> ('b, 'd) svc \<Rightarrow> bool" where
  "spool_frame N s t \<longleftrightarrow>
     (\<forall>n. prefix ''spool-'' n \<and> n \<notin> N \<longrightarrow> map_of (tmps t) n = map_of (tmps s) n)"

definition rely ::
  "('b, 'v, 'd, 'z) svc_host_scheme \<Rightarrow> string set \<Rightarrow> chain_call list \<Rightarrow> ('b, 'd) svc
     \<Rightarrow> chain_call list \<Rightarrow> ('b, 'd) svc \<Rightarrow> bool" where
  "rely H N l s l' s' \<longleftrightarrow>
     set l \<subseteq> set l'
     \<and> (\<forall>r c. content_of H (sv_store s) r = Some c \<longrightarrow> content_of H (sv_store s') r = Some c)
     \<and> (\<forall>r. safe l s r \<longrightarrow> safe l' s' r)
     \<and> spool_frame N s s'"

lemma on_chain_mono: "on_chain l r \<Longrightarrow> set l \<subseteq> set l' \<Longrightarrow> on_chain l' r"
  by (auto simp: on_chain_def)

lemma evict_ok_mono: "evict_ok l e \<Longrightarrow> set l \<subseteq> set l' \<Longrightarrow> evict_ok l' e"
  by (cases e) (auto intro: on_chain_mono)

lemma pc_ok_mono:
  assumes "pc_ok H l s p" and "set l \<subseteq> set l'"
    and "\<And>r c. content_of H (sv_store s) r = Some c \<Longrightarrow> content_of H (sv_store s') r = Some c"
    and "\<And>r. safe l s r \<Longrightarrow> safe l' s' r"
    and "\<forall>n \<in> set (owned p). map_of (tmps s') n = map_of (tmps s) n"
  shows "pc_ok H l' s' p"
  using assms
proof (induction p)
  case (OpenDone x)
  then show ?case by (cases x) auto
next
  case (Evict e k)
  then show ?case by (auto intro: evict_ok_mono)
qed (auto simp: spool_root_def known_as_def)

lemma pc_ok_stable:
  assumes "pc_ok H l s p" and "rely H N l s l' s'" and "set (owned p) \<inter> N = {}"
    and "\<forall>n \<in> set (owned p). prefix ''spool-'' n"
  shows "pc_ok H l' s' p"
  using assms by (intro pc_ok_mono [of H l s p l' s']) (auto simp: rely_def spool_frame_def)

lemma pc_ok_spooled: "pc_ok H l s p \<Longrightarrow> spooled s t \<Longrightarrow> tmps t = tmps s \<Longrightarrow> pc_ok H l t p"
  by (erule pc_ok_mono) (auto simp: spooled_def safe_def)

lemma spool_frame_refl [simp]: "spool_frame N s s"
  by (simp add: spool_frame_def)

lemma spool_frame_trans: "spool_frame N s t \<Longrightarrow> spool_frame N t u \<Longrightarrow> spool_frame N s u"
  by (simp add: spool_frame_def)

lemma spool_frame_fields [simp]:
  "spool_frame N s (t\<lparr>sv_store := u\<rparr>) = spool_frame N s t"
  "spool_frame N s (t\<lparr>sv_dl := d\<rparr>) = spool_frame N s t"
  "spool_frame N s (t\<lparr>objs := ob\<rparr>) = spool_frame N s t"
  "spool_frame N s (t\<lparr>cacheBytes := k\<rparr>) = spool_frame N s t"
  "spool_frame N s (t\<lparr>evicting := b\<rparr>) = spool_frame N s t"
  "spool_frame N s (t\<lparr>tick := n\<rparr>) = spool_frame N s t"
  "spool_frame N (s\<lparr>tick := n\<rparr>) t = spool_frame N s t"
  by (simp_all add: spool_frame_def)

lemma remove_tmp_frame: "n \<in> N \<or> \<not> prefix ''spool-'' n \<Longrightarrow> spool_frame N s t \<Longrightarrow> spool_frame N s (remove_tmp H t n)"
  by (auto simp: remove_tmp_def os_call_def spool_frame_def split: option.splits)

lemma rename_frame:
  "rename_into_cache H t n dst = (u, e) \<Longrightarrow> n \<in> N \<or> \<not> prefix ''spool-'' n \<Longrightarrow> spool_frame N s t \<Longrightarrow>
   spool_frame N s u"
  by (auto simp: rename_into_cache_def os_call_def spool_frame_def split: option.splits fnode.splits)

lemma materialize_frame: "materialize H s n dst = (u, e) \<Longrightarrow> spool_frame {n} s u"
  by (auto simp: materialize_def os_call_def split: option.splits prod.splits
      intro!: remove_tmp_frame dest: rename_frame [where N = "{n}" and s = s])

lemma io_copy_frame: "io_copy H t n r = (u, x) \<Longrightarrow> spool_frame {n} s t \<Longrightarrow> spool_frame {n} s u"
  by (auto simp: io_copy_def os_call_def Let_def spool_frame_def split: option.splits)

end
