(* ===== verification/Concurrent_Inv.thy ===== *)
theory Concurrent_Inv
  imports Concurrent
begin

text \<open>
  Every step of the interleaving keeps the invariant \<open>con_inv\<close>: the step of one request keeps
  the global part, establishes the assertion at its next program point and does to the others
  only what \<open>rely\<close> allows.
\<close>

section \<open>Steps on files and store\<close>

lemma rely_spooled:
  assumes "spooled s t" and "spool_frame N s t"
  shows "rely H N l s l t"
  using assms by (simp add: rely_def spooled_def safe_def)

lemma con_ok_spooled: "con_ok H l s \<Longrightarrow> spooled s t \<Longrightarrow> con_ok H l t"
  by (simp add: con_ok_def spooled_def safe_def)

lemma con_ok_file:
  assumes "con_ok H l s" and "sv_store t = sv_store s"
    and "map_of (objs t) = (map_of (objs s))(r \<mapsto> RegFile b)" and "merkle_root H b = Inr r"
  shows "con_ok H l t"
proof (rule con_okI)
  show "safe l t q" if "meta_at H (sv_store t) q \<noteq> None" for q
    using con_okD(5) [OF assms(1), of q] that assms(2,3) by (auto simp: safe_def)
qed (use assms con_okD [OF assms(1)] in \<open>auto split: if_splits\<close>)

lemma rely_file:
  assumes "sv_store t = sv_store s" and "map_of (objs t) = (map_of (objs s))(r \<mapsto> x)" and "spool_frame N s t"
  shows "rely H N l s l t"
  using assms by (auto simp: rely_def safe_def)

lemma con_ok_removed:
  assumes "con_ok H l s" and "sv_store t = sv_store s" and "on_chain l r"
    and "map_of (objs t) = (map_of (objs s))(r := None)"
  shows "con_ok H l t"
proof (rule con_okI)
  show "safe l t q" if "meta_at H (sv_store t) q \<noteq> None" for q
    using con_okD(5) [OF assms(1), of q] that assms(2-4) by (auto simp: safe_def)
qed (use assms con_okD [OF assms(1)] in \<open>auto split: if_splits\<close>)

lemma rely_removed:
  assumes "sv_store t = sv_store s" and "on_chain l r"
    and "map_of (objs t) = (map_of (objs s))(r := None)" and "spool_frame N s t"
  shows "rely H N l s l t"
  using assms by (auto simp: rely_def safe_def)

text \<open>Opening the database again touches none of its buckets.\<close>

lemma con_ok_reopened:
  assumes "con_ok H l s"
  shows "con_ok H l (s\<lparr>sv_store := (sv_store s)\<lparr>txn := n, closed := c\<rparr>\<rparr>)"
proof -
  let ?t = "(sv_store s)\<lparr>txn := n, closed := c\<rparr>"
  have m: "meta_at H ?t = meta_at H (sv_store s)" by (rule meta_at_cong) simp
  then have c: "content_of H ?t = content_of H (sv_store s)" by (simp add: content_of_def fun_eq_iff)
  have "store_inv H ?t"
    using con_okD(1) [OF assms]
    by (simp add: store_inv_def meta_inv_def queue_inv_def sha_inv_def names_inv_def m)
  then show ?thesis using con_okD [OF assms] m c by (intro con_okI) (auto simp: safe_def)
qed

lemma con_ok_log: "con_ok H l s \<Longrightarrow> con_ok H (l @ new) s"
  by (rule con_okI) (auto dest: con_okD simp: safe_def on_chain_def intro: status_ok_mono)

context collision_free
begin

text \<open>A store operation other than a creation keeps the content records.\<close>

lemma con_ok_store:
  assumes ok: "con_ok H l s" and run: "store_exec H (sv_store s) p = Some (t, x)"
    and op: "op_ok H (sv_store s) p" and p: "client_op p \<or> worker_op UNIV l p"
    and "\<And>m. p \<noteq> OpCreate m"
  shows "con_ok H l (s\<lparr>sv_store := t\<rparr>) \<and> rely H N l s l (s\<lparr>sv_store := t\<rparr>)"
proof -
  note inv = con_okD(1) [OF ok]
  have c: "content_of H t = content_of H (sv_store s)" by (rule store_exec_content [OF inv run assms(5)])
  have dom: "meta_at H t r = None \<longleftrightarrow> meta_at H (sv_store s) r = None" for r
    using fun_cong [OF c, of r] by (auto simp: content_of_def)
  have h: "honest l (sv_store s)" using con_okD(2) [OF ok] by (simp add: honest_def)
  have "honest l t"
    using p
  proof
    assume "client_op p"
    then show ?thesis by (rule client_op_honest [OF inv run op _ h])
  next
    assume "worker_op UNIV l p"
    then have "touched H UNIV l (sv_store s) t" using run by (intro touched_step [OF touched_refl])
    then show ?thesis using touched_honest inv h by blast
  qed
  then have "con_ok H l (s\<lparr>sv_store := t\<rparr>)"
    using con_okD [OF ok] store_exec_inv [OF run op inv] c dom
    by (intro con_okI) (auto simp: honest_def safe_def)
  then show ?thesis using c by (simp add: rely_def safe_def)
qed

lemma con_ok_create:
  assumes ok: "con_ok H l s" and run: "CreateObject H (sv_store s) m = (t, x)"
    and m: "SHA256 m = sha256_hex H data" "Size m = int (length data)" "Status m = StatusPending"
    and root: "merkle_root H data = Inr (Root m)" and safe: "safe l s (Root m)"
  shows "con_ok H l (s\<lparr>sv_store := t\<rparr>) \<and> rely H N l s l (s\<lparr>sv_store := t\<rparr>)"
proof -
  note inv = con_okD(1) [OF ok]
  have tinv: "store_inv H t" using CreateObject_inv [OF run inv] root_ascii [OF root] sha_ascii m(1) by simp
  from run show ?thesis
  proof (cases rule: CreateObject_cases)
    case (failed e)
    then have same: "meta_at H t = meta_at H (sv_store s)"
      by (intro meta_at_cong) (simp add: same_data_def)
    then have c: "content_of H t = content_of H (sv_store s)" by (simp add: content_of_def fun_eq_iff)
    have "con_ok H l (s\<lparr>sv_store := t\<rparr>)"
      using con_okD [OF ok] tinv c same by (intro con_okI) (auto simp: safe_def)
    then show ?thesis using c by (simp add: rely_def safe_def)
  next
    case (ok m')
    have none: "meta_at H (sv_store s) (Root m) = None" using ok(2) by (simp add: meta_at_def)
    have m': "Root m' = Root m" "SHA256 m' = SHA256 m" "Size m' = Size m" "Status m' = Status m"
      using ok(3) by simp_all
    have at: "meta_at H t r = (if r = Root m then Some (json_meta m') else meta_at H (sv_store s) r)" for r
      using meta_at_wrote [OF ok(4)] m'(1) by simp
    have c: "content_of H t r = (if r = Root m then Some (sha256_hex H data, int (length data))
        else content_of H (sv_store s) r)" for r
      using at [of r] m' m sha_ascii by (simp add: content_of_def)
    note okd = con_okD [OF \<open>con_ok H l s\<close>]
    have "con_ok H l (s\<lparr>sv_store := t\<rparr>)"
    proof (rule con_okI)
      show "status_ok l r (Status k)" if "meta_at H (sv_store (s\<lparr>sv_store := t\<rparr>)) r = Some k" for r k
        using that at [of r] okd(2) [of r] m'(4) m(3) by (auto split: if_splits)
      show "\<exists>b. sha256_hex H b = y \<and> int (length b) = n \<and> merkle_root H b = Inr r"
        if "content_of H (sv_store (s\<lparr>sv_store := t\<rparr>)) r = Some (y, n)" for r y n
        using that c [of r] okd(3) root by (auto split: if_splits)
      show "safe l (s\<lparr>sv_store := t\<rparr>) r" if "meta_at H (sv_store (s\<lparr>sv_store := t\<rparr>)) r \<noteq> None" for r
        using that at [of r] okd(5) [of r] safe by (auto simp: safe_def split: if_splits)
    qed (use tinv okd(4) in auto)
    moreover have "content_of H (sv_store s) (Root m) = None" using none by (simp add: content_of_def)
    ultimately show ?thesis using c by (auto simp: rely_def safe_def)
  qed
qed

text \<open>Touching an object.\<close>

lemma con_ok_touch_now:
  assumes "con_ok H l s"
  shows "con_ok H l (touch_now H s root) \<and> rely H N l s l (touch_now H s root)"
proof -
  obtain u x where u: "Touch H (sv_store s) root (wall H (tick s)) = (u, x)" by force
  have "con_ok H l (s\<lparr>sv_store := u\<rparr>) \<and> rely H N l s l (s\<lparr>sv_store := u\<rparr>)"
    by (rule con_ok_store [OF assms, of "OpTouch root (wall H (tick s))"]) (use u in auto)
  moreover have "touch_now H s root = (s\<lparr>sv_store := u\<rparr>)\<lparr>tick := Suc (tick s)\<rparr>"
    by (simp add: touch_now_def u)
  ultimately show ?thesis
    using con_ok_spooled [of H l "s\<lparr>sv_store := u\<rparr>" "(s\<lparr>sv_store := u\<rparr>)\<lparr>tick := Suc (tick s)\<rparr>"]
    by (simp add: rely_def safe_def)
qed

text \<open>The right bytes are in a file of the cache that has the recorded size or was verified.\<close>

lemma file_right_bytes:
  assumes "con_ok H l s" and "known_as H s root m" and "map_of (objs s) root = Some x"
  shows "right_bytes H m x"
proof -
  obtain b where b: "x = RegFile b" "merkle_root H b = Inr root" using con_okD(4) [OF assms(1,3)] by blast
  obtain b' where "sha256_hex H b' = SHA256 m" "int (length b') = Size m" "merkle_root H b' = Inr root"
    using con_okD(3) [OF assms(1)] assms(2) unfolding known_as_def by blast
  moreover from this have "b' = b" using root_inj b(2) by blast
  ultimately show ?thesis using b assms(2) by (auto simp: right_bytes_def known_as_def)
qed

lemma Get_known:
  assumes "con_ok H l s" and "Get H (sv_store s) root = Inr (Some m)"
  shows "known_as H s root m"
proof -
  have at: "meta_at H (sv_store s) root = Some m"
    using assms(2) by (auto simp: Get_def db_view_def split: if_splits dest: getMeta_Some)
  then show ?thesis
    using meta_inv_at [of H "sv_store s" root m] con_okD(1) [OF assms(1)]
    by (simp add: known_as_def content_of_def store_inv_def)
qed

section \<open>Restoring a file\<close>

lemma restore_file_cases:
  assumes "restore_file H s root = (t, x)"
  obtains (early) e where "spooled s t" "x = Inl e" "spool_frame {} s t"
  | (moved) b where "merkle_root H b = Inr root" "sv_store t = sv_store s"
      "map_of (objs t) = (map_of (objs s))(root \<mapsto> RegFile b)" "spool_frame {} s t" "x = Inr ()"
proof (cases "length (trim_prefix root ''0x'') < 16")
  case True
  then show thesis using assms early [of ErrPanic] by (auto simp: restore_file_def Let_def)
next
  case False
  obtain d f e where dl: "download H (sv_dl s) root = (d, f, e)" by (metis prod_cases3)
  define tmp where "tmp = ''dl-'' @ take 16 (trim_prefix root ''0x'') @ ''-'' @ itoa (rand63 H (tick s))"
  have np: "\<not> prefix ''spool-'' tmp" by (simp add: tmp_def)
  define s1 where "s1 = s\<lparr>sv_dl := d, tick := Suc (tick s)\<rparr>"
  define s2 where "s2 = (case f of None \<Rightarrow> s1 | Some b \<Rightarrow> s1\<lparr>tmps := dir_put (tmps s1) tmp (RegFile b)\<rparr>)"
  have s2: "spooled s s2" "spool_frame {} s s2"
    using np by (auto simp: s2_def s1_def spool_frame_def split: option.splits)
  have run: "(t, x) = (case e of
                   Some e \<Rightarrow> (remove_tmp H s2 tmp, Inl (Wrapped ''restore from 0g'' e))
                 | None \<Rightarrow>
                     (case rename_into_cache H s2 tmp root of
                        (s3, Some e) \<Rightarrow> (remove_tmp H s3 tmp, Inl e)
                      | (s3, None) \<Rightarrow> (s3, Inr ())))"
    using assms [symmetric] False
    unfolding restore_file_def Let_def dl prod.case tmp_def s1_def s2_def by (simp only: if_False)
  show thesis
  proof (cases e)
    case (Some er)
    then have "t = remove_tmp H s2 tmp" "x = Inl (Wrapped ''restore from 0g'' er)" using run by simp_all
    then show thesis using early s2 np by (simp add: remove_tmp_frame)
  next
    case None
    then obtain b where b: "f = Some b" "merkle_root H b = Inr root"
      using download_verified [of "sv_dl s" root d f] dl by blast
    obtain s3 er where mv: "rename_into_cache H s2 tmp root = (s3, er)" by force
    have fr: "spool_frame {} s s3" using rename_frame [OF mv, of "{}" s] np s2(2) by blast
    from mv show thesis
    proof (cases rule: rename_cases)
      case (failed er')
      then have "t = remove_tmp H s3 tmp" "x = Inl er'" using run None mv by simp_all
      then show thesis
        using early [of er'] spooled_trans [OF s2(1) failed(2)] fr np by (simp add: remove_tmp_frame)
    next
      case (moved y)
      then have "y = RegFile b" "t = s3" "x = Inr ()"
        using run None mv b(1) by (simp_all add: s2_def)
      then show thesis using that(2) [of b] b(2) moved fr s2(1) by (simp add: spooled_def)
    qed
  qed
qed

lemma put_file_cases:
  assumes "put_file H s tmp data = (t, x)" and "map_of (tmps s) tmp = Some (RegFile data)"
  obtains (early) e where "spooled s t" "x = Inl e" "spool_frame {tmp} s t"
  | (moved) root where "merkle_root H data = Inr root" "sv_store t = sv_store s"
      "map_of (objs t) = (map_of (objs s))(root \<mapsto> RegFile data)" "spool_frame {tmp} s t" "x = Inr root"
proof -
  let ?s1 = "s\<lparr>tick := Suc (tick s)\<rparr>" and ?s2 = "s\<lparr>tick := Suc (Suc (tick s))\<rparr>"
  consider (a) e where "os_fault H (tick s) = Some e"
    | (b) e where "os_fault H (tick s) = None" "os_fault H (Suc (tick s)) = Some e"
    | (c) "os_fault H (tick s) = None" "os_fault H (Suc (tick s)) = None" by auto
  then show thesis
  proof cases
    case a
    then have "t = remove_tmp H ?s1 tmp" "x = Inl e" using assms(1) by (simp_all add: put_file_def os_call_def)
    then show thesis using early [of e] by (simp add: remove_tmp_frame)
  next
    case b
    then have "t = remove_tmp H ?s2 tmp" "x = Inl e" using assms(1) by (simp_all add: put_file_def os_call_def)
    then show thesis using early [of e] by (simp add: remove_tmp_frame)
  next
    case c
    show thesis
    proof (cases "merkle_root H data")
      case (Inl e)
      then have "t = remove_tmp H ?s2 tmp" "x = Inl (Wrapped ''merkle root'' e)"
        using assms(1) c by (simp_all add: put_file_def os_call_def)
      then show thesis using early by (simp add: remove_tmp_frame)
    next
      case (Inr root)
      obtain s3 e where mv: "rename_into_cache H ?s2 tmp root = (s3, e)" by force
      have fr: "spool_frame {tmp} s s3" using rename_frame [OF mv, of "{tmp}" s] by simp
      from mv show thesis
      proof (cases rule: rename_cases)
        case (failed er)
        then have "t = remove_tmp H s3 tmp" "x = Inl er" "spooled s s3"
          using assms(1) c Inr mv by (simp_all add: put_file_def os_call_def)
        then show thesis using early [of er] fr by (simp add: remove_tmp_frame)
      next
        case (moved y)
        then have "y = RegFile data" "t = s3" "x = Inr root"
          using assms c Inr mv by (simp_all add: put_file_def os_call_def)
        then show thesis using that(2) [of root] Inr moved fr by simp
      qed
    qed
  qed
qed

text \<open>The spool file of a new request has a name that no other request holds.\<close>

lemma put_spool_cases:
  assumes "put_spool H G s r = (t, x)"
  obtains (early) e tmp where "spooled s t" "x = Inl e" "map_of (tmps s) tmp = None" "spool_frame {tmp} s t"
  | (spooled) tmp data where "spooled s t" "x = Inr (tmp, data)" "map_of (tmps s) tmp = None"
      "prefix ''spool-'' tmp" "spool_frame {tmp} s t" "map_of (tmps t) tmp = Some (RegFile data)"
proof -
  define tmp where "tmp = temp_name H (map fst (tmps s)) (tick s)"
  have fresh: "map_of (tmps s) tmp = None" and pre: "prefix ''spool-'' tmp"
    using temp_fresh [of "map fst (tmps s)" "tick s"] temp_prefix
    by (simp_all add: tmp_def map_of_eq_None_iff)
  show thesis
  proof (cases "os_fault H (tick s)")
    case (Some e)
    then have "t = s\<lparr>tick := Suc (tick s)\<rparr>" "x = Inl e"
      using assms by (simp_all add: put_spool_def os_call_def)
    then show thesis using early [OF _ _ fresh] by simp
  next
    case None
    let ?s2 = "s\<lparr>tick := Suc (tick s), tmps := dir_put (tmps s) tmp (RegFile [])\<rparr>"
    let ?src = "if 0 < MaxSize G then limit_reader r (int64 (MaxSize G + 1)) else r"
    obtain s3 y where cp: "io_copy H ?s2 tmp ?src = (s3, y)" by force
    have s2: "spooled s ?s2" "spool_frame {tmp} s ?s2" by (simp_all add: spool_frame_def)
    have s3: "spooled s s3" "spool_frame {tmp} s s3"
      using spooled_trans [OF s2(1) io_copy_spooled [OF cp]] io_copy_frame [OF cp s2(2)] by simp_all
    have run: "(t, x) = (case y of Inl e \<Rightarrow> (remove_tmp H s3 tmp, Inl e)
               | Inr data \<Rightarrow>
                   if int (length data) = 0 then (remove_tmp H s3 tmp, Inl ErrEmpty)
                   else if 0 < MaxSize G \<and> MaxSize G < int (length data) then (remove_tmp H s3 tmp, Inl ErrTooLarge)
                   else (s3, Inr (tmp, data)))"
      using assms [symmetric] None cp
      by (cases y) (simp_all add: put_spool_def os_call_def Let_def tmp_def [symmetric])
    have rem: "spooled s (remove_tmp H s3 tmp)" "spool_frame {tmp} s (remove_tmp H s3 tmp)"
      using s3 by (simp_all add: remove_tmp_frame)
    show thesis
    proof (cases y)
      case (Inl e)
      then have "t = remove_tmp H s3 tmp" "x = Inl e" using run by simp_all
      then show thesis using early [of e tmp] rem fresh by simp
    next
      case (Inr data)
      then have d: "map_of (tmps s3) tmp = Some (RegFile data)" using io_copy_data cp by blast
      have "(\<exists>e. t = remove_tmp H s3 tmp \<and> x = Inl e) \<or> (t = s3 \<and> x = Inr (tmp, data))"
        using run Inr by (simp split: if_splits)
      then show thesis
        using early [of _ tmp] spooled [of tmp data] rem s3 fresh pre d by blast
    qed
  qed
qed

section \<open>One step of a request\<close>

text \<open>
  \<open>step_ok\<close>: the global part is kept, the next assertion holds, and the others see a step that
  touches only the spool files the thread owns, before or after.
\<close>

definition step_ok where
  "step_ok l s p t q \<longleftrightarrow>
     con_ok H l t \<and> pc_ok H l t q
     \<and> (\<exists>N. rely H N l s l t \<and> set (owned q) \<subseteq> N \<union> set (owned p)
          \<and> (\<forall>n \<in> N. n \<in> set (owned p) \<or> map_of (tmps s) n = None)
          \<and> (\<forall>n \<in> set (owned q). prefix ''spool-'' n \<or> n \<in> set (owned p)))"

lemma step_okI:
  assumes "con_ok H l t" and "pc_ok H l t q" and "rely H (set (owned p)) l s l t"
    and "set (owned q) \<subseteq> set (owned p)"
  shows "step_ok l s p t q"
  unfolding step_ok_def using assms by (intro conjI exI [of _ "set (owned p)"]) auto

lemma step_ok_same: "con_ok H l s \<Longrightarrow> pc_ok H l s q \<Longrightarrow> set (owned q) \<subseteq> set (owned p) \<Longrightarrow> step_ok l s p s q"
  by (rule step_okI) (simp_all add: rely_def)

lemma step_ok_spooled:
  assumes "con_ok H l s" and "spooled s t" and "spool_frame (set (owned p)) s t" and "pc_ok H l t q"
    and "set (owned q) \<subseteq> set (owned p)"
  shows "step_ok l s p t q"
  by (rule step_okI) (use assms con_ok_spooled rely_spooled in auto)

text \<open>An eviction goes through objects that the chain has reported finalized.\<close>

lemma candidates_on_chain:
  assumes "con_ok H l s" and "FinalizedCacheEntries H (sv_store s) = Inr es"
  shows "\<forall>c \<in> set (sort_lru H es). on_chain l (CERoot c)"
proof
  fix c
  assume c: "c \<in> set (sort_lru H es)"
  have "\<not> closed (sv_store s)" using assms(2) by (auto simp: FinalizedCacheEntries_def db_view_def split: if_splits)
  then obtain m where "c = \<lparr>CERoot = Root m, CESize = Size m, CELastAccess = LastAccess m\<rparr>"
    "meta_at H (sv_store s) (Root m) = Some m" "Status m = StatusFinalized"
    using cache_entries_read [OF con_okD(1) [OF assms(1)]] assms(2) c by auto
  then show "on_chain l (CERoot c)"
    using con_okD(2) [OF assms(1), of "Root m" m] by (simp add: on_chain_def)
qed

lemma evict_step_ok:
  assumes ok: "con_ok H l s" and pc: "evict_ok l e" "pc_ok H l s k"
    and run: "evict_step H G s e k = (t, q)"
  shows "step_ok l s (Evict e k) t q"
proof -
  have sp: "step_ok l s (Evict e k) t q"
    if "spooled s t" "tmps t = tmps s" "q = k \<or> (\<exists>e'. q = Evict e' k \<and> evict_ok l e')"
    using that pc_ok_spooled [OF pc(2) that(1,2)]
    by (intro step_ok_spooled [OF ok]) (auto simp: spool_frame_def)
  show ?thesis
  proof (cases e)
    case EvLimit
    then show ?thesis using run by (intro sp) (auto split: if_splits)
  next
    case EvSwap
    then show ?thesis using run by (intro sp) (auto split: if_splits)
  next
    case EvList
    then show ?thesis
      using run candidates_on_chain [OF ok] by (intro sp) (auto split: sum.splits)
  next
    case (EvLoop cs)
    then show ?thesis using run pc(1) by (intro sp; cases cs) (auto split: if_splits)
  next
    case (EvStat c cs)
    then show ?thesis
      using run pc(1) by (intro sp) (auto simp: os_call_def split: option.splits)
  next
    case (EvRemove r x cs)
    show ?thesis
    proof (cases "\<exists>b. os_fault H (tick s) = None \<and> map_of (objs s) r = Some (RegFile b)")
      case True
      then have t: "t = s\<lparr>tick := Suc (tick s), objs := dir_del (objs s) r\<rparr>" "q = Evict (EvAccount (node_size x) cs) k"
        using run EvRemove by (auto simp: os_call_def)
      have r: "on_chain l r" using pc(1) EvRemove by simp
      have re: "rely H {} l s l t" by (rule rely_removed [OF _ r]) (simp_all add: t)
      have "pc_ok H l t k"
        using pc(2) re by (intro pc_ok_mono [OF pc(2)]) (auto simp: rely_def t)
      moreover have "rely H (set (owned k)) l s l t" by (rule rely_removed [OF _ r]) (simp_all add: t)
      moreover have "con_ok H l t" by (rule con_ok_removed [OF ok _ r]) (simp_all add: t)
      ultimately show ?thesis
        using pc(1) EvRemove by (intro step_okI) (simp_all add: t(2))
    next
      case False
      then have "t = s\<lparr>tick := Suc (tick s)\<rparr>" "q = Evict (EvLoop cs) k"
        using run EvRemove by (auto simp: os_call_def split: option.splits fnode.splits)
      then show ?thesis using pc(1) EvRemove by (intro sp) auto
    qed
  next
    case (EvAccount n cs)
    then show ?thesis using run pc(1) by (intro sp) auto
  next
    case EvDone
    then show ?thesis using run by (intro sp) auto
  qed
qed

lemma reenqueue_ok:
  assumes "con_ok H l s" and "with_store s (Reenqueue H (sv_store s) root) = (t, x)"
  shows "con_ok H l t \<and> rely H N l s l t"
proof -
  obtain u where u: "Reenqueue H (sv_store s) root = (u, x)" "t = s\<lparr>sv_store := u\<rparr>"
    using assms(2) by (auto simp: with_store_def split: prod.splits)
  show ?thesis
    unfolding u(2) by (rule con_ok_store [OF assms(1), of "OpReenqueue root"]) (simp_all add: u(1))
qed

text \<open>The record that the dedup lookup finds is the one of the spooled bytes.\<close>

lemma lookup_root:
  assumes ok: "con_ok H l s" and "BySHA256 H (sv_store s) (sha256_hex H data) = Inr (Some m)"
  shows "merkle_root H data = Inr (Root m)"
proof -
  have m: "meta_at H (sv_store s) (Root m) = Some m" "SHA256 m = sha256_hex H data"
    using BySHA256_read(1) [OF con_okD(1) [OF ok] assms(2) refl] by simp_all
  then have "content_of H (sv_store s) (Root m) = Some (sha256_hex H data, Size m)" by (simp add: content_of_def)
  then obtain b where "sha256_hex H b = sha256_hex H data" "merkle_root H b = Inr (Root m)"
    using con_okD(3) [OF ok] by blast
  then show ?thesis using sha_inj by metis
qed

lemma put_step_ok:
  assumes ok: "con_ok H l s" and pc: "pc_ok H l s p" and run: "thread_step H G s p = (t, q)"
    and p: "\<exists>r fn ct tmp data m root dup. p \<in> {PutSpool r fn ct, PutLookup tmp data fn ct, PutStat tmp m,
      PutSalvage tmp m, PutRequeue m, PutRetry tmp m, PutRetried root, PutFile tmp data fn ct,
      PutCreate root data fn ct, PutRead root dup}"
  shows "step_ok l s p t q"
proof (cases p)
  case (PutSpool r fn ct)
  obtain x where x: "put_spool H G s r = (t, x)"
    using run PutSpool by (auto split: prod.splits sum.splits)
  from x show ?thesis
  proof (cases rule: put_spool_cases)
    case (early e tmp)
    then have "q = PutDone (Inl e)" using run PutSpool x by simp
    then show ?thesis
      unfolding step_ok_def using early con_ok_spooled [OF ok early(1)] rely_spooled [OF early(1,4)]
      by (intro conjI exI [of _ "{tmp}"]) simp_all
  next
    case (spooled tmp data)
    then have "q = PutLookup tmp data fn ct" using run PutSpool x by simp
    then show ?thesis
      unfolding step_ok_def using spooled con_ok_spooled [OF ok spooled(1)] rely_spooled [OF spooled(1,5)]
      by (intro conjI exI [of _ "{tmp}"]) simp_all
  qed
next
  case (PutLookup tmp data fn ct)
  have tmp: "map_of (tmps s) tmp = Some (RegFile data)" using pc PutLookup by simp
  show ?thesis
  proof (cases "BySHA256 H (sv_store s) (sha256_hex H data)")
    case (Inl e)
    then have "t = remove_tmp H s tmp" "q = PutDone (Inl e)" using run PutLookup by simp_all
    then show ?thesis using PutLookup by (intro step_ok_spooled [OF ok]) (simp_all add: remove_tmp_frame)
  next
    case (Inr mo)
    then show ?thesis
    proof (cases mo)
      case None
      then have "t = s" "q = PutFile tmp data fn ct" using run PutLookup Inr by simp_all
      then show ?thesis using ok tmp PutLookup by (simp add: step_ok_same)
    next
      case (Some m)
      then have "t = s" "q = PutStat tmp m" using run PutLookup Inr by simp_all
      then show ?thesis
        using ok tmp PutLookup lookup_root [OF ok] Inr Some by (auto simp: step_ok_same spool_root_def)
    qed
  qed
next
  case (PutStat tmp m)
  obtain s1 needs where n: "(if Status m \<noteq> StatusFinalized
      then (case fileExists H s (Root m) of (s1, there) \<Rightarrow> (s1, \<not> there)) else (s, False)) = (s1, needs)"
    by force
  have s1: "spooled s s1" "tmps s1 = tmps s"
    using n fileExists_eq [of H s "Root m"] by (auto split: if_splits prod.splits)
  have q: "(t, q) = (if needs then (s1, PutSalvage tmp m)
          else if Status m = StatusFailed then (s1, PutRetry tmp m)
          else (remove_tmp H s1 tmp, PutDone (Inr (m, True))))"
    using run unfolding PutStat thread_step.simps n by simp
  have sr: "spool_root H s1 tmp (Root m)" using pc PutStat s1 by (simp add: spool_root_def)
  have fr: "spool_frame {tmp} s s1" using s1(2) by (simp add: spool_frame_def)
  show ?thesis
    using q PutStat s1 sr fr
    by (intro step_ok_spooled [OF ok]) (auto simp: remove_tmp_frame split: if_splits)
next
  case (PutSalvage tmp m)
  obtain e where mat: "materialize H s tmp (Root m) = (t, e)"
    using run PutSalvage by (auto split: prod.splits option.splits)
  note fr = materialize_frame [OF mat]
  obtain b where b: "map_of (tmps s) tmp = Some (RegFile b)" "merkle_root H b = Inr (Root m)"
    using pc PutSalvage by (auto simp: spool_root_def)
  from mat show ?thesis
  proof (cases rule: materialize_cases)
    case (failed er)
    then have "q = PutDone (Inl er)" using run PutSalvage mat by simp
    then show ?thesis using failed fr PutSalvage by (intro step_ok_spooled [OF ok]) simp_all
  next
    case (moved x)
    then have q: "q = Account (Size m) (PutRequeue m)" "x = RegFile b" using run PutSalvage mat b by simp_all
    have "con_ok H l t" by (rule con_ok_file [OF ok moved(3) _ b(2)]) (simp add: moved(4) q)
    moreover have "rely H (set (owned p)) l s l t"
      by (rule rely_file [OF moved(3,4)]) (use fr PutSalvage in simp)
    ultimately show ?thesis by (intro step_okI) (simp_all add: q)
  qed
next
  case (PutRequeue m)
  obtain y where y: "with_store s (Reenqueue H (sv_store s) (Root m)) = (t, y)"
    using run PutRequeue by (auto split: prod.splits sum.splits)
  have "q = PutRead (Root m) True \<or> (\<exists>e. q = PutDone (Inl e))"
    using run PutRequeue y by (auto split: sum.splits)
  then show ?thesis using reenqueue_ok [OF ok y] by (intro step_okI) auto
next
  case (PutRetry tmp m)
  let ?s1 = "remove_tmp H s tmp"
  obtain y where y: "with_store ?s1 (Reenqueue H (sv_store ?s1) (Root m)) = (t, y)"
    using run PutRetry by (auto simp: Let_def split: prod.splits sum.splits)
  have q: "q = PutRetried (Root m) \<or> (\<exists>e. q = PutDone (Inl e))"
    using run PutRetry y by (auto simp: Let_def split: sum.splits)
  have s1: "spooled s ?s1" "spool_frame {tmp} s ?s1" by (simp_all add: remove_tmp_frame)
  have r: "con_ok H l t \<and> rely H {tmp} l ?s1 l t" by (rule reenqueue_ok [OF con_ok_spooled [OF ok s1(1)] y])
  moreover have "rely H {tmp} l s l ?s1" by (rule rely_spooled [OF s1])
  ultimately have "rely H {tmp} l s l t" unfolding rely_def using spool_frame_trans by blast
  then show ?thesis using q r PutRetry by (intro step_okI) auto
next
  case (PutRetried root)
  then show ?thesis using run ok by (auto intro: step_ok_same)
next
  case (PutFile tmp data fn ct)
  have tmp: "map_of (tmps s) tmp = Some (RegFile data)" using pc PutFile by simp
  obtain x where x: "put_file H s tmp data = (t, x)"
    using run PutFile by (auto split: prod.splits sum.splits)
  from x tmp show ?thesis
  proof (cases rule: put_file_cases)
    case (early e)
    then have "q = PutDone (Inl e)" using run PutFile x by simp
    then show ?thesis using early PutFile by (intro step_ok_spooled [OF ok]) simp_all
  next
    case (moved root)
    then have q: "q = Account (int (length data)) (PutCreate root data fn ct)" using run PutFile x by simp
    have "con_ok H l t" by (rule con_ok_file [OF ok moved(2,3,1)])
    moreover have "rely H (set (owned p)) l s l t"
      by (rule rely_file [OF moved(2,3)]) (use moved(4) PutFile in simp)
    ultimately show ?thesis
      using moved(1,3) by (intro step_okI) (simp_all add: q safe_def)
  qed
next
  case (PutCreate root data fn ct)
  have root: "merkle_root H data = Inr root" "safe l s root" using pc PutCreate by simp_all
  obtain u y where u: "CreateObject H (sv_store s) (new_meta H root data fn ct) = (u, y)" by force
  have t: "t = s\<lparr>sv_store := u\<rparr>" and q: "(\<exists>dup. q = PutRead root dup) \<or> (\<exists>e. q = PutDone (Inl e))"
    using run PutCreate u by (auto simp: with_store_def split: sum.splits if_splits)
  have "con_ok H l t \<and> rely H (set (owned p)) l s l t"
    unfolding t by (rule con_ok_create [OF ok u, where data = data]) (simp_all add: new_meta_def root)
  then show ?thesis using q by (intro step_okI) auto
next
  case (PutRead root dup)
  then show ?thesis using run ok by (auto intro: step_ok_same)
qed (use p in auto)

lemma known_spooled: "known_as H s root m \<Longrightarrow> sv_store t = sv_store s \<Longrightarrow> known_as H t root m"
  by (simp add: known_as_def)

lemma open_step_ok:
  assumes ok: "con_ok H l s" and pc: "pc_ok H l s p" and run: "thread_step H G s p = (t, q)"
    and p: "\<exists>root m x. p \<in> {OpenLookup root, OpenLocal root m, OpenTouch root m x, OpenRestore root m,
      OpenFile root m, OpenMark root m x}"
  shows "step_ok l s p t q"
proof (cases p)
  case (OpenLookup root)
  then have "t = s" "q = OpenDone (Inl (case Get H (sv_store s) root of Inl e \<Rightarrow> e | Inr _ \<Rightarrow> ErrNotFound))
      \<or> (\<exists>m. q = OpenLocal root m \<and> Get H (sv_store s) root = Inr (Some m))"
    using run by (auto split: sum.splits option.splits)
  then show ?thesis using Get_known [OF ok] ok OpenLookup by (auto intro: step_ok_same)
next
  case (OpenLocal root m)
  have kn: "known_as H s root m" using pc OpenLocal by simp
  obtain y where y: "open_cached H s root m = (t, y)"
    using run OpenLocal by (auto split: prod.splits sum.splits option.splits)
  have t: "spooled s t" "tmps t = tmps s"
    using y by (auto simp: open_cached_def os_call_def spooled_def split: option.splits if_splits)
  have hit: "map_of (objs s) root = Some x" if "y = Inr (Some x)" for x
    using y that by (auto simp: open_cached_def os_call_def split: option.splits if_splits)
  have "(\<exists>e. q = OpenDone (Inl e)) \<or> (\<exists>x. q = OpenTouch root m x \<and> y = Inr (Some x)) \<or> q = OpenRestore root m"
    using run OpenLocal y by (auto split: sum.splits option.splits)
  then have "pc_ok H l t q"
    using file_right_bytes [OF ok kn hit] known_spooled [OF kn] t by (auto simp: spooled_def)
  moreover have "owned q = []"
    using run OpenLocal y by (auto split: sum.splits option.splits)
  ultimately show ?thesis using t by (intro step_ok_spooled [OF ok]) (simp_all add: spool_frame_def)
next
  case (OpenTouch root m x)
  then have q: "t = touch_svc H G s root (LastAccess m)" "q = OpenDone (Inr (x, m))" using run by simp_all
  let ?s1 = "s\<lparr>tick := Suc (tick s)\<rparr>"
  have ok1: "con_ok H l ?s1" by (rule con_ok_spooled [OF ok]) simp
  have r1: "rely H N l s l u" if "rely H N l ?s1 l u" for N u
    using that by (simp add: rely_def safe_def)
  have "con_ok H l t \<and> rely H (set (owned p)) l s l t"
    unfolding q(1) touch_svc_def Let_def
    using ok ok1 con_ok_touch_now [OF ok1] r1 by (auto simp: rely_def safe_def)
  then show ?thesis using pc OpenTouch q(2) by (intro step_okI) auto
next
  case (OpenRestore root m)
  have kn: "known_as H s root m" using pc OpenRestore by simp
  obtain x where x: "restore_file H s root = (t, x)"
    using run OpenRestore by (auto split: prod.splits sum.splits)
  from x show ?thesis
  proof (cases rule: restore_file_cases)
    case (early e)
    then have "q = OpenDone (Inl e)" using run OpenRestore x by simp
    then show ?thesis using early OpenRestore by (intro step_ok_spooled [OF ok]) simp_all
  next
    case (moved b)
    then have q: "q = OpenFile root m" using run OpenRestore x by simp
    have "con_ok H l t" by (rule con_ok_file [OF ok moved(2,3,1)])
    moreover have "rely H (set (owned p)) l s l t"
      by (rule rely_file [OF moved(2,3)]) (use moved(4) OpenRestore in simp)
    ultimately show ?thesis
      using known_spooled [OF kn moved(2)] by (intro step_okI) (simp_all add: q)
  qed
next
  case (OpenFile root m)
  have kn: "known_as H s root m" using pc OpenFile by simp
  have t: "t = s\<lparr>tick := Suc (tick s)\<rparr>"
    and q: "(\<exists>e. q = OpenDone (Inl e)) \<or> (\<exists>x. q = OpenMark root m x \<and> map_of (objs s) root = Some x)"
    using run OpenFile by (auto simp: os_call_def split: option.splits)
  show ?thesis
    using q file_right_bytes [OF ok kn] by (intro step_ok_spooled [OF ok]) (auto simp: t)
next
  case (OpenMark root m x)
  then have t: "t = (if 0 < CacheMaxBytes G then touch_now H s root else s)"
    and q: "q = Account (Size m) (OpenDone (Inr (x, m)))" using run by simp_all
  have "con_ok H l t \<and> rely H (set (owned p)) l s l t"
    unfolding t using ok con_ok_touch_now [OF ok] by (auto simp: rely_def)
  then show ?thesis using pc OpenMark by (intro step_okI) (simp_all add: q)
qed (use p in auto)

lemma thread_step_ok:
  assumes ok: "con_ok H l s" and pc: "pc_ok H l s p" and run: "thread_step H G s p = (t, q)"
  shows "step_ok l s p t q"
proof -
  have idle: "step_ok l s p t q" if "finished p" using that run ok pc by (auto intro: step_ok_same)
  show ?thesis
  proof (cases p)
    case AdmitStart
    then show ?thesis using run ok by (auto intro: step_ok_same split: if_splits)
  next
    case AdmitLoad
    then show ?thesis using run ok by (auto intro: step_ok_same)
  next
    case (Account n k)
    have k: "pc_ok H l s k" using pc Account by simp
    have t: "spooled s t" "tmps t = tmps s" and q: "q = k \<or> q = Evict EvLimit k"
      using run Account by (auto split: if_splits)
    show ?thesis
      using q pc_ok_spooled [OF k t] t Account by (intro step_ok_spooled [OF ok]) (auto simp: spool_frame_def)
  next
    case (Evict e k)
    then show ?thesis using evict_step_ok [OF ok, of e k] pc run by simp
  qed (use put_step_ok [OF ok pc run] open_step_ok [OF ok pc run] idle in auto)
qed

section \<open>The system\<close>

text \<open>A step that no request takes, on a state whose files and spool stay.\<close>

lemma con_inv_outside:
  assumes inv: "con_inv H (l, s, ps)" and "con_ok H l' t" and "rely H {} l s l' t"
  shows "con_inv H (l', t, ps)"
proof (rule con_invI [OF assms(2)])
  show "pc_ok H l' t (ps ! i)" if "i < length ps" for i
    using con_invD(2,3) [OF inv, of "ps ! i"] that by (intro pc_ok_stable [OF _ assms(3)]) auto
  show "prefix ''spool-'' n" if "i < length ps" "n \<in> set (owned (ps ! i))" for i n
    using con_invD(3) [OF inv nth_mem] that by blast
qed (rule con_invD(4) [OF inv])

lemma con_inv_thread:
  assumes inv: "con_inv H (l, s, ps)" and i: "i < length ps" and run: "thread_step H G s (ps ! i) = (t, q)"
  shows "con_inv H (l, t, ps[i := q])"
proof -
  note pool = con_invD [OF inv]
  have "step_ok l s (ps ! i) t q" using thread_step_ok [OF pool(1) pool(2) run] i by simp
  then obtain N where st: "con_ok H l t" "pc_ok H l t q" "rely H N l s l t"
    "set (owned q) \<subseteq> N \<union> set (owned (ps ! i))"
    "\<forall>n \<in> N. n \<in> set (owned (ps ! i)) \<or> map_of (tmps s) n = None"
    "\<forall>n \<in> set (owned q). prefix ''spool-'' n \<or> n \<in> set (owned (ps ! i))"
    unfolding step_ok_def by blast
  have other: "set (owned (ps ! j)) \<inter> (N \<union> set (owned (ps ! i))) = {}" if "j < length ps" "j \<noteq> i" for j
    using pool(4) [OF that(1) i that(2)] st(5) owned_there [OF pool(2) [of "ps ! j"]] that(1) by fastforce
  have new: "(ps[i := q]) ! j = (if j = i then q else ps ! j)" if "j < length ps" for j
    using that by simp
  show ?thesis
  proof (rule con_invI [OF st(1)])
    show "pc_ok H l t (ps[i := q] ! j)" if "j < length (ps[i := q])" for j
    proof (cases "j = i")
      case False
      have "pc_ok H l t (ps ! j)"
        by (rule pc_ok_stable [OF pool(2) st(3)]) (use other [of j] False that pool(3) [of "ps ! j"] in auto)
      then show ?thesis using False by simp
    qed (use st(2) i in simp)
    show "prefix ''spool-'' n" if "j < length (ps[i := q])" "n \<in> set (owned (ps[i := q] ! j))" for j n
      using that new [of j] st(6) pool(3) [of "ps ! i"] pool(3) [of "ps ! j"] i by (auto split: if_splits)
    show "set (owned (ps[i := q] ! j)) \<inter> set (owned (ps[i := q] ! k)) = {}"
      if "j < length (ps[i := q])" "k < length (ps[i := q])" "j \<noteq> k" for j k
      using that new [of j] new [of k] st(4) other [of j] other [of k] pool(4) [of j k] by auto
  qed
qed

lemma New_service_shrunk:
  assumes "store_inv H (sv_store s)" and "New_service H G s = (t, x)"
  shows "sv_store t = sv_store s
    \<and> (\<forall>r. map_of (objs t) r = map_of (objs s) r \<or> finalized H (sv_store s) r \<and> map_of (objs t) r = None)"
proof -
  define s2 where "s2 = s\<lparr>cacheBytes := 0, evicting := False, tick := Suc (Suc (tick s))\<rparr>"
  define s3 where "s3 = clearDir H s2"
  have s2: "spooled s s2" by (simp add: s2_def)
  then have s3: "spooled s s3" by (simp add: s3_def)
  obtain s4 n where ds: "dirSize H s3 = (s4, n)" by force
  have s4: "spooled s s4" using spooled_trans [OF s3 dirSize_spooled [OF ds]] .
  have "spooled s t \<or> (\<exists>k. t = evictIfNeeded H G (s4\<lparr>cacheBytes := k\<rparr>))"
    using assms(2) s2 s3 s4 ds
    by (auto simp: New_service_def os_call_def Let_def s2_def [symmetric] s3_def [symmetric]
        split: option.splits sum.splits if_splits prod.splits)
  then show ?thesis
  proof
    assume "\<exists>k. t = evictIfNeeded H G (s4\<lparr>cacheBytes := k\<rparr>)"
    then obtain k where t: "t = evictIfNeeded H G (s4\<lparr>cacheBytes := k\<rparr>)" by blast
    have "sv_store s4 = sv_store s" "objs s4 = objs s" using s4 by (simp_all add: spooled_def)
    then show ?thesis
      using evictIfNeeded_shrunk [of "s4\<lparr>cacheBytes := k\<rparr>" G] assms(1) unfolding t shrunk_def by auto
  qed (simp add: spooled_def)
qed

lemma con_inv_restart:
  assumes "con_ok H l s" and "New_service H G s = (t, x)"
  shows "con_inv H (l, t, [])"
proof -
  note sh = New_service_shrunk [OF con_okD(1) [OF assms(1)] assms(2)]
  have fin: "on_chain l r" if "finalized H (sv_store s) r" for r
    using that con_okD(2) [OF assms(1), of r] by (auto simp: finalized_def on_chain_def)
  have "con_ok H l t"
  proof (rule con_okI)
    show "\<exists>b. y = RegFile b \<and> merkle_root H b = Inr r" if "map_of (objs t) r = Some y" for r y
      using that sh con_okD(4) [OF assms(1)] by (metis option.distinct(1))
    show "safe l t r" if "meta_at H (sv_store t) r \<noteq> None" for r
      using con_okD(5) [OF assms(1), of r] that sh fin [of r] unfolding safe_def by metis
  qed (use sh con_okD [OF assms(1)] in auto)
  then show ?thesis by (intro con_invI) simp_all
qed

lemma con_step_inv:
  assumes "con_step H G c c'" and "con_inv H c"
  shows "con_inv H c'"
  using assms(1)
proof cases
  case (con_thread i ps s t q l)
  then show ?thesis using con_inv_thread assms(2) by blast
next
  case (con_request p l s ps)
  note pool = con_invD [OF assms(2) [unfolded con_request(1)]]
  have p: "owned p = []" "pc_ok H l s p" using con_request(3) by (cases p; simp)+
  have at: "(ps @ [p]) ! i = (if i < length ps then ps ! i else p)" if "i < length (ps @ [p])" for i
    using that by (auto simp: nth_append less_Suc_eq)
  show ?thesis
    unfolding con_request(2)
  proof (rule con_invI [OF pool(1)])
    show "pc_ok H l s ((ps @ [p]) ! i)" if "i < length (ps @ [p])" for i
      using at [OF that] pool(2) [OF nth_mem] p(2) by simp
    show "prefix ''spool-'' n" if "i < length (ps @ [p])" "n \<in> set (owned ((ps @ [p]) ! i))" for i n
      using at [OF that(1)] that(2) pool(3) [OF nth_mem] p(1) by (auto split: if_splits)
    show "set (owned ((ps @ [p]) ! i)) \<inter> set (owned ((ps @ [p]) ! j)) = {}"
      if "i < length (ps @ [p])" "j < length (ps @ [p])" "i \<noteq> j" for i j
      using at [OF that(1)] at [OF that(2)] that(3) pool(4) [of i j] p(1) by simp
  qed
next
  case (con_chain l s ps new)
  note inv = assms(2) [unfolded con_chain(1)]
  show ?thesis
    unfolding con_chain(2)
    by (rule con_inv_outside [OF inv con_ok_log [OF con_invD(1) [OF inv]]])
      (auto simp: rely_def safe_def on_chain_def)
next
  case (con_worker l p s t x ps)
  note inv = assms(2) [unfolded con_worker(1)]
  have "op_ok H (sv_store s) p" "\<And>m. p \<noteq> OpCreate m" using con_worker(3) by (cases p; simp)+
  then have "con_ok H l (s\<lparr>sv_store := t\<rparr>) \<and> rely H {} l s l (s\<lparr>sv_store := t\<rparr>)"
    using con_ok_store [OF con_invD(1) [OF inv] con_worker(4)] con_worker(3) by blast
  then show ?thesis unfolding con_worker(2) using con_inv_outside [OF inv] by blast
next
  case (con_index s p t x l ps)
  note inv = assms(2) [unfolded con_index(1)]
  have "client_op p" "\<And>m. p \<noteq> OpCreate m" using con_index(5) by (cases p; simp)+
  then have "con_ok H l (s\<lparr>sv_store := t\<rparr>) \<and> rely H {} l s l (s\<lparr>sv_store := t\<rparr>)"
    using con_ok_store [OF con_invD(1) [OF inv] con_index(3,4)] by blast
  then show ?thesis unfolding con_index(2) using con_inv_outside [OF inv] by blast
next
  case (con_tick l s ps)
  note inv = assms(2) [unfolded con_tick(1)]
  show ?thesis
    unfolding con_tick(2)
    by (rule con_inv_outside [OF inv con_ok_spooled [OF con_invD(1) [OF inv]]]) (simp_all add: rely_def safe_def)
next
  case (con_reopen e s u l ps n)
  have "u\<lparr>txn := n\<rparr> = (sv_store s)\<lparr>txn := n, closed := False\<rparr>"
    using Open_store_again [OF con_reopen(3)] by simp
  then have "con_ok H l (s\<lparr>sv_store := u\<lparr>txn := n\<rparr>\<rparr>)"
    using con_ok_reopened con_invD(1) [OF assms(2) [unfolded con_reopen(1)]] by simp
  then show ?thesis unfolding con_reopen(2) by (intro con_invI) simp_all
next
  case (con_restart s t x l ps)
  then show ?thesis using con_inv_restart con_invD(1) assms(2) by blast
qed

lemma con_start_inv:
  assumes "con_start H c"
  shows "con_inv H c"
proof -
  obtain l s ps where c: "c = (l, s, ps)" by (metis prod_cases3)
  have st: "store_start H (sv_store s)" and e: "objs s = []" "l = []" "ps = []"
    using assms by (simp_all add: con_start_def c)
  obtain u where u: "sv_store s = u" by simp
  have none: "meta_at H (sv_store s) r = None" for r
    using st get_empty unfolding u
    by (auto simp: store_start_def Open_store_def create_if_not_exists_def meta_at_def split: option.splits)
  have "con_ok H l s"
    using store_start_inv [OF st] by (intro con_okI) (simp_all add: e none content_of_def)
  then show ?thesis unfolding c by (intro con_invI) (simp_all add: e)
qed

end

sublocale collision_free \<subseteq> con: invariant_system "con_start H" "con_step H G" "con_inv H" for G
  by unfold_locales (fact con_start_inv, fact con_step_inv)

context collision_free
begin

lemma con_reachable_inv: "con_reachable H G c \<Longrightarrow> con_inv H c"
  unfolding con_reachable_def using con.inv_reachable by blast

end

end
