(* ===== verification/Concurrent_Put.thy ===== *)
theory Concurrent_Put
  imports Concurrent_Inv Object_Put
begin

text \<open>
  One upload and one read followed through any interleaving. A step of the system may be a step of
  any thread; the assertion \<open>put_from r\<close> of every program point of an upload relates what the thread
  holds there to the body \<open>r\<close> it was called with, and \<open>open_from root\<close> does the same for a read.
\<close>

section \<open>Steps without a crash\<close>

text \<open>A crash ends every thread; a step that ends none keeps the threads under their numbers.\<close>

definition live_step ::
  "('b, 'v, 'd, 'z) svc_host_scheme \<Rightarrow> svc_config \<Rightarrow> ('b, 'd) conf \<Rightarrow> ('b, 'd) conf \<Rightarrow> bool" where
  "live_step H G c d \<longleftrightarrow> con_step H G c d \<and> length (snd (snd c)) \<le> length (snd (snd d))"

lemma live_run_steps: "(live_step H G)\<^sup>*\<^sup>* c d \<Longrightarrow> (con_step H G)\<^sup>*\<^sup>* c d"
  by (erule rtranclp_mono [THEN predicate2D, rotated]) (auto simp: live_step_def)

text \<open>Seen from thread \<open>i\<close>, a step is its own or leaves its program point where it was.\<close>

lemma live_step_thread:
  assumes "live_step H G (l, s, ps) (l', t, qs)" and "i < length ps"
  shows "i < length qs"
    and "qs ! i = ps ! i \<or> l' = l \<and> thread_step H G s (ps ! i) = (t, qs ! i)"
proof -
  have len: "length ps \<le> length qs" and st: "con_step H G (l, s, ps) (l', t, qs)"
    using assms(1) by (simp_all add: live_step_def)
  show "i < length qs" using len assms(2) by simp
  from st show "qs ! i = ps ! i \<or> l' = l \<and> thread_step H G s (ps ! i) = (t, qs ! i)"
  proof cases
    case (con_thread j q)
    then show ?thesis using assms(2) by (cases "j = i") simp_all
  next
    case (con_request p)
    then show ?thesis using assms(2) by (simp add: nth_append)
  qed (use len assms(2) in auto)
qed

section \<open>What no step takes from the database\<close>

definition db_kept :: "('b, 'v, 'd, 'z) svc_host_scheme \<Rightarrow> 'b store \<Rightarrow> 'b store \<Rightarrow> bool" where
  "db_kept H u v \<longleftrightarrow> (\<forall>r c. content_of H u r = Some c \<longrightarrow> content_of H v r = Some c)"

lemma db_kept_refl [simp]: "db_kept H u u"
  by (simp add: db_kept_def)

lemma db_kept_trans: "db_kept H u v \<Longrightarrow> db_kept H v w \<Longrightarrow> db_kept H u w"
  by (simp add: db_kept_def)

lemma store_exec_closed:
  assumes "store_exec H u p = Some (v, x)" and "closed u"
  shows "closed v"
  using assms
  by (cases p)
    (auto simp: CreateObject_def SetStatus_def Reenqueue_def IncRetries_def SetSkipTx_def Touch_def mutate_def
      S3CreateBucket_def S3DeleteBucket_def S3ForceDeleteBucket_def S3PutObjectKey_def S3DeleteObjectKey_def
      db_update_def Close_store_def void_def)

lemma touch_now_closed: "closed (sv_store s) \<Longrightarrow> closed (sv_store (touch_now H s root))"
  using store_exec_closed [of H "sv_store s" "OpTouch root (wall H (tick s))"]
  by (cases "Touch H (sv_store s) root (wall H (tick s))") (simp add: touch_now_def)

lemma with_store_closed:
  "with_store s (Reenqueue H (sv_store s) root) = (t, x) \<Longrightarrow> closed (sv_store s) \<Longrightarrow> closed (sv_store t)"
  using store_exec_closed [of H "sv_store s" "OpReenqueue root"] by (auto simp: with_store_def split: prod.splits)


lemma spooled_store: "spooled s t \<Longrightarrow> sv_store t = sv_store s"
  by (simp add: spooled_def)

lemma remove_tmp_store: "sv_store (remove_tmp H s n) = sv_store s"
  by (auto simp: remove_tmp_def os_call_def split: option.splits)

lemma evict_step_store: "evict_step H G s e k = (t, q) \<Longrightarrow> sv_store t = sv_store s"
  by (induction H G s e k rule: evict_step.induct)
    (auto simp: os_call_def split: if_splits option.splits sum.splits fnode.splits)

text \<open>Once the database is closed, only a crash and a new start open it again.\<close>

context collision_free
begin

lemma thread_step_closed:
  assumes "pc_ok H l s p" and "thread_step H G s p = (t, q)" and "closed (sv_store s)"
  shows "closed (sv_store t)"
proof (cases p)
  case (PutSpool r fn ct)
  obtain x where "put_spool H G s r = (t, x)"
    using assms(2) PutSpool by (auto split: prod.splits sum.splits)
  then show ?thesis using assms(3) by (cases rule: put_spool_cases) (simp_all add: spooled_store)
next
  case (PutStat tmp m)
  then show ?thesis
    using assms(2,3) fileExists_eq [of H s "Root m"]
    by (auto simp: spooled_store remove_tmp_def os_call_def split: if_splits prod.splits option.splits)
next
  case (PutSalvage tmp m)
  obtain e where "materialize H s tmp (Root m) = (t, e)"
    using assms(2) PutSalvage by (auto split: prod.splits option.splits)
  then show ?thesis using assms(3) by (cases rule: materialize_cases) (simp_all add: spooled_store)
next
  case (PutRequeue m)
  obtain y where "with_store s (Reenqueue H (sv_store s) (Root m)) = (t, y)"
    using assms(2) PutRequeue by (auto split: prod.splits sum.splits)
  then show ?thesis using with_store_closed assms(3) by blast
next
  case (PutRetry tmp m)
  let ?s1 = "remove_tmp H s tmp"
  obtain y where "with_store ?s1 (Reenqueue H (sv_store ?s1) (Root m)) = (t, y)"
    using assms(2) PutRetry by (auto simp: Let_def split: prod.splits sum.splits)
  moreover have "sv_store ?s1 = sv_store s" by (simp add: spooled_store)
  ultimately show ?thesis using with_store_closed assms(3) by metis
next
  case (PutFile tmp data fn ct)
  have tmp: "map_of (tmps s) tmp = Some (RegFile data)" using assms(1) PutFile by simp
  obtain x where "put_file H s tmp data = (t, x)"
    using assms(2) PutFile by (auto split: prod.splits sum.splits)
  from this tmp show ?thesis using assms(3) by (cases rule: put_file_cases) (simp_all add: spooled_store)
next
  case (PutCreate root data fn ct)
  obtain u y where u: "CreateObject H (sv_store s) (new_meta H root data fn ct) = (u, y)" by force
  then have "t = s\<lparr>sv_store := u\<rparr>"
    using assms(2) PutCreate by (auto simp: with_store_def split: sum.splits if_splits)
  then show ?thesis using store_exec_closed [of H "sv_store s" "OpCreate (new_meta H root data fn ct)"] u assms(3) by simp
next
  case (OpenLocal root m)
  then show ?thesis
    using assms(2,3) by (auto simp: open_cached_def os_call_def split: if_splits option.splits)
next
  case (OpenTouch root m x)
  then show ?thesis
    using assms(2,3) touch_now_closed [of "s\<lparr>tick := Suc (tick s)\<rparr>" H root] by (auto simp: touch_svc_def Let_def)
next
  case (OpenRestore root m)
  obtain x where "restore_file H s root = (t, x)"
    using assms(2) OpenRestore by (auto split: prod.splits sum.splits)
  then show ?thesis using assms(3) by (cases rule: restore_file_cases) (simp_all add: spooled_store)
next
  case (OpenMark root m x)
  then show ?thesis using assms(2,3) touch_now_closed [of s H root] by (auto split: if_splits)
next
  case (Evict e k)
  then show ?thesis using assms(2,3) evict_step_store [of H G s e k t q] by simp
qed (use assms(2,3) in \<open>auto simp: os_call_def remove_tmp_store split: sum.splits option.splits if_splits\<close>)

lemma live_step_closed:
  assumes "live_step H G (l, s, ps) (l', t, qs)" and "con_inv H (l, s, ps)" and "ps \<noteq> []"
    and "closed (sv_store s)"
  shows "closed (sv_store t)"
proof -
  have len: "length ps \<le> length qs" and st: "con_step H G (l, s, ps) (l', t, qs)"
    using assms(1) by (simp_all add: live_step_def)
  from st show ?thesis
  proof cases
    case (con_thread i q)
    then show ?thesis using thread_step_closed con_invD(2) [OF assms(2)] assms(4) nth_mem by blast
  next
    case (con_worker p u x)
    then show ?thesis using store_exec_closed assms(4) by fastforce
  next
    case (con_index p u x)
    then show ?thesis using store_exec_closed assms(4) by fastforce
  qed (use len assms(3,4) in auto)
qed

text \<open>No step, a crash included, takes the content of an object from the database.\<close>

lemma con_step_kept:
  assumes "con_step H G (l, s, ps) (l', t, qs)" and "con_inv H (l, s, ps)"
  shows "db_kept H (sv_store s) (sv_store t)"
  using assms(1)
proof cases
  case (con_thread i q)
  have "step_ok l s (ps ! i) t q"
    using thread_step_ok [OF con_invD(1,2) [OF assms(2)]] con_thread by simp
  then show ?thesis by (auto simp: step_ok_def rely_def db_kept_def)
next
  case (con_worker p u x)
  have "op_ok H (sv_store s) p" "\<And>m. p \<noteq> OpCreate m" using con_worker(4) by (cases p; simp)+
  then have "rely H {} l s l (s\<lparr>sv_store := u\<rparr>)"
    using con_ok_store [OF con_invD(1) [OF assms(2)] con_worker(5)] con_worker(4) by blast
  then show ?thesis using con_worker(2) by (simp add: rely_def db_kept_def)
next
  case (con_index p u x)
  have "client_op p" "\<And>m. p \<noteq> OpCreate m" using con_index(6) by (cases p; simp)+
  then have "rely H {} l s l (s\<lparr>sv_store := u\<rparr>)"
    using con_ok_store [OF con_invD(1) [OF assms(2)] con_index(4,5)] by blast
  then show ?thesis using con_index(2) by (simp add: rely_def db_kept_def)
next
  case (con_reopen e u n)
  have "u = (sv_store s)\<lparr>txn := 1, closed := False\<rparr>" by (rule Open_store_again) fact
  then have "meta_at H (sv_store t) = meta_at H (sv_store s)"
    using con_reopen by (intro meta_at_cong) simp
  then show ?thesis by (simp add: db_kept_def content_of_def)
next
  case (con_restart x)
  then show ?thesis
    using New_service_shrunk [OF con_okD(1) [OF con_invD(1) [OF assms(2)]]] by simp
qed simp_all

lemma con_run_kept:
  assumes "(con_step H G)\<^sup>*\<^sup>* (l, s, ps) (l', t, qs)" and "con_inv H (l, s, ps)"
  shows "db_kept H (sv_store s) (sv_store t) \<and> con_inv H (l', t, qs)"
  using assms(1)
proof (induction "(l', t, qs)" arbitrary: l' t qs rule: rtranclp_induct)
  case (step c)
  obtain k u rs where c: "c = (k, u, rs)" by (metis prod_cases3)
  have "db_kept H (sv_store s) (sv_store u) \<and> con_inv H (k, u, rs)" using step.hyps(3) c by blast
  moreover have "con_step H G (k, u, rs) (l', t, qs)" using step.hyps(2) c by simp
  ultimately show ?case using con_step_kept con_step_inv db_kept_trans by blast
qed (use assms(2) in simp)

end

section \<open>The assertions of an upload\<close>

text \<open>
  \<open>stored_as\<close>: the database has the bytes as the content of the object \<open>root\<close>, and that is their
  Merkle root. \<open>accepted\<close>: the body passed the size checks of \<open>Put\<close>.
\<close>

definition stored_as ::
  "('b, 'v, 'd, 'z) svc_host_scheme \<Rightarrow> 'b store \<Rightarrow> string \<Rightarrow> string \<Rightarrow> bool" where
  "stored_as H u data root \<longleftrightarrow> merkle_root H data = Inr root
     \<and> content_of H u root = Some (sha256_hex H data, int (length data))"

definition accepted :: "svc_config \<Rightarrow> reader \<Rightarrow> string \<Rightarrow> bool" where
  "accepted G r data \<longleftrightarrow> data = rd_data r \<and> data \<noteq> [] \<and> (MaxSize G \<le> 0 \<or> int (length data) \<le> MaxSize G)"

definition describes ::
  "('b, 'v, 'd, 'z) svc_host_scheme \<Rightarrow> object_meta \<Rightarrow> string \<Rightarrow> bool" where
  "describes H m data \<longleftrightarrow> SHA256 m = sha256_hex H data \<and> Size m = int (length data)"

fun put_from ::
  "('b, 'v, 'd, 'z) svc_host_scheme \<Rightarrow> svc_config \<Rightarrow> reader \<Rightarrow> 'b store \<Rightarrow> pc \<Rightarrow> bool" where
  "put_from H G r u (PutSpool r' fn ct) = (r' = r)"
| "put_from H G r u (PutLookup tmp data fn ct) = accepted G r data"
| "put_from H G r u (PutFile tmp data fn ct) = accepted G r data"
| "put_from H G r u (PutCreate root data fn ct) = (accepted G r data \<and> merkle_root H data = Inr root)"
| "put_from H G r u (PutStat tmp m) =
     (accepted G r (rd_data r) \<and> stored_as H u (rd_data r) (Root m) \<and> describes H m (rd_data r))"
| "put_from H G r u (PutSalvage tmp m) = (accepted G r (rd_data r) \<and> stored_as H u (rd_data r) (Root m))"
| "put_from H G r u (PutRequeue m) = (accepted G r (rd_data r) \<and> stored_as H u (rd_data r) (Root m))"
| "put_from H G r u (PutRetry tmp m) = (accepted G r (rd_data r) \<and> stored_as H u (rd_data r) (Root m))"
| "put_from H G r u (PutRetried root) = (accepted G r (rd_data r) \<and> stored_as H u (rd_data r) root)"
| "put_from H G r u (PutRead root dup) = (accepted G r (rd_data r) \<and> stored_as H u (rd_data r) root)"
| "put_from H G r u (PutDone (Inl e)) = True"
| "put_from H G r u (PutDone (Inr (m, dup))) = (closed u \<and> dup \<and> m = zero_meta
     \<or> accepted G r (rd_data r) \<and> stored_as H u (rd_data r) (Root m) \<and> describes H m (rd_data r))"
| "put_from H G r u (Account n k) = put_from H G r u k"
| "put_from H G r u (Evict e k) = put_from H G r u k"
| "put_from H G r u p = False"

lemma put_from_kept:
  assumes "put_from H G r u p" and "db_kept H u v" and "closed u \<longrightarrow> closed v"
  shows "put_from H G r v p"
  using assms
proof (induction p)
  case (PutDone x)
  then show ?case by (cases x) (auto simp: stored_as_def db_kept_def)
qed (auto simp: stored_as_def db_kept_def)

lemma put_spool_accepted:
  assumes "put_spool H G s r = (t, Inr (tmp, data))" and "MaxSize G < 2 ^ 63"
  shows "accepted G r data"
proof -
  define src where "src = (if 0 < MaxSize G then limit_reader r (int64 (MaxSize G + 1)) else r)"
  define name where "name = temp_name H (map fst (tmps s)) (tick s)"
  define s2 where "s2 = s\<lparr>tick := Suc (tick s), tmps := dir_put (tmps s) name (RegFile [])\<rparr>"
  obtain s3 y where cp: "io_copy H s2 name src = (s3, y)" by force
  have none: "os_fault H (tick s) = None"
    using assms(1) by (auto simp: put_spool_def os_call_def split: option.splits)
  have run: "(t, Inr (tmp, data)) = (case y of Inl e \<Rightarrow> (remove_tmp H s3 name, Inl e)
               | Inr data \<Rightarrow>
                   if int (length data) = 0 then (remove_tmp H s3 name, Inl ErrEmpty)
                   else if 0 < MaxSize G \<and> MaxSize G < int (length data) then (remove_tmp H s3 name, Inl ErrTooLarge)
                   else (s3, Inr (name, data)))"
    using assms(1) [symmetric] none cp
    by (cases y) (simp_all add: put_spool_def os_call_def Let_def name_def [symmetric] s2_def [symmetric] src_def [symmetric])
  then obtain d where y: "y = Inr d" by (cases y) simp_all
  then have "data = d" "data \<noteq> []" "MaxSize G \<le> 0 \<or> int (length data) \<le> MaxSize G"
    using run by (auto split: if_splits)
  moreover from this y have "data = rd_data src" using io_copy_data cp by metis
  ultimately show ?thesis
    using take_copied [OF _ _ _ assms(2), of data r] by (auto simp: accepted_def src_def split: if_splits)
qed

lemma evict_step_goes:
  "evict_step H G s e k = (t, q) \<Longrightarrow> q = k \<or> (\<exists>e'. q = Evict e' k)"
  by (induction H G s e k rule: evict_step.induct)
    (auto simp: os_call_def split: if_splits option.splits sum.splits fnode.splits)

section \<open>One step of an upload\<close>

lemma Get_open:
  assumes "con_ok H l s" and "\<not> closed (sv_store s)"
  shows "Get H (sv_store s) root = Inr (meta_at H (sv_store s) root)"
  using Get_decodable [of H "sv_store s" root] con_okD(1) [OF assms(1)] assms(2)
  by (simp add: store_inv_def meta_inv_decodable)

lemma get_record_failed: "con_ok H l s \<Longrightarrow> get_record H s root = Inl e \<Longrightarrow> closed (sv_store s)"
  using Get_open [of H l s root] by (cases "closed (sv_store s)") (auto simp: get_record_def split: option.splits)

context collision_free
begin

lemma get_record_known:
  assumes "con_ok H l s" and "stored_as H (sv_store s) data root" and "get_record H s root = Inr m"
  shows "Root m = root \<and> describes H m data"
proof -
  have "\<not> closed (sv_store s)"
    using assms(3) by (auto simp: get_record_def Get_def db_view_def split: if_splits)
  from Get_open [OF assms(1) this, of root] have "Get H (sv_store s) root = Inr (Some m)"
    using assms(2,3) by (auto simp: get_record_def stored_as_def content_of_def split: option.splits)
  then have "known_as H s root m" by (rule Get_known [OF assms(1)])
  then show ?thesis using assms(2) by (simp add: known_as_def stored_as_def describes_def)
qed

lemma looked_up:
  assumes ok: "con_ok H l s" and run: "BySHA256 H (sv_store s) (sha256_hex H data) = Inr (Some m)"
  shows "stored_as H (sv_store s) data (Root m) \<and> describes H m data"
proof -
  have m: "meta_at H (sv_store s) (Root m) = Some m" "SHA256 m = sha256_hex H data"
    using BySHA256_read(1) [OF con_okD(1) [OF ok] run refl] by simp_all
  then have c: "content_of H (sv_store s) (Root m) = Some (sha256_hex H data, Size m)" by (simp add: content_of_def)
  then obtain b where b: "sha256_hex H b = sha256_hex H data" "int (length b) = Size m"
    using con_okD(3) [OF ok] by blast
  then have "b = data" using sha_inj by blast
  then show ?thesis using lookup_root [OF ok run] c m(2) b(2) by (simp add: stored_as_def describes_def)
qed

text \<open>What is on record under the root of the bytes describes the bytes.\<close>

lemma recorded_bytes:
  assumes "con_ok H l s" and "merkle_root H data = Inr root" and "meta_at H (sv_store s) root \<noteq> None"
  shows "stored_as H (sv_store s) data root"
proof -
  obtain m where "meta_at H (sv_store s) root = Some m" using assms(3) by auto
  then have c: "content_of H (sv_store s) root = Some (SHA256 m, Size m)" by (simp add: content_of_def)
  then obtain b where b: "sha256_hex H b = SHA256 m" "int (length b) = Size m" "merkle_root H b = Inr root"
    using con_okD(3) [OF assms(1)] by blast
  then have "b = data" using root_inj assms(2) by blast
  then show ?thesis using b c assms(2) by (simp add: stored_as_def)
qed

lemma created:
  assumes ok: "con_ok H l s" and root: "merkle_root H data = Inr root"
    and run: "CreateObject H (sv_store s) (new_meta H root data fn ct) = (u, x)"
    and x: "x = Inr () \<or> (\<exists>e. x = Inl e \<and> errors_is e ErrExists)"
  shows "stored_as H u data root"
  using run
proof (cases rule: CreateObject_cases)
  case (failed e)
  then have er: "errors_is e ErrExists" using x by simp
  have "meta_inv H (sv_store s)" using con_okD(1) [OF ok] by (simp add: store_inv_def)
  then have "meta_at H (sv_store s) root \<noteq> None"
    using CreateObject_exists [OF run [unfolded failed(1)] er] meta_inv_stored [of H "sv_store s" root]
    by (simp add: new_meta_def)
  moreover have "meta_at H u = meta_at H (sv_store s)"
    using failed(2) by (intro meta_at_cong) (simp add: same_data_def)
  ultimately show ?thesis
    using recorded_bytes [OF ok root] by (simp add: stored_as_def content_of_def)
next
  case (ok m2)
  have "meta_at H u root = Some (json_meta m2)" using meta_at_wrote [OF ok(4)] ok(3) by (simp add: new_meta_def)
  then show ?thesis using ok(3) root sha_ascii by (simp add: stored_as_def content_of_def new_meta_def)
qed

lemma put_from_step:
  assumes ok: "con_ok H l s" and pc: "pc_ok H l s p" and run: "thread_step H G s p = (t, q)"
    and size: "MaxSize G < 2 ^ 63" and pf: "put_from H G r (sv_store s) p"
  shows "put_from H G r (sv_store t) q"
proof -
  have kept: "db_kept H (sv_store s) (sv_store t)"
    using thread_step_ok [OF ok pc run] by (auto simp: step_ok_def rely_def db_kept_def)
  have shut: "closed (sv_store s) \<longrightarrow> closed (sv_store t)" using thread_step_closed [OF pc run] by blast
  have later: "put_from H G r (sv_store t) q" if "put_from H G r (sv_store s) q"
    by (rule put_from_kept [OF that kept shut])
  show ?thesis
  proof (cases p)
    case (PutSpool r' fn ct)
    then show ?thesis
      using run pf put_spool_accepted [of H G s r t _ _, OF _ size] by (auto split: sum.splits prod.splits)
  next
    case (PutLookup tmp data fn ct)
    then show ?thesis
      using run pf looked_up [OF ok, of data]
      by (intro later) (auto simp: accepted_def split: sum.splits option.splits)
  next
    case (PutStat tmp m)
    then show ?thesis using run pf by (intro later) (auto split: if_splits prod.splits)
  next
    case (PutSalvage tmp m)
    then show ?thesis using run pf by (intro later) (auto split: option.splits prod.splits)
  next
    case (PutRequeue m)
    then show ?thesis using run pf by (intro later) (auto split: sum.splits prod.splits)
  next
    case (PutRetry tmp m)
    then show ?thesis using run pf by (intro later) (auto simp: Let_def split: sum.splits prod.splits)
  next
    case (PutRetried root)
    then have st: "t = s" "stored_as H (sv_store s) (rd_data r) root" "accepted G r (rd_data r)"
      using run pf by simp_all
    show ?thesis
    proof (cases "get_record H s root")
      case (Inl e)
      then show ?thesis using run PutRetried get_record_failed [OF ok Inl] by auto
    next
      case (Inr m)
      then show ?thesis using run PutRetried st get_record_known [OF ok st(2) Inr] by auto
    qed
  next
    case (PutFile tmp data fn ct)
    have tmp: "map_of (tmps s) tmp = Some (RegFile data)" using pc PutFile by simp
    obtain x where x: "put_file H s tmp data = (t, x)"
      using run PutFile by (auto split: prod.splits sum.splits)
    from x tmp show ?thesis
      by (cases rule: put_file_cases) (use run pf PutFile x in auto)
  next
    case (PutCreate root data fn ct)
    obtain u x where u: "CreateObject H (sv_store s) (new_meta H root data fn ct) = (u, x)" by force
    have t: "t = s\<lparr>sv_store := u\<rparr>"
      and q: "(\<exists>e. q = PutDone (Inl e)) \<or> (\<exists>dup. q = PutRead root dup
        \<and> (x = Inr () \<or> (\<exists>e. x = Inl e \<and> errors_is e ErrExists)))"
      using run PutCreate u by (auto simp: with_store_def split: sum.splits if_splits)
    have "accepted G r data" "merkle_root H data = Inr root" using pf PutCreate by simp_all
    then show ?thesis using q created [OF ok _ u] t by (auto simp: accepted_def)
  next
    case (PutRead root dup)
    then have st: "t = s" "stored_as H (sv_store s) (rd_data r) root" "accepted G r (rd_data r)"
      using run pf by simp_all
    then show ?thesis
      using run PutRead get_record_known [OF ok st(2)] by (cases "get_record H s root") auto
  next
    case (Account n k)
    then show ?thesis using run pf by (intro later) (auto split: if_splits)
  next
    case (Evict e k)
    then show ?thesis using run pf evict_step_goes [of H G s e k t q] by (intro later) auto
  qed (use run pf in \<open>auto intro: later\<close>)
qed

text \<open>
  Why \<open>put_from\<close> has a second case at the end: the branch for failed content drops the error of its
  last \<open>Get\<close> (service.go:296), so an upload whose database is closed in between is answered with the
  zero record and no error.
\<close>

lemma retried_get_error_dropped:
  "closed (sv_store s) \<Longrightarrow> thread_step H G s (PutRetried root) = (s, PutDone (Inr (zero_meta, True)))"
  by (simp add: get_record_def Get_def db_view_def)

text \<open>The upload in any run without a crash.\<close>

lemma put_from_run:
  assumes "(live_step H G)\<^sup>*\<^sup>* (l, s, ps) (l', t, qs)" and inv: "con_inv H (l, s, ps)"
    and i: "i < length ps" and size: "MaxSize G < 2 ^ 63" and pf: "put_from H G r (sv_store s) (ps ! i)"
  shows "con_inv H (l', t, qs) \<and> i < length qs \<and> put_from H G r (sv_store t) (qs ! i)"
  using assms(1)
proof (induction "(l', t, qs)" arbitrary: l' t qs rule: rtranclp_induct)
  case (step c)
  obtain k u rs where c: "c = (k, u, rs)" by (metis prod_cases3)
  have IH: "con_inv H (k, u, rs)" "i < length rs" "put_from H G r (sv_store u) (rs ! i)"
    using step.hyps(3) c by blast+
  have st: "live_step H G (k, u, rs) (l', t, qs)" using step.hyps(2) c by simp
  then have con: "con_step H G (k, u, rs) (l', t, qs)" by (simp add: live_step_def)
  note own = live_step_thread [OF st IH(2)]
  have "put_from H G r (sv_store t) (qs ! i)"
    using own(2)
  proof
    assume same: "qs ! i = rs ! i"
    have "closed (sv_store u) \<longrightarrow> closed (sv_store t)"
      using live_step_closed [OF st IH(1)] IH(2) by fastforce
    then show ?thesis using put_from_kept [OF IH(3) con_step_kept [OF con IH(1)]] same by simp
  next
    assume mine: "l' = k \<and> thread_step H G u (rs ! i) = (t, qs ! i)"
    show ?thesis
      by (rule put_from_step [OF con_invD(1) [OF IH(1)] con_invD(2) [OF IH(1)] _ size IH(3)]) (use mine IH(2) in simp_all)
  qed
  then show ?case using con_step_inv [OF con IH(1)] own(1) by blast
qed (use inv i pf in simp)

end

section \<open>A read\<close>

fun open_from :: "string \<Rightarrow> pc \<Rightarrow> bool" where
  "open_from root (OpenLookup r) = (r = root)"
| "open_from root (OpenLocal r m) = (r = root \<and> Root m = root)"
| "open_from root (OpenTouch r m x) = (Root m = root)"
| "open_from root (OpenRestore r m) = (r = root \<and> Root m = root)"
| "open_from root (OpenFile r m) = (r = root \<and> Root m = root)"
| "open_from root (OpenMark r m x) = (Root m = root)"
| "open_from root (OpenDone (Inl e)) = True"
| "open_from root (OpenDone (Inr (x, m))) = (Root m = root)"
| "open_from root (Account n k) = open_from root k"
| "open_from root (Evict e k) = open_from root k"
| "open_from root p = False"

context collision_free
begin

lemma open_from_step:
  assumes ok: "con_ok H l s" and run: "thread_step H G s p = (t, q)" and pf: "open_from root p"
  shows "open_from root q"
proof (cases p)
  case (OpenLookup r)
  then show ?thesis
    using run pf Get_known [OF ok, of root] by (auto simp: known_as_def split: sum.splits option.splits)
next
  case (Account n k)
  then show ?thesis using run pf by (auto split: if_splits)
next
  case (Evict e k)
  then show ?thesis using run pf evict_step_goes [of H G s e k t q] by auto
next
  case (OpenLocal r m)
  then show ?thesis using run pf by (auto split: sum.splits option.splits prod.splits)
next
  case (OpenRestore r m)
  then show ?thesis using run pf by (auto split: sum.splits prod.splits)
next
  case (OpenFile r m)
  then show ?thesis using run pf by (auto split: option.splits prod.splits)
qed (use run pf in auto)

lemma open_from_run:
  assumes "(live_step H G)\<^sup>*\<^sup>* (l, s, ps) (l', t, qs)" and inv: "con_inv H (l, s, ps)"
    and i: "i < length ps" and pf: "open_from root (ps ! i)"
  shows "con_inv H (l', t, qs) \<and> i < length qs \<and> open_from root (qs ! i)"
  using assms(1)
proof (induction "(l', t, qs)" arbitrary: l' t qs rule: rtranclp_induct)
  case (step c)
  obtain k u rs where c: "c = (k, u, rs)" by (metis prod_cases3)
  have IH: "con_inv H (k, u, rs)" "i < length rs" "open_from root (rs ! i)"
    using step.hyps(3) c by blast+
  have st: "live_step H G (k, u, rs) (l', t, qs)" using step.hyps(2) c by simp
  then have con: "con_step H G (k, u, rs) (l', t, qs)" by (simp add: live_step_def)
  note own = live_step_thread [OF st IH(2)]
  have "open_from root (qs ! i)"
    using own(2) open_from_step [OF con_invD(1) [OF IH(1)] _ IH(3)] IH(3) by auto
  then show ?case using con_step_inv [OF con IH(1)] own(1) by blast
qed (use inv i pf in simp)

text \<open>A read of an object that the database has the bytes of returns a file with the bytes.\<close>

lemma open_run_bytes:
  assumes inv: "con_inv H (l, s, ps)" and run: "(live_step H G)\<^sup>*\<^sup>* (l, s, ps) (l', t, qs)"
    and i: "i < length ps" "ps ! i = OpenLookup root" and fin: "qs ! i = OpenDone (Inr (x, m))"
    and data: "merkle_root H data = Inr root"
  shows "x = RegFile data \<and> Root m = root"
proof -
  have q: "con_inv H (l', t, qs)" "i < length qs" "open_from root (qs ! i)"
    using open_from_run [OF run inv i(1), of root] i(2) by simp_all
  then have "Root m = root" using fin by simp
  moreover have "pc_ok H l' t (qs ! i)" using con_invD(2) [OF q(1)] q(2) by simp
  then obtain b where "x = RegFile b" "merkle_root H b = Inr (Root m)"
    using fin by (auto simp: right_bytes_def)
  ultimately show ?thesis using root_inj data by blast
qed

end

end
