(* ===== verification/Concurrent_Run.thy ===== *)
theory Concurrent_Run
  imports Concurrent_Put
begin

text \<open>
  How the interleavings of \<open>Concurrent\<close> relate to the runs of \<open>Gateway\<close>, where a request is one
  step: a request that no other step interrupts does what its function does, so every run of the
  gateway is an interleaving.
\<close>

section \<open>Schedules\<close>

text \<open>A schedule is the list of the threads that take the next steps.\<close>

fun con_run ::
  "('b, 'v, 'd, 'z) svc_host_scheme \<Rightarrow> svc_config \<Rightarrow> nat list \<Rightarrow> ('b, 'd) svc \<times> pc list
     \<Rightarrow> ('b, 'd) svc \<times> pc list" where
  "con_run H G [] c = c"
| "con_run H G (i # is) (s, ps) =
     (if i < length ps
      then (case thread_step H G s (ps ! i) of (t, q) \<Rightarrow> con_run H G is (t, ps[i := q]))
      else con_run H G is (s, ps))"

lemma con_run_steps: "con_run H G is (s, ps) = (t, qs) \<Longrightarrow> (con_step H G)\<^sup>*\<^sup>* (l, s, ps) (l, t, qs)"
proof (induction "is" arbitrary: s ps)
  case (Cons i "is")
  show ?case
  proof (cases "i < length ps")
    case True
    obtain u q where st: "thread_step H G s (ps ! i) = (u, q)" by force
    have "con_step H G (l, s, ps) (l, u, ps[i := q])" by (rule con_thread [OF True st])
    moreover have "(con_step H G)\<^sup>*\<^sup>* (l, u, ps[i := q]) (l, t, qs)"
      using Cons True st by simp
    ultimately show ?thesis by (rule converse_rtranclp_into_rtranclp)
  qed (use Cons in simp)
qed simp

lemma con_run_append: "con_run H G (is @ js) c = con_run H G js (con_run H G is c)"
proof (induction "is" arbitrary: c)
  case (Cons i "is")
  then show ?case by (cases c) (simp split: prod.split)
qed simp

section \<open>Requests that nothing interrupts\<close>

lemma live_alone:
  assumes "alone H G (s, p) (t, q)" and "i < length ps" and "ps ! i = p"
  shows "(live_step H G)\<^sup>*\<^sup>* (l, s, ps) (l, t, ps[i := q])"
  using assms(1)
proof (induction "(t, q)" arbitrary: t q rule: rtranclp_induct)
  case base
  then show ?case using assms(2,3) by (metis list_update_id rtranclp.rtrancl_refl)
next
  case (step y)
  obtain u r where y: "y = (u, r)" by force
  have "thread_step H G u (ps[i := r] ! i) = (t, q)" using step.hyps(2) assms(2) by (simp add: y thread_rel_def)
  then have "con_step H G (l, u, ps[i := r]) (l, t, ps[i := r, i := q])"
    by (intro con_thread) (use assms(2) in simp)
  then have "live_step H G (l, u, ps[i := r]) (l, t, ps[i := q])" by (simp add: live_step_def)
  with step.hyps(3) [OF y] show ?case by (rule rtranclp.rtrancl_into_rtrancl)
qed

lemma con_alone:
  "alone H G (s, p) (t, q) \<Longrightarrow> i < length ps \<Longrightarrow> ps ! i = p \<Longrightarrow>
   (con_step H G)\<^sup>*\<^sup>* (l, s, ps) (l, t, ps[i := q])"
  by (rule live_run_steps [OF live_alone])

lemma con_request_alone:
  assumes "request_pc p" and "alone H G (s, p) (t, q)"
  shows "(con_step H G)\<^sup>*\<^sup>* (l, s, ps) (l, t, ps @ [q])"
proof -
  have "con_step H G (l, s, ps) (l, s, ps @ [p])" by (rule con_request [OF assms(1)])
  moreover have "(con_step H G)\<^sup>*\<^sup>* (l, s, ps @ [p]) (l, t, (ps @ [p])[length ps := q])"
    by (rule con_alone [OF assms(2)]) simp_all
  ultimately show ?thesis by (simp add: converse_rtranclp_into_rtranclp)
qed

text \<open>The worker's pass is a sequence of its writes, under a log that has the answers.\<close>

lemma con_touched:
  assumes "touched H R l (sv_store s) t"
  shows "(con_step H G)\<^sup>*\<^sup>* (l, s, ps) (l, s\<lparr>sv_store := t\<rparr>, ps)"
  using assms
proof (induction "sv_store s" t rule: touched.induct)
  case (touched_step t p u x)
  have "worker_op UNIV l p" by (rule worker_op_mono [OF touched_step.hyps(3)]) simp_all
  then have "con_step H G (l, s\<lparr>sv_store := t\<rparr>, ps) (l, s\<lparr>sv_store := t\<rparr>\<lparr>sv_store := u\<rparr>, ps)"
    using touched_step.hyps(4) by (intro con_worker [where p = p and x = x]) simp_all
  with touched_step.hyps(2) show ?case by (simp add: rtranclp.rtrancl_into_rtrancl)
qed simp

lemma con_worker_pass:
  assumes "touched H R new (sv_store s) t"
  shows "(con_step H G)\<^sup>*\<^sup>* (l, s, ps) (l @ new, s\<lparr>sv_store := t\<rparr>, ps)"
proof -
  have "touched H R (l @ new) (sv_store s) t" by (rule touched_mono [OF assms]) simp_all
  then have "(con_step H G)\<^sup>*\<^sup>* (l @ new, s, ps) (l @ new, s\<lparr>sv_store := t\<rparr>, ps)" by (rule con_touched)
  then show ?thesis using con_chain by (rule converse_rtranclp_into_rtranclp [rotated])
qed

section \<open>Every run of the gateway is an interleaving\<close>

context collision_free
begin

lemma gw_step_con:
  assumes "gw_step H C W G ((c, l), v) ((c', l'), v')" and inv: "svc_inv H v"
  shows "\<exists>qs. (con_step H G)\<^sup>*\<^sup>* (l, v, ps) (l', v', qs)"
  using assms(1)
proof cases
  case (gw_put r filename contentType x)
  then show ?thesis using con_request_alone [OF _ put_alone] by fastforce
next
  case (gw_open root y)
  then show ?thesis using con_request_alone [OF _ open_alone] by fastforce
next
  case (gw_admit reject)
  then show ?thesis using con_request_alone [OF _ admit_alone] by fastforce
next
  case (gw_index p t z)
  then have "con_step H G (l, v, ps) (l', v', ps)" by (auto intro: con_index)
  then show ?thesis by (blast intro: r_into_rtranclp)
next
  case (gw_flush t e)
  show ?thesis
  proof (cases "closed (sv_store v)")
    case True
    then have "t = sv_store v" "l' = l"
      using gw_flush(2) by (auto simp: Flush_def UploadQueue_def listQueue_def db_view_def)
    then show ?thesis using gw_flush(1) by auto
  next
    case False
    obtain ms :: "object_meta list" and c1 l1 s1 e1 where
      f: "Flush H (logged C) W ((c, l), sv_store v) = Some (((c1, l1), s1), e1)"
      and "flush_done H W (sv_store v) l (map Root ms) l1 s1"
      using Flush_calls [OF svc_invD(1) [OF inv] False gw_flush(3), of C c l] by blast
    then obtain new where "touched H (set (map Root ms)) new (sv_store v) s1" "l1 = l @ new"
      by (auto simp: flush_done_def)
    then show ?thesis using con_worker_pass [of H _ new v s1 G l ps] f gw_flush(1,2) by auto
  qed
next
  case (gw_poll t e)
  obtain d new u e1 where p: "PollFinality H (logged C) ((c, l), sv_store v) = (((d, l @ new), u), e1)"
    and "touched H {r. \<exists>m. meta_at H (sv_store v) r = Some m \<and> Status m = StatusOnchain} new (sv_store v) u"
    using PollFinality_calls [OF svc_invD(1) [OF inv], of C c l] by blast
  then show ?thesis using con_worker_pass [of H _ new v u G l ps] gw_poll(1,2) by auto
next
  case (gw_restart u)
  then have "con_step H G (l, v, ps) (l', v', [])" by (auto intro: con_restart)
  then show ?thesis by (blast intro: r_into_rtranclp)
next
  case gw_tick
  then have "con_step H G (l, v, ps) (l', v', ps)" by (auto intro: con_tick)
  then show ?thesis by (blast intro: r_into_rtranclp)
qed

lemma gw_run_con:
  assumes "(gw_step H C W G)\<^sup>*\<^sup>* cv cw" and "svc_inv H (snd cv)"
  shows "\<exists>qs. (con_step H G)\<^sup>*\<^sup>* (snd (fst cv), snd cv, []) (snd (fst cw), snd cw, qs)"
  using assms(1)
proof (induction rule: rtranclp_induct)
  case (step x y)
  obtain qs where run: "(con_step H G)\<^sup>*\<^sup>* (snd (fst cv), snd cv, []) (snd (fst x), snd x, qs)"
    using step.IH by blast
  have "svc_inv H (snd x)" using gw.inv_run [OF step.hyps(1)] assms(2) by blast
  then obtain rs where "(con_step H G)\<^sup>*\<^sup>* (snd (fst x), snd x, qs) (snd (fst y), snd y, rs)"
    using gw_step_con [of C W G "fst (fst x)" "snd (fst x)" "snd x" "fst (fst y)" "snd (fst y)" "snd y" qs]
      step.hyps(2) by auto
  with run show ?case by (meson rtranclp_trans)
qed auto

lemma gw_reachable_con:
  assumes "gw_reachable H C W G ((c, l), v)"
  shows "\<exists>qs. con_reachable H G (l, v, qs)"
proof -
  obtain cv0 where cv0: "gw_start H cv0" "(gw_step H C W G)\<^sup>*\<^sup>* cv0 ((c, l), v)"
    using assms by (auto simp: gw_reachable_def)
  have "con_start H (snd (fst cv0), snd cv0, [])" using cv0(1) by (simp add: gw_start_def con_start_def)
  moreover obtain qs where "(con_step H G)\<^sup>*\<^sup>* (snd (fst cv0), snd cv0, []) (l, v, qs)"
    using gw_run_con [OF cv0(2) gw_start_inv [OF cv0(1)]] by auto
  ultimately show ?thesis unfolding con_reachable_def by blast
qed

end

end
