(* ===== verification/Concurrent_Example.thy ===== *)
theory Concurrent_Example
  imports Concurrent_Run Gateway_Example
begin

text \<open>
  Runs of the interleaving semantics on the reference host, and two races between requests that
  they show: identical uploads are counted twice, and an upload that acts on a record it read
  before the worker finalized the object undoes that status.
\<close>

section \<open>The sequential run\<close>

lemma cx_start: "con_reachable gx_host G ([], gx_start, [])"
  by (rule con_reachable_start) (simp add: con_start_def gx_start_def gx_store_start)

lemma cx_stored: "con_reachable gx_host gx_config ([], gx_stored, [PutDone (Inr (gx_meta, False))])"
proof (rule con_reachable_run [OF cx_start])
  show "(con_step gx_host gx_config)\<^sup>*\<^sup>* ([], gx_start, []) ([], gx_stored, [PutDone (Inr (gx_meta, False))])"
    using con_request_alone [OF _ put_alone [OF gx_stored_put], of "[]" "[]"] by simp
qed

lemma cx_read:
  "con_reachable gx_host gx_config ([], gx_stored\<lparr>tick := 8\<rparr>,
     [PutDone (Inr (gx_meta, False)), OpenDone (Inr (RegFile ''abc'', gx_meta))])"
proof (rule con_reachable_run [OF cx_stored])
  show "(con_step gx_host gx_config)\<^sup>*\<^sup>* ([], gx_stored, [PutDone (Inr (gx_meta, False))])
     ([], gx_stored\<lparr>tick := 8\<rparr>, [PutDone (Inr (gx_meta, False)), OpenDone (Inr (RegFile ''abc'', gx_meta))])"
    using con_request_alone [OF _ open_alone [OF gx_open], of "[]" "[PutDone (Inr (gx_meta, False))]"] by simp
qed

section \<open>Two identical uploads at once\<close>

definition cx_put :: pc where
  "cx_put = PutSpool gx_body ''f'' ''t''"

lemma cx_requested: "(con_step gx_host G)\<^sup>*\<^sup>* ([], gx_start, []) ([], gx_start, [cx_put])"
  using con_request [of cx_put gx_host G "[]" gx_start "[]"] by (simp add: cx_put_def r_into_rtranclp)

definition cx_moved :: "((string \<times> bval) list, (string \<times> string) list) svc" where
  "cx_moved = gx_start\<lparr>objs := [(gx_root, RegFile ''abc'')], tick := 10\<rparr>"

definition cx_create :: pc where
  "cx_create = PutCreate gx_root ''abc'' ''f'' ''t''"

definition cx_account :: pc where
  "cx_account = Account 3 cx_create"

definition cx_twice :: "((string \<times> bval) list, (string \<times> string) list) svc" where
  "cx_twice = gx_stored\<lparr>sv_store := (sv_store gx_stored)\<lparr>txn := 3\<rparr>, cacheBytes := 6, tick := 10\<rparr>"

lemmas cx_eval = gx_eval gx_start_def gx_config_def gx_body_def gx_meta_def ex_start_def store_eval
  put_spool_def put_file_def new_meta_def FinalizedCacheEntries_def alist_entries_def cx_put_def
  cx_create_def cx_account_def cx_moved_def

text \<open>Both miss in the hash index, and both rename their spool file to the same cache file.\<close>

lemma cx_both_moved:
  "con_run gx_host gx_config [0, 1, 0, 1, 0, 1] (gx_start, [cx_put, cx_put]) = (cx_moved, [cx_account, cx_account])"
  by (simp add: cx_eval)

text \<open>Both add the size of the file to the counter.\<close>

lemma cx_both_counted:
  "con_run gx_host gx_config [0, 0, 1, 1, 1, 1, 1, 1] (cx_moved, [cx_account, cx_account])
   = (cx_moved\<lparr>cacheBytes := 6\<rparr>, [cx_create, cx_create])"
  by (simp add: cx_eval)

lemma cx_both_created:
  "con_run gx_host gx_config [0, 1, 0, 1]
     (cx_moved\<lparr>cacheBytes := 6\<rparr>, [cx_create, cx_create])
   = (cx_twice, [PutDone (Inr (gx_meta, False)), PutDone (Inr (gx_meta, True))])"
  by (simp add: cx_eval cx_twice_def gx_stored_eq)

lemma cx_counted_twice:
  "con_reachable gx_host gx_config ([], cx_twice,
     [PutDone (Inr (gx_meta, False)), PutDone (Inr (gx_meta, True))])"
proof (rule con_reachable_run [OF cx_start])
  have "con_step gx_host gx_config ([], gx_start, []) ([], gx_start, [cx_put])"
    using con_request [of cx_put gx_host gx_config "[]" gx_start "[]"] by (simp add: cx_put_def)
  moreover have "con_step gx_host gx_config ([], gx_start, [cx_put]) ([], gx_start, [cx_put, cx_put])"
    using con_request [of cx_put gx_host gx_config "[]" gx_start "[cx_put]"] by (simp add: cx_put_def)
  moreover have "(con_step gx_host gx_config)\<^sup>*\<^sup>* ([], gx_start, [cx_put, cx_put])
      ([], cx_twice, [PutDone (Inr (gx_meta, False)), PutDone (Inr (gx_meta, True))])"
    by (rule con_run_steps [of _ _ "[0, 1, 0, 1, 0, 1] @ [0, 0, 1, 1, 1, 1, 1, 1] @ [0, 1, 0, 1]"])
      (simp only: con_run_append cx_both_moved cx_both_counted cx_both_created)
  ultimately show "(con_step gx_host gx_config)\<^sup>*\<^sup>* ([], gx_start, [])
      ([], cx_twice, [PutDone (Inr (gx_meta, False)), PutDone (Inr (gx_meta, True))])"
    by (blast intro: converse_rtranclp_into_rtranclp)
qed

text \<open>
  The counter stays wrong after both uploads are done: the cache holds three bytes under a limit
  of four, the counter says six, and the next write is refused.
\<close>

lemma concurrent_uploads_counted_twice:
  "\<exists>l s ps. con_reachable gx_host gx_config (l, s, ps) \<and> (\<forall>p \<in> set ps. finished p)
     \<and> dir_bytes (objs s) = 3 \<and> CacheMaxBytes gx_config = 4 \<and> cacheBytes s = 6
     \<and> snd (ShouldRejectWrite gx_host gx_config s)"
proof -
  have "FinalizedCacheEntries gx_host (sv_store cx_twice) = Inr []"
    by (simp add: cx_eval cx_twice_def gx_stored_eq)
  moreover have "sort_lru gx_host [] = []" "CacheMaxBytes gx_config = 4" "cacheBytes cx_twice = 6"
    by (simp_all add: gx_host_def ref_svc_def gx_config_def cx_twice_def)
  ultimately have "snd (ShouldRejectWrite gx_host gx_config cx_twice)"
    by (simp add: ShouldRejectWrite_def evictIfNeeded_def Let_def)
  moreover have "dir_bytes (objs cx_twice) = 3" by (simp add: cx_twice_def gx_stored_eq)
  ultimately show ?thesis
    using cx_counted_twice by (intro exI conjI) (assumption | simp add: gx_config_def cx_twice_def)+
qed

section \<open>An upload that acts on a stale record\<close>

text \<open>
  A cache of two bytes. One upload has stored the object; a second upload of the same bytes reads
  its record; then the chain finalizes the object and the worker records it.
\<close>

definition cx_small :: svc_config where
  "cx_small = gx_config\<lparr>CacheMaxBytes := 2\<rparr>"

definition cx_spooled :: "((string \<times> bval) list, (string \<times> string) list) svc" where
  "cx_spooled = gx_stored\<lparr>tmps := [(''spool-'', RegFile ''abc'')], tick := 7\<rparr>"

lemma cx_small_put: "Put gx_host cx_small gx_start gx_body ''f'' ''t'' = (gx_stored, Inr (gx_meta, False))"
  by (simp add: Put_def Put_fresh_def cx_eval cx_small_def gx_stored_eq)

lemma cx_small_stored: "con_reachable gx_host cx_small ([], gx_stored, [PutDone (Inr (gx_meta, False))])"
proof (rule con_reachable_run [OF cx_start])
  show "(con_step gx_host cx_small)\<^sup>*\<^sup>* ([], gx_start, []) ([], gx_stored, [PutDone (Inr (gx_meta, False))])"
    using con_request_alone [OF _ put_alone [OF cx_small_put], of "[]" "[]"] by simp
qed

lemma cx_looked_up:
  "con_run gx_host cx_small [1, 1] (gx_stored, [PutDone (Inr (gx_meta, False)), cx_put])
   = (cx_spooled, [PutDone (Inr (gx_meta, False)), PutStat ''spool-'' gx_meta])"
  by (simp add: cx_eval cx_small_def cx_spooled_def gx_stored_eq)

definition cx_finalized :: "(string \<times> bval) list store" where
  "cx_finalized = fst (SetStatus gx_host (sv_store gx_stored) gx_root StatusFinalized [] [])"

text \<open>
  The admission of some write reclaims space: the file of the now finalized object goes. The
  second upload finds it missing, puts it back, and its own accounting evicts it again before it
  requeues the object.
\<close>

definition cx_reclaimed :: "((string \<times> bval) list, (string \<times> string) list) svc" where
  "cx_reclaimed = cx_spooled\<lparr>sv_store := cx_finalized, objs := [], cacheBytes := 0, tick := 9\<rparr>"

lemma cx_reclaim:
  "ShouldRejectWrite gx_host cx_small (cx_spooled\<lparr>sv_store := cx_finalized\<rparr>) = (cx_reclaimed, False)"
proof -
  have "FinalizedCacheEntries gx_host cx_finalized
      = Inr [\<lparr>CERoot = gx_root, CESize = 3, CELastAccess = LastAccess gx_meta\<rparr>]"
    by (simp add: cx_eval cx_finalized_def gx_stored_eq)
  then show ?thesis
    by (simp add: ShouldRejectWrite_def evictIfNeeded_def cx_reclaimed_def cx_spooled_def cx_small_def Let_def
        gx_stored_eq gx_start_def gx_config_def gx_host_def ref_svc_def os_call_def dir_del_def int64_def)
qed

definition cx_salvaged :: "((string \<times> bval) list, (string \<times> string) list) svc" where
  "cx_salvaged = fst (Put_known gx_host cx_small cx_reclaimed ''spool-'' gx_meta)"

lemma cx_salvage:
  "objs cx_salvaged = []"
  "\<exists>m. meta_at gx_host (sv_store cx_salvaged) gx_root = Some m \<and> Status m = StatusPending"
  by (simp_all add: cx_salvaged_def Put_known_def materialize_def fileExists_def Reenqueue_def reenqueue_fn_def
      cx_reclaimed_def cx_spooled_def cx_finalized_def cx_small_def gx_stored_eq cx_eval)

text \<open>
  The record is pending and in the upload queue, and no file of the object is in the cache, though
  no system call failed. The object is on 0G, so nothing is lost.
\<close>

lemma stale_upload_requeues_finalized_object:
  "\<exists>l s ps m. con_reachable gx_host cx_small (l, s, ps) \<and> (\<forall>p \<in> set ps. finished p)
     \<and> meta_at gx_host (sv_store s) gx_root = Some m \<and> Status m = StatusPending
     \<and> map_of (objs s) gx_root = None \<and> on_chain l gx_root"
proof -
  define a where "a = PutDone (Inr (gx_meta, False))"
  let ?R = "(con_step gx_host cx_small)\<^sup>*\<^sup>*" and ?l = "[Ask gx_root (Inr FileFinalized)]"
  obtain x where x: "Put_known gx_host cx_small cx_reclaimed ''spool-'' gx_meta = (cx_salvaged, x)"
    unfolding cx_salvaged_def by (metis prod.collapse)
  have s1: "?R ([], gx_stored, [a]) ([], gx_stored, [a, cx_put])"
    using con_request [of cx_put gx_host cx_small "[]" gx_stored "[a]"] by (simp add: cx_put_def r_into_rtranclp)
  have s2: "?R ([], gx_stored, [a, cx_put]) ([], cx_spooled, [a, PutStat ''spool-'' gx_meta])"
    unfolding a_def by (rule con_run_steps [OF cx_looked_up])
  have s3: "?R ([], cx_spooled, [a, PutStat ''spool-'' gx_meta]) (?l, cx_spooled, [a, PutStat ''spool-'' gx_meta])"
    using con_chain [of gx_host cx_small "[]" cx_spooled _ ?l] by (simp add: r_into_rtranclp)
  have s4: "?R (?l, cx_spooled, [a, PutStat ''spool-'' gx_meta])
      (?l, cx_spooled\<lparr>sv_store := cx_finalized\<rparr>, [a, PutStat ''spool-'' gx_meta])"
    by (rule r_into_rtranclp, rule con_worker [of ?l "OpSetStatus gx_root StatusFinalized [] []" _ _ _
          "snd (SetStatus gx_host (sv_store gx_stored) gx_root StatusFinalized [] [])"])
      (simp_all add: cx_spooled_def cx_finalized_def)
  have s5: "?R (?l, cx_spooled\<lparr>sv_store := cx_finalized\<rparr>, [a, PutStat ''spool-'' gx_meta])
      (?l, cx_reclaimed, [a, PutStat ''spool-'' gx_meta, AdmitDone False])"
    using con_request_alone [OF _ admit_alone [OF cx_reclaim], of ?l "[a, PutStat ''spool-'' gx_meta]"] by simp
  have s6: "?R (?l, cx_reclaimed, [a, PutStat ''spool-'' gx_meta, AdmitDone False])
      (?l, cx_salvaged, [a, PutDone x, AdmitDone False])"
    using con_alone [OF put_known_alone [OF x], of 1 "[a, PutStat ''spool-'' gx_meta, AdmitDone False]" ?l] by simp
  note run = rtranclp_trans [OF s1 rtranclp_trans [OF s2 rtranclp_trans [OF s3
        rtranclp_trans [OF s4 rtranclp_trans [OF s5 s6]]]]]
  have "con_reachable gx_host cx_small (?l, cx_salvaged, [a, PutDone x, AdmitDone False])"
    by (rule con_reachable_run [OF cx_small_stored run [unfolded a_def], folded a_def])
  moreover obtain m where "meta_at gx_host (sv_store cx_salvaged) gx_root = Some m" "Status m = StatusPending"
    using cx_salvage(2) by blast
  ultimately show ?thesis
    by (intro exI conjI) (assumption | simp add: a_def cx_salvage(1) on_chain_def)+
qed

end
