(* ===== verification/Concurrent_Props.thy ===== *)
theory Concurrent_Props
  imports Concurrent_Example Uploader_Props
begin

text \<open>
  The properties of the gateway with any number of requests in flight, any order of their steps,
  any failing system calls, and crashes at any moment.
\<close>

section \<open>Durability\<close>

text \<open>
  C1: No data loss under concurrency and crashes. In every configuration that interleaved
  uploads, reads, evictions, worker writes and crashes with restarts can reach, an object that
  the chain has never reported finalized has its cache file, and the file holds bytes with the
  recorded root, hash and size.
\<close>

theorem concurrent_no_data_loss:
  assumes "collision_free H" and "con_reachable H G (l, s, ps)"
    and "meta_at H (sv_store s) r = Some m" and "Ask r (Inr FileFinalized) \<notin> set l"
  shows "\<exists>b. map_of (objs s) r = Some (RegFile b) \<and> merkle_root H b = Inr r
    \<and> sha256_hex H b = SHA256 m \<and> int (length b) = Size m"
proof -
  have "con_inv H (l, s, ps)" using assms(1,2) by (rule collision_free.con_reachable_inv)
  note ok = con_invD(1) [OF this]
  have "safe l s r" using con_okD(5) [OF ok] assms(3) by simp
  then obtain y where y: "map_of (objs s) r = Some y" using assms(4) by (auto simp: safe_def on_chain_def)
  have "known_as H s r m"
    using meta_inv_at [of H "sv_store s" r m] con_okD(1) [OF ok] assms(3)
    by (simp add: known_as_def content_of_def store_inv_def)
  then have "right_bytes H m y" "Root m = r"
    using collision_free.file_right_bytes [OF assms(1) ok _ y] by (simp_all add: known_as_def)
  then show ?thesis using y by (auto simp: right_bytes_def)
qed

theorem concurrent_no_data_loss_witness:
  "\<exists>b. map_of (objs gx_stored) gx_root = Some (RegFile b) \<and> int (length b) = 3"
  using concurrent_no_data_loss [OF gx_hosts(1) cx_stored gx_stored_meta] by (auto simp: gx_meta_def zero_meta_def)

text \<open>
  C17: Reads deliver the right bytes under concurrency. Whatever uploads, evictions, restores and
  worker writes happen between the steps of a read, when it succeeds it returns a file with the
  root, hash and size of the record that it returns.
\<close>

theorem concurrent_reads_right:
  assumes "collision_free H" and "con_reachable H G (l, s, ps)"
    and "i < length ps" and "ps ! i = OpenDone (Inr (x, m))"
  shows "\<exists>b. x = RegFile b \<and> merkle_root H b = Inr (Root m)
    \<and> sha256_hex H b = SHA256 m \<and> int (length b) = Size m"
proof -
  have "con_inv H (l, s, ps)" using assms(1,2) by (rule collision_free.con_reachable_inv)
  then have "pc_ok H l s (ps ! i)" using con_invD(2) assms(3) by (metis nth_mem)
  then show ?thesis using assms(4) by (simp add: right_bytes_def)
qed

theorem concurrent_reads_right_witness:
  "\<exists>b. RegFile ''abc'' = RegFile b \<and> merkle_root gx_host b = Inr gx_root"
  using concurrent_reads_right [OF gx_hosts(1) cx_read, of 1 "RegFile ''abc''" gx_meta]
  by (auto simp: gx_meta_def)

text \<open>
  C22: What is in the database and the cache is well formed in every configuration. Every record
  decodes, stands under its own root as a key that the database accepts, has times that encode and
  describes some non-colliding content; every bucket name is free of slashes and decodes; every
  S3 key maps to a record; every entry of the cache directory is a regular file whose name is the
  root of its content.
\<close>

theorem reachable_data_well_formed:
  assumes "collision_free H" and "con_reachable H G (l, s, ps)"
  shows "(\<forall>r raw. bget H (objects (sv_store s)) r = Some raw \<longrightarrow>
      (\<exists>m b. unmarshalMeta H raw = Inr m \<and> Root m = r \<and> key_ok r \<and> meta_times_ok m
         \<and> merkle_root H b = Inr r \<and> SHA256 m = sha256_hex H b \<and> Size m = int (length b)))
    \<and> (\<forall>n raw. bget H (s3_buckets (sv_store s)) n = Some raw \<longrightarrow>
         CHR ''/'' \<notin> set n \<and> (\<exists>b. unmarshalBucket H raw = Inr b))
    \<and> (\<forall>k v. bget H (s3_keys (sv_store s)) k = Some v \<longrightarrow>
         bget H (objects (sv_store s)) (of_bytes H v) \<noteq> None)
    \<and> (\<forall>r y. map_of (objs s) r = Some y \<longrightarrow> (\<exists>b. y = RegFile b \<and> merkle_root H b = Inr r))"
proof (intro conjI allI impI)
  have "con_inv H (l, s, ps)" using assms by (rule collision_free.con_reachable_inv)
  note ok = con_okD [OF con_invD(1) [OF this]]
  have inv: "meta_inv H (sv_store s)" "names_inv H (sv_store s)" using ok(1) by (simp_all add: store_inv_def)
  show "\<exists>m b. unmarshalMeta H raw = Inr m \<and> Root m = r \<and> key_ok r \<and> meta_times_ok m
      \<and> merkle_root H b = Inr r \<and> SHA256 m = sha256_hex H b \<and> Size m = int (length b)"
    if raw: "bget H (objects (sv_store s)) r = Some raw" for r raw
  proof -
    obtain m where m: "unmarshalMeta H raw = Inr m" "Root m = r" "meta_times_ok m" "key_ok r"
      using inv(1) raw unfolding meta_inv_def by blast
    have "content_of H (sv_store s) r = Some (SHA256 m, Size m)"
      using raw m(1) by (simp add: content_of_def meta_at_def)
    then obtain b where "sha256_hex H b = SHA256 m" "int (length b) = Size m" "merkle_root H b = Inr r"
      using ok(3) by blast
    then show ?thesis using m by (intro exI [of _ m] exI [of _ b]) simp
  qed
  show "CHR ''/'' \<notin> set n" "\<exists>b. unmarshalBucket H raw = Inr b"
    if "bget H (s3_buckets (sv_store s)) n = Some raw" for n raw
    using inv(2) that unfolding names_inv_def by blast+
  show "bget H (objects (sv_store s)) (of_bytes H v) \<noteq> None" if "bget H (s3_keys (sv_store s)) k = Some v" for k v
    using inv(2) that meta_inv_stored [OF inv(1)] unfolding names_inv_def by blast
  show "\<exists>b. y = RegFile b \<and> merkle_root H b = Inr r" if "map_of (objs s) r = Some y" for r y
    using ok(4) that .
qed

theorem reachable_data_well_formed_witness:
  "\<exists>b. RegFile ''abc'' = RegFile b \<and> merkle_root gx_host b = Inr gx_root"
proof -
  have "map_of (objs gx_stored) gx_root = Some (RegFile ''abc'')" by (simp add: gx_stored_eq)
  then show ?thesis using reachable_data_well_formed [OF gx_hosts(1) cx_stored] by blast
qed

section \<open>Requests\<close>

text \<open>
  C5: Acknowledged writes can be read back, under concurrency and crashes. Follow one upload
  through any interleaving with other requests, the worker and failing system calls. When it
  returns a record without error, and the database has not been closed meanwhile, then the record
  has the Merkle root, the hash and the size of the whole body, which is not empty and within
  \<open>MaxSize\<close>. From then on, whatever happens, crashes with restarts included, the database keeps
  that content under that root, and every read of the root that succeeds returns the body.
\<close>

theorem concurrent_read_your_writes:
  assumes "collision_free H" and "MaxSize G < 2 ^ 63"
    and "con_reachable H G (l, s, ps)" and "i < length ps" and "ps ! i = PutSpool r fn ct"
    and "(live_step H G)\<^sup>*\<^sup>* (l, s, ps) (l', t, qs)" and "qs ! i = PutDone (Inr (m, dup))"
    and "\<not> closed (sv_store t)"
  shows "merkle_root H (rd_data r) = Inr (Root m)
    \<and> SHA256 m = sha256_hex H (rd_data r) \<and> Size m = int (length (rd_data r))
    \<and> rd_data r \<noteq> [] \<and> (0 < MaxSize G \<longrightarrow> int (length (rd_data r)) \<le> MaxSize G)
    \<and> (\<forall>k u rs. (con_step H G)\<^sup>*\<^sup>* (l', t, qs) (k, u, rs) \<longrightarrow>
         content_of H (sv_store u) (Root m) = Some (sha256_hex H (rd_data r), int (length (rd_data r)))
         \<and> (\<forall>j k' u' rs' x m'. j < length rs \<and> rs ! j = OpenLookup (Root m)
              \<and> (live_step H G)\<^sup>*\<^sup>* (k, u, rs) (k', u', rs') \<and> rs' ! j = OpenDone (Inr (x, m'))
              \<longrightarrow> x = RegFile (rd_data r) \<and> Root m' = Root m))"
proof -
  let ?b = "rd_data r"
  have inv: "con_inv H (l, s, ps)" using assms(1,3) by (rule collision_free.con_reachable_inv)
  have "put_from H G r (sv_store s) (ps ! i)" by (simp add: assms(5))
  then have put: "con_inv H (l', t, qs)" "put_from H G r (sv_store t) (qs ! i)"
    using collision_free.put_from_run [OF assms(1,6) inv assms(4,2)] by simp_all
  then have m: "accepted G r ?b" "stored_as H (sv_store t) ?b (Root m)" "describes H m ?b"
    using assms(7,8) by simp_all
  have later: "content_of H (sv_store u) (Root m) = Some (sha256_hex H ?b, int (length ?b)) \<and> con_inv H (k, u, rs)"
    if "(con_step H G)\<^sup>*\<^sup>* (l', t, qs) (k, u, rs)" for k u rs
    using collision_free.con_run_kept [OF assms(1) that put(1)] m(2) by (simp add: stored_as_def db_kept_def)
  have root: "merkle_root H ?b = Inr (Root m)" using m(2) by (simp add: stored_as_def)
  have read: "x = RegFile ?b \<and> Root m' = Root m"
    if "(con_step H G)\<^sup>*\<^sup>* (l', t, qs) (k, u, rs)" "j < length rs" "rs ! j = OpenLookup (Root m)"
      "(live_step H G)\<^sup>*\<^sup>* (k, u, rs) (k', u', rs')" "rs' ! j = OpenDone (Inr (x, m'))"
    for k u rs j k' u' rs' x m'
    using collision_free.open_run_bytes [OF assms(1) _ that(4,2,3,5) root] later [OF that(1)] by blast
  show ?thesis
  proof (intro conjI allI impI)
    show "SHA256 m = sha256_hex H ?b" "Size m = int (length ?b)" using m(3) by (simp_all add: describes_def)
    show "?b \<noteq> []" using m(1) by (simp add: accepted_def)
    show "int (length ?b) \<le> MaxSize G" if "0 < MaxSize G" using m(1) that by (simp add: accepted_def)
  qed (use root later read in blast)+
qed

theorem concurrent_read_your_writes_witness:
  "merkle_root gx_host ''abc'' = Inr gx_root
   \<and> content_of gx_host (sv_store gx_stored) gx_root = Some (sha256_hex gx_host ''abc'', 3)
   \<and> (\<exists>u. (live_step gx_host gx_config)\<^sup>*\<^sup>*
        ([], gx_stored, [PutDone (Inr (gx_meta, False)), OpenLookup gx_root])
        ([], u, [PutDone (Inr (gx_meta, False)), OpenDone (Inr (RegFile ''abc'', gx_meta))]))"
proof -
  let ?put = "PutDone (Inr (gx_meta, False))" and ?look = "OpenLookup gx_root"
  have r: "con_reachable gx_host gx_config ([], gx_start, [cx_put])"
    by (rule con_reachable_run [OF cx_start]) (rule cx_requested)
  have w: "(live_step gx_host gx_config)\<^sup>*\<^sup>* ([], gx_start, [cx_put]) ([], gx_stored, [?put])"
    using live_alone [OF put_alone [OF gx_stored_put], of 0 "[cx_put]" "[]"] by (simp add: cx_put_def)
  have o: "\<not> closed (sv_store gx_stored)" by (simp add: gx_stored_eq cx_eval)
  note all = concurrent_read_your_writes [OF gx_hosts(1) _ r _ _ w _ o, of 0 gx_body "''f''" "''t''" gx_meta False]
  have "(con_step gx_host gx_config)\<^sup>*\<^sup>* ([], gx_stored, [?put]) ([], gx_stored, [?put, ?look])"
    using con_request [of ?look gx_host gx_config "[]" gx_stored "[?put]"] by (simp add: r_into_rtranclp)
  moreover have "(live_step gx_host gx_config)\<^sup>*\<^sup>* ([], gx_stored, [?put, ?look])
      ([], gx_stored\<lparr>tick := 8\<rparr>, [?put, OpenDone (Inr (RegFile ''abc'', gx_meta))])"
    using live_alone [OF open_alone [OF gx_open], of 1 "[?put, ?look]" "[]"] by simp
  ultimately show ?thesis
    using all by (auto simp: cx_put_def gx_config_def gx_body_def gx_meta_def zero_meta_def)
qed

text \<open>
  C19: Every request ends. However the other requests, the worker, the chain and failing system
  calls change the state between the steps of a thread, the thread reaches its result after
  finitely many steps of its own; no thread ever waits for another.
\<close>

theorem requests_terminate:
  assumes "\<forall>i. pcs (Suc i) = snd (thread_step H G (ss i) (pcs i))"
  shows "\<exists>n. finished (pcs n)"
proof (rule ccontr)
  assume "\<nexists>n. finished (pcs n)"
  then have "\<forall>i. (rank (pcs (Suc i)), rank (pcs i)) \<in> rank_less"
    using assms thread_step_rank by metis
  then have "\<exists>f. \<forall>i. (f (Suc i), f i) \<in> rank_less" by (rule exI [of _ "\<lambda>i. rank (pcs i)"])
  then show False using rank_less_wf by (simp add: wf_iff_no_infinite_down_chain)
qed

theorem requests_terminate_witness:
  "\<exists>n. finished (((\<lambda>p. snd (thread_step gx_host gx_config gx_full p)) ^^ n) AdmitStart)"
  by (rule requests_terminate [where H = gx_host and G = gx_config and ss = "\<lambda>_. gx_full"]) simp

section \<open>Composition\<close>

text \<open>
  C18: The sequential gateway is one of the interleavings. Whatever state the gateway reaches with
  whole requests, flushes and polls as its steps, the interleaved system reaches too, with the
  same log of chain calls; so what holds of every interleaving holds of the gateway.
\<close>

theorem gateway_runs_interleave:
  assumes "collision_free H" and "gw_reachable H C W G ((c, l), v)"
  shows "\<exists>ps. con_reachable H G (l, v, ps)"
  using assms by (rule collision_free.gw_reachable_con)

theorem gateway_runs_interleave_witness:
  "\<exists>ps. con_reachable gx_host gx_config ([], gx_stored, ps)"
  by (rule gateway_runs_interleave [OF gx_hosts(1) gx_reachable(2) [where c = "0::nat" and C = ex_chain and W = ex_config]])

end
