(* ===== verification/Worker_Thread.thy ===== *)
theory Worker_Thread
  imports Uploader_Facts
begin

text \<open>
  \<open>internal/uploader/worker.go\<close> as a thread: the goroutine of \<open>Run\<close> with a program point between
  any two calls of the store or the chain, so that requests may change the database in between.
  The errors that \<open>Flush\<close> and \<open>PollFinality\<close> collect are only logged by \<open>Run\<close>, and are not kept.
\<close>

section \<open>Program points\<close>

text \<open>
  The points, with what the goroutine holds there: waiting for a tick; before a batch of the rest
  of the queue; in the first loop of \<open>processBatch\<close>, before the node is asked about a re-read
  object, and with its answer; before the marks, the upload, the confirmations; in
  \<open>reconcileFailedBatch\<close>, before each of its calls; and in \<open>PollFinality\<close>. The last component of the
  points of a batch is the queue after it.
\<close>

datatype wpc =
    WTick
  | WBatch "object_meta list"
  | WCollect "object_meta list" "item list" "object_meta list"
  | WAsk object_meta "object_meta list" "item list" "object_meta list"
  | WLearn object_meta file_status "object_meta list" "item list" "object_meta list"
  | WSubmit "item list" "item list" "object_meta list"
  | WSend "item list" "object_meta list"
  | WConfirm string "item list" "object_meta list"
  | WReconcile "item list" err "object_meta list"
  | WSkip item "item list" err "object_meta list"
  | WCount item "item list" err "object_meta list"
  | WGive item status string "item list" err "object_meta list"
  | WPollQueue
  | WPoll "object_meta list"
  | WPollSet object_meta status string "object_meta list"

section \<open>Steps\<close>

fun worker_step ::
  "('b, 'v, 'z) host_scheme \<Rightarrow> 'c chain \<Rightarrow> worker_config \<Rightarrow> 'c \<times> 'b store \<Rightarrow> wpc
     \<Rightarrow> ('c \<times> 'b store) \<times> wpc" where
  "worker_step H C W (c, s) WTick =
     (case UploadQueue H s 0 of
        Inl e \<Rightarrow> ((c, s), WPollQueue)
      | Inr queue \<Rightarrow> ((c, s), WBatch queue))"
| "worker_step H C W (c, s) (WBatch q) =
     (if q = [] then ((c, s), WPollQueue)
      else ((c, s), WCollect (take (nat (BatchMax W)) q) [] (drop (nat (BatchMax W)) q)))"
| "worker_step H C W (c, s) (WCollect [] items q) =
     (if items = [] then ((c, s), WBatch q) else ((c, s), WSubmit items items q))"
| "worker_step H C W (c, s) (WCollect (m # rest) items q) =
     (case Get H s (Root m) of
        Inl e \<Rightarrow> ((c, s), WBatch q)
      | Inr None \<Rightarrow> ((c, s), WCollect rest items q)
      | Inr (Some cur) \<Rightarrow>
          if Status cur = StatusSubmitted \<or> 0 < Retries cur then ((c, s), WAsk cur rest items q)
          else ((c, s), WCollect rest (items @ [mk_item W cur (SkipTx cur)]) q))"
| "worker_step H C W (c, s) (WAsk cur rest items q) =
     (case FileStatusOf C c (Root cur) of
        (c', Inl e) \<Rightarrow> ((c', s), WCollect rest items q)
      | (c', Inr st) \<Rightarrow> ((c', s), WLearn cur st rest items q))"
| "worker_step H C W (c, s) (WLearn cur st rest items q) =
     (case st of
        FileFinalized \<Rightarrow>
          (case SetStatus H s (Root cur) StatusFinalized [] [] of
             (s', Inl e) \<Rightarrow> ((c, s'), WBatch q)
           | (s', Inr _) \<Rightarrow> ((c, s'), WCollect rest items q))
      | FileUploading \<Rightarrow>
          ((c, fst (SetSkipTx H s (Root cur) True)), WCollect rest (items @ [mk_item W cur True]) q)
      | _ \<Rightarrow> ((c, fst (SetSkipTx H s (Root cur) False)), WCollect rest (items @ [mk_item W cur False]) q))"
| "worker_step H C W (c, s) (WSubmit [] items q) = ((c, s), WSend items q)"
| "worker_step H C W (c, s) (WSubmit (it # todo) items q) =
     (case SetStatus H s (ItRoot it) StatusSubmitted [] [] of
        (s', Inl e) \<Rightarrow> ((c, s'), WBatch q)
      | (s', Inr _) \<Rightarrow> ((c, s'), WSubmit todo items q))"
| "worker_step H C W (c, s) (WSend items q) =
     (case BatchUpload C c items of
        (c', Inl e) \<Rightarrow> ((c', s), WReconcile items e q)
      | (c', Inr txHash) \<Rightarrow> ((c', s), WConfirm txHash items q))"
| "worker_step H C W (c, s) (WConfirm txHash [] q) = ((c, s), WBatch q)"
| "worker_step H C W (c, s) (WConfirm txHash (it # todo) q) =
     (case SetStatus H s (ItRoot it) StatusOnchain (if ItSkipTx it then [] else txHash) [] of
        (s', Inl e) \<Rightarrow> ((c, s'), WBatch q)
      | (s', Inr _) \<Rightarrow> ((c, s'), WConfirm txHash todo q))"
| "worker_step H C W (c, s) (WReconcile [] batchErr q) = ((c, s), WBatch q)"
| "worker_step H C W (c, s) (WReconcile (it # todo) batchErr q) =
     (case FileStatusOf C c (ItRoot it) of (c', st) \<Rightarrow>
        if st = Inr FileFinalized then ((c', s), WGive it StatusFinalized [] todo batchErr q)
        else if st = Inr FileUploading then ((c', s), WSkip it todo batchErr q)
        else ((c', s), WCount it todo batchErr q))"
| "worker_step H C W (c, s) (WSkip it todo batchErr q) =
     ((c, fst (SetSkipTx H s (ItRoot it) True)), WCount it todo batchErr q)"
| "worker_step H C W (c, s) (WCount it todo batchErr q) =
     (case IncRetries H s (ItRoot it) of
        (s', Inl _) \<Rightarrow> ((c, s'), WReconcile todo batchErr q)
      | (s', Inr n) \<Rightarrow>
          if MaxRetries W < n
          then ((c, s'), WGive it StatusFailed (''retries exhausted: '' @ err_text batchErr) todo batchErr q)
          else ((c, s'), WGive it StatusPending [] todo batchErr q))"
| "worker_step H C W (c, s) (WGive it st why todo batchErr q) =
     ((c, fst (SetStatus H s (ItRoot it) st [] why)), WReconcile todo batchErr q)"
| "worker_step H C W (c, s) WPollQueue =
     (case FinalizeQueue H s 0 of
        Inl e \<Rightarrow> ((c, s), WTick)
      | Inr queue \<Rightarrow> ((c, s), WPoll queue))"
| "worker_step H C W (c, s) (WPoll []) = ((c, s), WTick)"
| "worker_step H C W (c, s) (WPoll (m # rest)) =
     (case FileStatusOf C c (Root m) of
        (c', Inr FileFinalized) \<Rightarrow> ((c', s), WPollSet m StatusFinalized [] rest)
      | (c', Inr FilePruned) \<Rightarrow> ((c', s), WPollSet m StatusFailed ''pruned'' rest)
      | (c', _) \<Rightarrow> ((c', s), WPoll rest))"
| "worker_step H C W (c, s) (WPollSet m st why rest) =
     ((c, fst (SetStatus H s (Root m) st [] why)), WPoll rest)"

context chain_keeps
begin

lemma worker_step_keeps: "worker_step H C W (c, s) w = ((c', t), w') \<Longrightarrow> J c \<Longrightarrow> J c'"
  by (cases "(H, C, W, (c, s), w)" rule: worker_step.cases)
    (auto split: sum.splits option.splits prod.splits if_splits file_status.splits
      dest: upload_keeps status_keeps)

end

section \<open>A pass alone\<close>

definition worker_rel ::
  "('b, 'v, 'z) host_scheme \<Rightarrow> 'c chain \<Rightarrow> worker_config \<Rightarrow> ('c \<times> 'b store) \<times> wpc
     \<Rightarrow> ('c \<times> 'b store) \<times> wpc \<Rightarrow> bool" where
  "worker_rel H C W x y \<longleftrightarrow> worker_step H C W (fst x) (snd x) = y"

abbreviation worker_alone ::
  "('b, 'v, 'z) host_scheme \<Rightarrow> 'c chain \<Rightarrow> worker_config \<Rightarrow> ('c \<times> 'b store) \<times> wpc
     \<Rightarrow> ('c \<times> 'b store) \<times> wpc \<Rightarrow> bool" where
  "worker_alone H C W \<equiv> (worker_rel H C W)\<^sup>+\<^sup>+"

text \<open>At least one step, then a rest that may be empty: the shape of every lemma below.\<close>

lemma worker_first: "worker_step H C W cs w = y \<Longrightarrow> worker_alone H C W (cs, w) y"
  by (rule tranclp.r_into_trancl) (simp add: worker_rel_def)

lemma worker_next: "worker_alone H C W (worker_step H C W cs w) y \<Longrightarrow> worker_alone H C W (cs, w) y"
  by (rule tranclp_into_tranclp2 [of _ _ "worker_step H C W cs w"]) (simp_all add: worker_rel_def)

lemma worker_trans: "worker_alone H C W x y \<Longrightarrow> worker_alone H C W y z \<Longrightarrow> worker_alone H C W x z"
  by (rule tranclp_trans)

lemma collect_alone:
  assumes "collect H C W (c, s) ms items deferred = (cs', x)"
  shows "worker_alone H C W ((c, s), WCollect ms items q)
    (cs', case x of Inl e \<Rightarrow> WBatch q
     | Inr (its, d) \<Rightarrow> if its = [] then WBatch q else WSubmit its its q)"
  using assms
proof (induction ms arbitrary: c s items deferred)
  case Nil
  then show ?case by (intro worker_first) auto
next
  case (Cons m rest)
  show ?case
  proof (cases "Get H s (Root m)")
    case (Inl e)
    then show ?thesis using Cons.prems by (intro worker_first) auto
  next
    case got: (Inr mo)
    show ?thesis
    proof (cases mo)
      case None
      then show ?thesis using Cons got by (intro worker_next) simp
    next
      case (Some cur)
      show ?thesis
      proof (cases "Status cur = StatusSubmitted \<or> 0 < Retries cur")
        case False
        then show ?thesis using Cons got Some by (intro worker_next) simp
      next
        case True
        obtain c' a where a: "FileStatusOf C c (Root cur) = (c', a)" by force
        have "worker_alone H C W ((c, s), WAsk cur rest items q)
          (cs', case x of Inl e \<Rightarrow> WBatch q
             | Inr (its, d) \<Rightarrow> if its = [] then WBatch q else WSubmit its its q)"
        proof (cases a)
          case (Inl e)
          then show ?thesis using Cons got Some True a by (intro worker_next) simp
        next
          case (Inr st)
          have "worker_alone H C W ((c', s), WLearn cur st rest items q)
            (cs', case x of Inl e \<Rightarrow> WBatch q
               | Inr (its, d) \<Rightarrow> if its = [] then WBatch q else WSubmit its its q)"
          proof (cases "st = FileFinalized")
            case fin: True
            obtain s' r where sr: "SetStatus H s (Root cur) StatusFinalized [] [] = (s', r)" by force
            show ?thesis
            proof (cases r)
              case (Inl e)
              then show ?thesis
                using Cons.prems got Some True a Inr fin sr by (intro worker_first) auto
            next
              case ok: (Inr u)
              then show ?thesis
                using Cons got Some True a Inr fin sr by (intro worker_next) simp
            qed
          next
            case False
            then show ?thesis
              using Cons got Some True a Inr by (intro worker_next) (cases st; simp)
          qed
          then show ?thesis using a Inr by (intro worker_next) simp
        qed
        then show ?thesis using got Some True by (intro worker_next) simp
      qed
    qed
  qed
qed

lemma submit_alone:
  assumes "mark_submitted H s todo = (s', x)"
  shows "worker_alone H C W ((c, s), WSubmit todo items q)
    ((c, s'), case x of Some e \<Rightarrow> WBatch q | None \<Rightarrow> WSend items q)"
  using assms
proof (induction todo arbitrary: s)
  case Nil
  then show ?case by (intro worker_first) auto
next
  case (Cons it todo)
  obtain t r where r: "SetStatus H s (ItRoot it) StatusSubmitted [] [] = (t, r)" by force
  show ?case
  proof (cases r)
    case (Inl e)
    then show ?thesis using Cons.prems r by (intro worker_first) auto
  next
    case (Inr u)
    then show ?thesis using Cons r by (intro worker_next) simp
  qed
qed

lemma confirm_alone:
  assumes "mark_onchain H txHash s todo = (s', x)"
  shows "worker_alone H C W ((c, s), WConfirm txHash todo q) ((c, s'), WBatch q)"
  using assms
proof (induction todo arbitrary: s)
  case Nil
  then show ?case by (intro worker_first) auto
next
  case (Cons it todo)
  obtain t r where r: "SetStatus H s (ItRoot it) StatusOnchain (if ItSkipTx it then [] else txHash) [] = (t, r)"
    by force
  show ?case
  proof (cases r)
    case (Inl e)
    then show ?thesis using Cons.prems r by (intro worker_first) (auto simp: Let_def)
  next
    case (Inr u)
    then show ?thesis using Cons r by (intro worker_next) (simp add: Let_def)
  qed
qed

lemma reconcile_item_alone:
  "worker_alone H C W ((c, s), WReconcile (it # todo) e q) (reconcile_item H C W e (c, s) it, WReconcile todo e q)"
proof -
  obtain c' a where a: "FileStatusOf C c (ItRoot it) = (c', a)" by force
  have count: "worker_alone H C W ((c', t), WCount it todo e q)
      ((case IncRetries H t (ItRoot it) of
              (s2, Inl _) \<Rightarrow> (c', s2)
            | (s2, Inr n) \<Rightarrow>
                if MaxRetries W < n
                then (c', fst (SetStatus H s2 (ItRoot it) StatusFailed [] (''retries exhausted: '' @ err_text e)))
                else (c', fst (SetStatus H s2 (ItRoot it) StatusPending [] []))), WReconcile todo e q)" for t
  proof -
    obtain s2 r where r: "IncRetries H t (ItRoot it) = (s2, r)" by force
    show ?thesis
    proof (cases r)
      case (Inl e')
      then show ?thesis by (intro worker_first) (simp add: r)
    next
      case (Inr n)
      then show ?thesis by (intro worker_next) (auto simp: r intro!: worker_first)
    qed
  qed
  consider (fin) "a = Inr FileFinalized" | (upl) "a = Inr FileUploading"
    | (other) "a \<noteq> Inr FileFinalized" "a \<noteq> Inr FileUploading" by blast
  then show ?thesis
  proof cases
    case fin
    then show ?thesis using a by (intro worker_next) (auto simp: reconcile_item_def intro!: worker_first)
  next
    case upl
    have "worker_alone H C W ((c', s), WSkip it todo e q) (reconcile_item H C W e (c, s) it, WReconcile todo e q)"
      using count [of "fst (SetSkipTx H s (ItRoot it) True)"] a upl
      by (intro worker_next) (simp add: reconcile_item_def Let_def)
    then show ?thesis using a upl by (intro worker_next) simp
  next
    case other
    then show ?thesis
      using count [of s] a by (intro worker_next) (simp add: reconcile_item_def Let_def)
  qed
qed

lemma reconcile_alone:
  "worker_alone H C W (cs, WReconcile items e q) (reconcileFailedBatch H C W cs items e, WBatch q)"
proof (induction items arbitrary: cs)
  case Nil
  then show ?case by (cases cs) (auto intro!: worker_first)
next
  case (Cons it todo)
  show ?case
    using worker_trans [OF reconcile_item_alone [of H C W "fst cs" "snd cs"] Cons.IH] by simp
qed

lemma batch_alone:
  assumes "processBatch H C W cs batch = (cs', x)"
  shows "worker_alone H C W (cs, WCollect batch [] q) (cs', WBatch q)"
proof -
  obtain c s where cs: "cs = (c, s)" by force
  obtain cs1 y where y: "collect H C W (c, s) batch [] None = (cs1, y)" by (metis surj_pair)
  obtain c1 s1 where cs1: "cs1 = (c1, s1)" by force
  note col = collect_alone [OF y, of q, folded cs]
  show ?thesis
  proof (cases y)
    case (Inl e)
    then show ?thesis using col assms y cs by (simp add: processBatch_def)
  next
    case (Inr p)
    obtain items d where p: "p = (items, d)" by force
    show ?thesis
    proof (cases "items = []")
      case True
      then show ?thesis using col assms y cs cs1 Inr p by (simp add: processBatch_def)
    next
      case False
      obtain s2 z where z: "mark_submitted H s1 items = (s2, z)" by force
      note sub = submit_alone [OF z, of C W c1 items q]
      have "worker_alone H C W ((c1, s1), WSubmit items items q) (cs', WBatch q)"
      proof (cases z)
        case (Some e)
        then show ?thesis using sub assms y cs cs1 Inr p False z by (simp add: processBatch_def)
      next
        case None
        obtain c2 r where r: "BatchUpload C c1 items = (c2, r)" by force
        have "worker_alone H C W ((c1, s2), WSend items q) (cs', WBatch q)"
        proof (cases r)
          case (Inl e)
          then have "cs' = reconcileFailedBatch H C W (c2, s2) items e"
            using assms y cs cs1 Inr p False z None r by (simp add: processBatch_def)
          then show ?thesis using reconcile_alone r Inl by (intro worker_next) simp
        next
          case ok: (Inr txHash)
          obtain s3 f where f: "mark_onchain H txHash s2 items = (s3, f)" by force
          then have "cs' = (c2, s3)"
            using assms y cs cs1 Inr p False z None r ok by (simp add: processBatch_def split: option.splits)
          then show ?thesis using confirm_alone [OF f] r ok by (intro worker_next) simp
        qed
        then show ?thesis using worker_trans [OF sub] None by simp
      qed
      then show ?thesis using worker_trans [OF col] Inr p False cs1 by simp
    qed
  qed
qed

lemma poll_alone:
  assumes "poll_loop H C (c, s) ms e = (cs', e')"
  shows "worker_alone H C W ((c, s), WPoll ms) (cs', WTick)"
  using assms
proof (induction ms arbitrary: c s e)
  case Nil
  then show ?case by (intro worker_first) auto
next
  case (Cons m rest)
  obtain c' a where a: "FileStatusOf C c (Root m) = (c', a)" by force
  have set: "worker_alone H C W ((c', s), WPollSet m st why rest) (cs', WTick)"
    if "poll_loop H C (c', fst (SetStatus H s (Root m) st [] why)) rest f = (cs', e')" for st why f
    using Cons.IH [OF that] by (intro worker_next) simp
  show ?case
  proof (cases a)
    case (Inl e1)
    then show ?thesis using Cons a by (intro worker_next) simp
  next
    case (Inr st)
    show ?thesis
    proof (cases st)
      case FileFinalized
      then show ?thesis
        using Cons.prems a Inr set [of StatusFinalized "[]"]
        by (intro worker_next) (auto split: prod.splits)
    next
      case FilePruned
      then show ?thesis
        using Cons.prems a Inr set [of StatusFailed "''pruned''"]
        by (intro worker_next) (auto split: prod.splits)
    qed (use Cons a Inr in \<open>(intro worker_next; simp)+\<close>)
  qed
qed

lemma flush_loop_alone:
  assumes pos: "0 < BatchMax W" and "0 \<le> start"
    and "flush_loop H C W queue start cs e = Some (cs', e')"
  shows "worker_alone H C W (cs, WBatch (drop (nat start) queue)) (cs', WPollQueue)"
  using assms(2,3)
proof (induction "nat (int (length queue) - start)" arbitrary: start cs e rule: less_induct)
  case less
  show ?case
  proof (cases "start < int (length queue)")
    case False
    then have "cs' = cs" "drop (nat start) queue = []"
      using less.prems by (auto simp: flush_loop.simps [of H C W queue start])
    then show ?thesis by (cases cs) (auto intro!: worker_first)
  next
    case True
    define n where "n = nat (BatchMax W)"
    define batch where "batch = take n (drop (nat start) queue)"
    have take_eq: "take (nat (min (start + BatchMax W) (int (length queue)) - start)) (drop (nat start) queue) = batch"
      unfolding batch_def n_def using pos less.prems(1) by (auto simp: min_def nat_add_distrib nat_diff_distrib')
    have no_panic: "\<not> min (start + BatchMax W) (int (length queue)) < start" using True pos by simp
    obtain cs1 x where b: "processBatch H C W cs batch = (cs1, x)" by (metis surj_pair)
    have run: "flush_loop H C W queue (start + BatchMax W) cs1 (if e = None then x else e) = Some (cs', e')"
      using less.prems(2)
      unfolding flush_loop.simps [of H C W queue start cs e] Let_def take_eq b fst_conv snd_conv
      by (simp only: True no_panic if_True if_False)
    have "worker_alone H C W (cs1, WBatch (drop (nat (start + BatchMax W)) queue)) (cs', WPollQueue)"
      by (rule less.hyps [OF _ _ run]) (use True pos less.prems(1) in auto)
    moreover have "drop (nat (start + BatchMax W)) queue = drop n (drop (nat start) queue)"
      using pos less.prems(1) by (simp add: n_def nat_add_distrib add.commute)
    ultimately have "worker_alone H C W (cs, WCollect batch [] (drop n (drop (nat start) queue))) (cs', WPollQueue)"
      using worker_trans [OF batch_alone [OF b]] by simp
    moreover have "drop (nat start) queue \<noteq> []" using True less.prems(1) by simp
    ultimately show ?thesis
      by (cases cs) (intro worker_next, simp add: batch_def n_def)
  qed
qed

text \<open>A pass of the thread that nothing interrupts is one tick of \<open>Run\<close>, and there is always one.\<close>

lemma tick_alone:
  assumes "0 < BatchMax W" and "Flush H C W cs = Some (cs1, e)" and "PollFinality H C cs1 = (cs2, e2)"
  shows "worker_alone H C W (cs, WTick) (cs2, WTick)"
proof -
  obtain c s where cs: "cs = (c, s)" by force
  obtain c1 s1 where cs1: "cs1 = (c1, s1)" by force
  have poll: "worker_alone H C W (cs1, WPollQueue) (cs2, WTick)"
  proof (cases "FinalizeQueue H s1 0")
    case (Inl e)
    then show ?thesis using assms(3) cs1 by (intro worker_first) (auto simp: PollFinality_def)
  next
    case (Inr ms)
    then show ?thesis using assms(3) cs1 by (intro worker_next) (simp add: PollFinality_def poll_alone)
  qed
  have "worker_alone H C W (cs, WTick) (cs1, WPollQueue)"
  proof (cases "UploadQueue H s 0")
    case (Inl e)
    then show ?thesis using assms(2) cs by (intro worker_first) (auto simp: Flush_def)
  next
    case (Inr ms)
    then have "worker_alone H C W (cs, WBatch ms) (cs1, WPollQueue)"
      using flush_loop_alone [OF assms(1), of 0 H C ms cs None cs1 e] assms(2) cs by (simp add: Flush_def)
    then show ?thesis using Inr cs by (intro worker_next) simp
  qed
  then show ?thesis using poll by (rule worker_trans)
qed

lemma Flush_returns:
  assumes "0 < BatchMax W"
  shows "\<exists>r. Flush H C W cs = Some r"
proof (cases "UploadQueue H (snd cs) 0")
  case (Inr queue)
  have "\<exists>cs' e' k. flush_loop H C W queue 0 cs None = Some (cs', e') \<and> int (length queue) \<le> k \<and> True"
    by (rule flush_loop_rule [OF assms, where I = "\<lambda>_ _. True"]) simp_all
  then show ?thesis using Inr by (auto simp: Flush_def)
qed (simp add: Flush_def)

lemma ticks_alone:
  assumes "0 < BatchMax W"
  shows "\<exists>cs'. run_ticks H C W (Suc n) cs = Some cs' \<and> worker_alone H C W (cs, WTick) (cs', WTick)"
proof (induction n arbitrary: cs)
  case 0
  obtain cs1 e where f: "Flush H C W cs = Some (cs1, e)" using Flush_returns [OF assms] by (metis surj_pair)
  obtain cs2 e2 where p: "PollFinality H C cs1 = (cs2, e2)" by (metis surj_pair)
  show ?case using f p tick_alone [OF assms f p] by simp
next
  case (Suc n)
  obtain cs1 e where f: "Flush H C W cs = Some (cs1, e)" using Flush_returns [OF assms] by (metis surj_pair)
  obtain cs2 e2 where p: "PollFinality H C cs1 = (cs2, e2)" by (metis surj_pair)
  obtain cs' where "run_ticks H C W (Suc n) cs2 = Some cs'" "worker_alone H C W (cs2, WTick) (cs', WTick)"
    using Suc.IH by blast
  then show ?case
    using f p worker_trans [OF tick_alone [OF assms f p]]
    by (simp only: run_ticks.simps(2) [of H C W "Suc n"] option.case prod.case fst_conv) blast
qed

section \<open>A pass ends\<close>

text \<open>
  A measure that every step lowers until the thread waits for the next tick: the phase of the pass,
  and what the lists in hand can still cost.
\<close>

fun worker_rank :: "wpc \<Rightarrow> nat \<times> nat" where
  "worker_rank WTick = (3, 0)"
| "worker_rank (WBatch q) = (2, 30 * length q + 1)"
| "worker_rank (WCollect ms items q) = (2, 30 * length q + 25 * length ms + 20 * length items + 2)"
| "worker_rank (WAsk m ms items q) = (2, 30 * length q + 25 * length ms + 20 * length items + 26)"
| "worker_rank (WLearn m st ms items q) = (2, 30 * length q + 25 * length ms + 20 * length items + 25)"
| "worker_rank (WSubmit todo items q) = (2, 30 * length q + length todo + 13 * length items + 5)"
| "worker_rank (WSend items q) = (2, 30 * length q + 13 * length items + 4)"
| "worker_rank (WConfirm th todo q) = (2, 30 * length q + length todo + 2)"
| "worker_rank (WReconcile todo e q) = (2, 30 * length q + 5 * length todo + 2)"
| "worker_rank (WSkip it todo e q) = (2, 30 * length q + 5 * length todo + 6)"
| "worker_rank (WCount it todo e q) = (2, 30 * length q + 5 * length todo + 5)"
| "worker_rank (WGive it st why todo e q) = (2, 30 * length q + 5 * length todo + 4)"
| "worker_rank WPollQueue = (1, 0)"
| "worker_rank (WPoll ms) = (0, 2 * length ms + 1)"
| "worker_rank (WPollSet m st why ms) = (0, 2 * length ms + 2)"

definition worker_less :: "((nat \<times> nat) \<times> (nat \<times> nat)) set" where
  "worker_less = less_than <*lex*> less_than"

lemma worker_less_wf: "wf worker_less"
  unfolding worker_less_def by (intro wf_lex_prod wf_less_than)

lemma worker_less_iff [simp]: "((a, b), (c, d)) \<in> worker_less \<longleftrightarrow> a < c \<or> a = c \<and> b < d"
  by (simp add: worker_less_def)

lemma batch_rank:
  assumes "0 < BatchMax W" and "q \<noteq> []"
  shows "30 * length (drop (nat (BatchMax W)) q) + 25 * length (take (nat (BatchMax W)) q) + 2
    < 30 * length q + 1"
proof -
  have "1 \<le> length (take (nat (BatchMax W)) q)" using assms by (cases q) auto
  moreover have "length (take (nat (BatchMax W)) q) + length (drop (nat (BatchMax W)) q) = length q"
    by (metis append_take_drop_id length_append)
  ultimately show ?thesis by linarith
qed

lemma worker_step_rank:
  assumes pos: "0 < BatchMax W" and run: "worker_step H C W (c, s) w = (y, w')"
  shows "w' = WTick \<or> w = WTick \<and> fst (worker_rank w') < 3 \<or> (worker_rank w', worker_rank w) \<in> worker_less"
proof (cases w)
  case (WBatch q)
  then show ?thesis using run batch_rank [OF pos, of q] by (cases "q = []") auto
next
  case (WCollect ms items q)
  then show ?thesis
    using run by (cases ms; cases items) (auto split: sum.splits option.splits if_splits)
next
  case (WLearn cur st ms items q)
  then show ?thesis using run by (cases st) (auto split: prod.splits sum.splits)
next
  case (WSubmit todo items q)
  then show ?thesis using run by (cases todo) (auto split: prod.splits sum.splits)
next
  case (WConfirm th todo q)
  then show ?thesis using run by (cases todo) (auto simp del: if_split split: prod.splits sum.splits)
next
  case (WReconcile todo e q)
  then show ?thesis using run by (cases todo) (auto split: prod.splits if_splits)
next
  case (WPoll ms)
  then show ?thesis
    using run by (cases ms) (auto split: prod.splits sum.splits file_status.splits)
qed (use run in \<open>auto split: prod.splits sum.splits if_splits\<close>)

text \<open>
  Whatever changes the database and the chain between its steps, the thread is back at the ticker
  after finitely many of them, again and again.
\<close>

lemma worker_pass_ends:
  assumes pos: "0 < BatchMax W" and run: "\<forall>i. ws (Suc i) = snd (worker_step H C W (cs i) (ws i))"
  shows "\<exists>n \<ge> k. ws n = WTick"
proof (rule ccontr)
  assume "\<not> (\<exists>n \<ge> k. ws n = WTick)"
  then have busy: "ws n \<noteq> WTick" if "k \<le> n" for n using that by blast
  have "(worker_rank (ws (Suc (k + i))), worker_rank (ws (k + i))) \<in> worker_less" for i
    using worker_step_rank [OF pos, of H C "fst (cs (k + i))" "snd (cs (k + i))" "ws (k + i)"
        "fst (worker_step H C W (cs (k + i)) (ws (k + i)))" "ws (Suc (k + i))"]
      busy [of "k + i"] busy [of "Suc (k + i)"] run by simp
  then have "\<exists>f. \<forall>i. (f (Suc i), f i) \<in> worker_less"
    by (intro exI [of _ "\<lambda>i. worker_rank (ws (k + i))"]) simp
  then show False using worker_less_wf by (simp add: wf_iff_no_infinite_down_chain)
qed

end
