(* ===== verification/Whole.thy ===== *)
theory Whole
  imports Concurrent_Run Worker_Thread
begin

text \<open>
  The whole gateway, step by step: any number of requests, the worker's goroutine, the operations
  of the bucket index, a network that changes by itself, and crashes, in any order. It refines the
  interleavings of \<open>Concurrent\<close>, where the worker is any sequence of justified writes.
\<close>

section \<open>The system\<close>

type_synonym ('c, 'b, 'd) whole = "('c \<times> chain_call list) \<times> ('b, 'd) svc \<times> pc list \<times> wpc"

inductive whole_step ::
  "('b, 'v, 'd, 'z) svc_host_scheme \<Rightarrow> 'c chain \<Rightarrow> worker_config \<Rightarrow> svc_config
     \<Rightarrow> ('c, 'b, 'd) whole \<Rightarrow> ('c, 'b, 'd) whole \<Rightarrow> bool"
  for H :: "('b, 'v, 'd, 'z) svc_host_scheme" and C :: "'c chain" and W :: worker_config and G :: svc_config
where
  wh_thread: "i < length ps \<Longrightarrow> thread_step H G s (ps ! i) = (t, q) \<Longrightarrow>
    whole_step H C W G (cl, s, ps, w) (cl, t, ps[i := q], w)"
| wh_request: "request_pc p \<Longrightarrow> whole_step H C W G (cl, s, ps, w) (cl, s, ps @ [p], w)"
| wh_worker: "worker_step H (logged C) W (cl, sv_store s) w = ((cl', t), w') \<Longrightarrow>
    whole_step H C W G (cl, s, ps, w) (cl', s\<lparr>sv_store := t\<rparr>, ps, w')"
| wh_network: "whole_step H C W G ((c, l), s, ps, w) ((d, l), s, ps, w)"
| wh_index: "store_exec H (sv_store s) p = Some (t, x) \<Longrightarrow> op_ok H (sv_store s) p \<Longrightarrow> index_op p \<Longrightarrow>
    whole_step H C W G (cl, s, ps, w) (cl, s\<lparr>sv_store := t\<rparr>, ps, w)"
| wh_tick: "whole_step H C W G (cl, s, ps, w) (cl, s\<lparr>tick := Suc (tick s)\<rparr>, ps, w)"
| wh_reopen: "Open_store H e (db_file_of (sv_store s)) = Inr u \<Longrightarrow>
    whole_step H C W G (cl, s, ps, w) (cl, s\<lparr>sv_store := u\<lparr>txn := n\<rparr>\<rparr>, [], WTick)"
| wh_restart: "New_service H G s = (t, x) \<Longrightarrow> whole_step H C W G (cl, s, ps, w) (cl, t, [], WTick)"

definition whole_reachable ::
  "('b, 'v, 'd, 'z) svc_host_scheme \<Rightarrow> 'c chain \<Rightarrow> worker_config \<Rightarrow> svc_config
     \<Rightarrow> ('c, 'b, 'd) whole \<Rightarrow> bool" where
  "whole_reachable H C W G x \<longleftrightarrow>
     (\<exists>c s. con_start H ([], s, []) \<and> (whole_step H C W G)\<^sup>*\<^sup>* ((c, []), s, [], WTick) x)"

lemma whole_reachable_start: "con_start H ([], s, []) \<Longrightarrow> whole_reachable H C W G ((c, []), s, [], WTick)"
  unfolding whole_reachable_def by (intro exI conjI) (assumption, rule rtranclp.rtrancl_refl)

lemma whole_reachable_run:
  assumes "whole_reachable H C W G x" and "(whole_step H C W G)\<^sup>*\<^sup>* x y"
  shows "whole_reachable H C W G y"
proof -
  obtain c s where "con_start H ([], s, [])" "(whole_step H C W G)\<^sup>*\<^sup>* ((c, []), s, [], WTick) x"
    using assms(1) unfolding whole_reachable_def by (elim exE conjE)
  then show ?thesis
    unfolding whole_reachable_def by (intro exI conjI) (assumption, erule rtranclp_trans, rule assms(2))
qed

section \<open>What the worker knows at its program points\<close>

text \<open>The answers that the goroutine holds are in the log of the chain's answers.\<close>

fun wpc_ok :: "chain_call list \<Rightarrow> wpc \<Rightarrow> bool" where
  "wpc_ok l (WLearn cur st ms items q) = (Ask (Root cur) (Inr st) \<in> set l)"
| "wpc_ok l (WConfirm th todo q) = (\<forall>it \<in> set todo. status_ok l (ItRoot it) StatusOnchain)"
| "wpc_ok l (WReconcile todo e q) = (\<forall>it \<in> set todo. status_ok l (ItRoot it) StatusFailed)"
| "wpc_ok l (WSkip it todo e q) = (\<forall>it \<in> set (it # todo). status_ok l (ItRoot it) StatusFailed)"
| "wpc_ok l (WCount it todo e q) = (\<forall>it \<in> set (it # todo). status_ok l (ItRoot it) StatusFailed)"
| "wpc_ok l (WGive it st why todo e q) =
     (status_ok l (ItRoot it) st \<and> (\<forall>it \<in> set todo. status_ok l (ItRoot it) StatusFailed))"
| "wpc_ok l (WPollSet m st why rest) = status_ok l (Root m) st"
| "wpc_ok l w = True"

text \<open>A step of the worker appends its calls to the log, and writes only what the log justifies.\<close>

definition worker_does where
  "worker_does H l s l' t w' \<longleftrightarrow> (\<exists>new. l' = l @ new) \<and> wpc_ok l' w' \<and> touched H UNIV l' s t"

lemma worker_step_does:
  assumes ok: "wpc_ok l w" and run: "worker_step H (logged C) W ((c, l), s) w = (((c', l'), t), w')"
  shows "worker_does H l s l' t w'"
proof (cases w)
  case (WCollect ms items q)
  then show ?thesis
    using run by (cases ms) (auto simp: worker_does_def split: sum.splits option.splits if_splits)
next
  case (WAsk cur ms items q)
  then show ?thesis using run by (auto simp: worker_does_def split: prod.splits sum.splits)
next
  case (WLearn cur st ms items q)
  then show ?thesis
    using run ok touched_SetStatus [OF UNIV_I, of l "Root cur" StatusFinalized H s s "[]" "[]"]
      touched_SetSkipTx [OF UNIV_I, of H l s s "Root cur"]
    by (cases st) (auto simp: worker_does_def split: prod.splits sum.splits)
next
  case (WSubmit todo items q)
  then show ?thesis
  proof (cases todo)
    case (Cons it rest)
    then show ?thesis
      using run WSubmit touched_SetStatus [OF UNIV_I, of l "ItRoot it" StatusSubmitted H s s "[]" "[]"]
      by (auto simp: worker_does_def split: prod.splits sum.splits)
  qed (use run WSubmit in \<open>auto simp: worker_does_def\<close>)
next
  case (WSend items q)
  then show ?thesis using run by (auto simp: worker_does_def split: prod.splits sum.splits) blast+
next
  case (WConfirm th todo q)
  then show ?thesis
  proof (cases todo)
    case (Cons it rest)
    then show ?thesis
      using run ok WConfirm
        touched_SetStatus [OF UNIV_I, of l "ItRoot it" StatusOnchain H s s "if ItSkipTx it then [] else th" "[]"]
      by (auto simp: worker_does_def simp del: if_split split: prod.splits sum.splits)
  qed (use run WConfirm in \<open>auto simp: worker_does_def\<close>)
next
  case (WReconcile todo e q)
  then show ?thesis
  proof (cases todo)
    case (Cons it rest)
    obtain d a where a: "FileStatusOf C c (ItRoot it) = (d, a)" by force
    have later: "status_ok l r StatusFailed \<Longrightarrow> status_ok (l @ new) r StatusFailed" for r new
      by (erule status_ok_mono) simp
    show ?thesis
      using run ok WReconcile Cons a later
      by (auto simp: worker_does_def simp del: status_ok.simps(3) split: prod.splits if_splits)
  qed (use run WReconcile in \<open>auto simp: worker_does_def\<close>)
next
  case (WSkip it todo e q)
  then show ?thesis
    using run ok touched_SetSkipTx [OF UNIV_I, of H l s s "ItRoot it" True] by (auto simp: worker_does_def simp del: status_ok.simps(3))
next
  case (WCount it todo e q)
  then show ?thesis
    using run ok touched_IncRetries [OF UNIV_I, of H l s s "ItRoot it"]
    by (auto simp: worker_does_def simp del: status_ok.simps(3) split: prod.splits sum.splits if_splits)
next
  case (WGive it st why todo e q)
  then show ?thesis
    using run ok touched_SetStatus [OF UNIV_I, of l "ItRoot it" st H s s "[]" why] by (auto simp: worker_does_def simp del: status_ok.simps(3))
next
  case (WPoll ms)
  then show ?thesis
    using run by (cases ms) (auto simp: worker_does_def split: prod.splits sum.splits file_status.splits)
next
  case (WPollSet m st why rest)
  then show ?thesis
    using run ok touched_SetStatus [OF UNIV_I, of l "Root m" st H s s "[]" why] by (auto simp: worker_does_def)
qed (use run in \<open>auto simp: worker_does_def split: sum.splits if_splits\<close>)

text \<open>The log holds answers that the chain has given.\<close>

lemma worker_step_real:
  "worker_step H (logged C) W ((c, l), s) w = (((c', l'), t), w') \<Longrightarrow> real_calls C l \<Longrightarrow> real_calls C l'"
  using log.worker_step_keeps [of H C W "(c, l)" s w "(c', l')" t w'] by simp

lemma whole_step_real:
  "whole_step H C W G ((c, l), s, ps, w) ((c', l'), s', ps', w') \<Longrightarrow> real_calls C l \<Longrightarrow> real_calls C l'"
  by (erule whole_step.cases) (auto dest: worker_step_real)

section \<open>Refinement\<close>

lemma whole_step_refines:
  assumes "whole_step H C W G ((c, l), s, ps, w) ((c', l'), s', ps', w')" and "wpc_ok l w"
  shows "wpc_ok l' w' \<and> (con_step H G)\<^sup>*\<^sup>* (l, s, ps) (l', s', ps')"
  using assms(1)
proof cases
  case (wh_worker t)
  then have "worker_does H l (sv_store s) l' t w'" by (intro worker_step_does [OF assms(2)])
  then obtain new where new: "l' = l @ new" "wpc_ok l' w'" "touched H UNIV l' (sv_store s) t"
    unfolding worker_does_def by blast
  have "con_step H G (l, s, ps) (l', s, ps)" unfolding new(1) by (rule con_chain)
  moreover have "(con_step H G)\<^sup>*\<^sup>* (l', s, ps) (l', s\<lparr>sv_store := t\<rparr>, ps)" by (rule con_touched [OF new(3)])
  ultimately show ?thesis
    using new(2) wh_worker by (auto intro: converse_rtranclp_into_rtranclp)
qed (use assms(2) in \<open>auto intro!: r_into_rtranclp intro: con_step.intros\<close>)

lemma whole_run_refines:
  assumes "(whole_step H C W G)\<^sup>*\<^sup>* x ((c', l'), s', ps', w')" and "x = ((c, l), s, ps, w)" and "wpc_ok l w"
  shows "wpc_ok l' w' \<and> (con_step H G)\<^sup>*\<^sup>* (l, s, ps) (l', s', ps')"
  using assms
proof (induction "((c', l'), s', ps', w')" arbitrary: c' l' s' ps' w' rule: rtranclp_induct)
  case base
  then show ?case by auto
next
  case (step y)
  obtain d k u qs v where y: "y = ((d, k), u, qs, v)" by (metis surj_pair)
  have "wpc_ok k v \<and> (con_step H G)\<^sup>*\<^sup>* (l, s, ps) (k, u, qs)"
    using step.hyps(3) [OF y] step.prems by blast
  then show ?case using whole_step_refines [OF step.hyps(2) [unfolded y]] by (auto intro: rtranclp_trans)
qed

lemma whole_refines:
  assumes "whole_reachable H C W G ((c, l), s, ps, w)"
  shows "wpc_ok l w \<and> con_reachable H G (l, s, ps)"
proof -
  obtain c0 s0 where s0: "con_start H ([], s0, [])"
    "(whole_step H C W G)\<^sup>*\<^sup>* ((c0, []), s0, [], WTick) ((c, l), s, ps, w)"
    using assms unfolding whole_reachable_def by blast
  have "wpc_ok l w \<and> (con_step H G)\<^sup>*\<^sup>* ([], s0, []) (l, s, ps)"
    using whole_run_refines [OF s0(2) refl] by simp
  then show ?thesis using con_reachable_run [OF con_reachable_start [OF s0(1)]] by blast
qed

lemma whole_reachable_real:
  assumes "whole_reachable H C W G ((c, l), s, ps, w)"
  shows "real_calls C l"
proof -
  obtain c0 s0 where s0: "(whole_step H C W G)\<^sup>*\<^sup>* ((c0, []), s0, [], WTick) ((c, l), s, ps, w)"
    using assms unfolding whole_reachable_def by blast
  then show ?thesis
  proof (induction "((c, l), s, ps, w)" arbitrary: c l s ps w rule: rtranclp_induct)
    case (step y)
    obtain d k u qs v where y: "y = ((d, k), u, qs, v)" by (metis surj_pair)
    show ?case using whole_step_real [OF step.hyps(2) [unfolded y] step.hyps(3) [OF y]] .
  qed (simp add: real_calls_def)
qed

section \<open>Runs of one thread\<close>

lemma whole_alone:
  assumes "alone H G (s, p) (t, q)" and "i < length ps" and "ps ! i = p"
  shows "(whole_step H C W G)\<^sup>*\<^sup>* (cl, s, ps, w) (cl, t, ps[i := q], w)"
  using assms(1)
proof (induction "(t, q)" arbitrary: t q rule: rtranclp_induct)
  case base
  then show ?case using assms(2,3) by (metis list_update_id rtranclp.rtrancl_refl)
next
  case (step y)
  obtain u r where y: "y = (u, r)" by force
  have "thread_step H G u (ps[i := r] ! i) = (t, q)" using step.hyps(2) assms(2) by (simp add: y thread_rel_def)
  then have "whole_step H C W G (cl, u, ps[i := r], w) (cl, t, ps[i := r, i := q], w)"
    by (intro wh_thread) (use assms(2) in simp)
  with step.hyps(3) [OF y] show ?case by (simp add: rtranclp.rtrancl_into_rtrancl)
qed

lemma whole_worker_alone:
  assumes "worker_alone H (logged C) W ((cl, sv_store s), w) ((cl', t), w')"
  shows "(whole_step H C W G)\<^sup>*\<^sup>* (cl, s, ps, w) (cl', s\<lparr>sv_store := t\<rparr>, ps, w')"
  using assms
proof (induction "((cl', t), w')" arbitrary: cl' t w' rule: tranclp_induct)
  case base
  then show ?case by (auto simp: worker_rel_def intro!: r_into_rtranclp wh_worker)
next
  case (step y)
  obtain d u v where y: "y = ((d, u), v)" by (metis surj_pair)
  have "worker_step H (logged C) W (d, sv_store (s\<lparr>sv_store := u\<rparr>)) v = ((cl', t), w')"
    using step.hyps(2) by (simp add: y worker_rel_def)
  then have "whole_step H C W G (d, s\<lparr>sv_store := u\<rparr>, ps, v) (cl', s\<lparr>sv_store := u\<rparr>\<lparr>sv_store := t\<rparr>, ps, w')"
    by (rule wh_worker)
  with step.hyps(3) [OF y] show ?case by (simp add: rtranclp.rtrancl_into_rtrancl)
qed

end
