(* ===== verification/Whole_Props.thy ===== *)
theory Whole_Props
  imports Whole Concurrent_Example Uploader_Props
begin

text \<open>The properties of the worker's goroutine among the requests.\<close>

text \<open>
  C2: The whole gateway refines the interleavings. Whatever any number of requests, the worker's
  goroutine, the bucket index, the network and crashes do, in any order of their single accesses,
  the database, the directories and the requests are in a configuration of the interleaved system,
  with the calls that the worker really made as its log: each answer in it was given by the chain,
  and every status in the database is justified by one.
\<close>

theorem whole_gateway_refines:
  assumes "collision_free H" and "whole_reachable H C W G ((c, l), s, ps, w)"
  shows "con_reachable H G (l, s, ps)
    \<and> (\<forall>r a. Ask r a \<in> set l \<longrightarrow> (\<exists>c c'. FileStatusOf C c r = (c', a)))
    \<and> (\<forall>items a. Upload items a \<in> set l \<longrightarrow> (\<exists>c c'. BatchUpload C c items = (c', a)))
    \<and> (\<forall>r m. meta_at H (sv_store s) r = Some m \<longrightarrow> status_ok l r (Status m))"
proof -
  have con: "con_reachable H G (l, s, ps)" using whole_refines [OF assms(2)] ..
  have "con_inv H (l, s, ps)" by (rule collision_free.con_reachable_inv [OF assms(1) con])
  note ok = con_okD(2) [OF con_invD(1) [OF this]]
  show ?thesis using con ok whole_reachable_real [OF assms(2)] by (auto simp: real_calls_def)
qed

text \<open>A run with an upload and the worker's first pass over it.\<close>

lemma wx_stored:
  "whole_reachable gx_host ex_chain ex_config gx_config
     ((0, []), gx_stored, [PutDone (Inr (gx_meta, False))], WTick)"
proof -
  let ?R = "(whole_step gx_host ex_chain ex_config gx_config)\<^sup>*\<^sup>*"
  have "con_start gx_host ([], gx_start, [])" by (simp add: con_start_def gx_start_def gx_store_start)
  then have start: "whole_reachable gx_host ex_chain ex_config gx_config ((0, []), gx_start, [], WTick)"
    by (rule whole_reachable_start)
  have "?R ((0, []), gx_start, [], WTick) ((0, []), gx_start, [cx_put], WTick)"
    using wh_request [of cx_put gx_host ex_chain ex_config gx_config "(0, [])" gx_start "[]" WTick]
    by (simp add: cx_put_def r_into_rtranclp)
  moreover have "?R ((0, []), gx_start, [cx_put], WTick) ((0, []), gx_stored, [PutDone (Inr (gx_meta, False))], WTick)"
    using whole_alone [OF put_alone [OF gx_stored_put], of 0 "[cx_put]"] by (simp add: cx_put_def)
  ultimately show ?thesis using whole_reachable_run [OF start] rtranclp_trans by meson
qed

lemma wx_flushed:
  "\<exists>c l t. whole_reachable gx_host ex_chain ex_config gx_config
     ((c, l), gx_stored\<lparr>sv_store := t\<rparr>, [PutDone (Inr (gx_meta, False))], WTick)
     \<and> run_ticks gx_host (logged ex_chain) ex_config (Suc 0) ((0, []), sv_store gx_stored) = Some ((c, l), t)"
proof -
  have pos: "0 < BatchMax ex_config" by simp
  obtain cs where cs: "run_ticks gx_host (logged ex_chain) ex_config (Suc 0) ((0, []), sv_store gx_stored) = Some cs"
    "worker_alone gx_host (logged ex_chain) ex_config (((0, []), sv_store gx_stored), WTick) (cs, WTick)"
    using ticks_alone [OF pos, of gx_host "logged ex_chain" 0 "((0, []), sv_store gx_stored)"] by blast
  obtain c l t where c: "cs = ((c, l), t)" by (metis surj_pair)
  show ?thesis
    using whole_reachable_run [OF wx_stored whole_worker_alone [OF cs(2) [unfolded c]]] cs(1) c by blast
qed

theorem whole_gateway_refines_witness:
  "\<exists>c l t. run_ticks gx_host (logged ex_chain) ex_config (Suc 0) ((0, []), sv_store gx_stored) = Some ((c, l), t)
     \<and> con_reachable gx_host gx_config (l, gx_stored\<lparr>sv_store := t\<rparr>, [PutDone (Inr (gx_meta, False))])"
proof -
  obtain c l t where
    run: "whole_reachable gx_host ex_chain ex_config gx_config
      ((c, l), gx_stored\<lparr>sv_store := t\<rparr>, [PutDone (Inr (gx_meta, False))], WTick)"
    and ticks: "run_ticks gx_host (logged ex_chain) ex_config (Suc 0) ((0, []), sv_store gx_stored) = Some ((c, l), t)"
    using wx_flushed by blast
  have "con_reachable gx_host gx_config (l, gx_stored\<lparr>sv_store := t\<rparr>, [PutDone (Inr (gx_meta, False))])"
    using whole_gateway_refines [OF gx_hosts(1) run] by (rule conjunct1)
  then show ?thesis using ticks by blast
qed

text \<open>
  C20: The goroutine of \<open>Run\<close> does what \<open>Flush\<close> and \<open>PollFinality\<close> do. With the batch size that
  \<open>uploader.New\<close> gives it, any number of ticks that no request interrupts takes the thread from
  the ticker back to the ticker, with the chain and the database that the ticks of \<open>Run\<close> leave.
\<close>

theorem worker_thread_agrees:
  assumes "0 < BatchMax W"
  shows "\<exists>cs'. run_ticks H C W (Suc n) cs = Some cs'
    \<and> (worker_rel H C W)\<^sup>+\<^sup>+ (cs, WTick) (cs', WTick)"
  using assms by (rule ticks_alone)

theorem worker_thread_agrees_witness:
  "\<exists>cs'. run_ticks ref_host ex_chain ex_config (Suc 1) (0, ex_created) = Some cs'
     \<and> (worker_rel ref_host ex_chain ex_config)\<^sup>+\<^sup>+ ((0, ex_created), WTick) (cs', WTick)"
  by (rule worker_thread_agrees) simp

text \<open>
  C21: The worker is never stuck. Whatever the requests and the network change between its steps,
  the goroutine is back at the ticker after finitely many steps, from any point on.
\<close>

theorem worker_returns_to_ticker:
  assumes "0 < BatchMax W" and "\<forall>i. ws (Suc i) = snd (worker_step H C W (cs i) (ws i))"
  shows "\<exists>n \<ge> k. ws n = WTick"
  using assms by (rule worker_pass_ends)

theorem worker_returns_to_ticker_witness:
  "\<exists>n \<ge> 5. ((\<lambda>w. snd (worker_step ref_host ex_chain ex_config (0, ex_created) w)) ^^ n) WTick = WTick"
  by (rule worker_returns_to_ticker [where H = ref_host and C = ex_chain and W = ex_config
        and cs = "\<lambda>_. (0, ex_created)"]) simp_all

end
