(* ===== verification/Process.thy ===== *)
theory Process
  imports Config Chain_Facts Concurrent_Run
begin

text \<open>
  \<open>cmd/gateway/main.go\<close>: the construction of the components in \<open>main\<close>, over the models of
  \<open>loadConfig\<close>, \<open>store.Open\<close>, \<open>chain.New\<close>, \<open>object.New\<close> and \<open>uploader.New\<close>, and the goroutines
  of the running process from the signal to the exit. Flag parsing, logging and the fields of the
  HTTP server are not modelled.
\<close>

section \<open>Startup\<close>

text \<open>What \<open>main\<close> has constructed when it starts to serve.\<close>

record 'h running =
  RunConfig :: gw_config
  RunBackend :: "'h backend"
  RunService :: svc_config
  RunWorker :: worker_config
  RunInterval :: int

text \<open>
  \<open>disk\<close> is what the last process left: the database file and the directories. An error is
  \<open>os.Exit(1)\<close>, which runs no deferred function, so that what was opened before stays open until
  the process is gone.
\<close>

definition startup ::
  "config_host \<Rightarrow> ('b, 'v, 'd, 'z) svc_host_scheme \<Rightarrow> ('w, 'h, 'x) sdk \<Rightarrow> string \<Rightarrow> err option
     \<Rightarrow> 'w \<Rightarrow> ('b, 'd) svc \<Rightarrow> ('w \<times> ('b, 'd) svc) \<times> 'h running result" where
  "startup E H S path open_err w disk =
     (case loadConfig E path of
        Inl e \<Rightarrow> ((w, disk), Inl e)
      | Inr cfg \<Rightarrow>
          (case os_call H disk of
             (s1, Some e) \<Rightarrow> ((w, s1), Inl e)
           | (s1, None) \<Rightarrow>
               (case Open_store H open_err (db_file_of (sv_store s1)) of
                  Inl e \<Rightarrow> ((w, s1), Inl e)
                | Inr st \<Rightarrow>
                    (let s2 = s1\<lparr>sv_store := st\<rparr> in
                     (case New_backend S w (chain_options cfg) of
                        (w1, Inl e) \<Rightarrow> ((w1, s2), Inl e)
                      | (w1, Inr b) \<Rightarrow>
                          (case New_service H (service_config cfg) s2 of
                             (s3, Inl e) \<Rightarrow> ((w1, s3), Inl e)
                           | (s3, Inr _) \<Rightarrow>
                               ((w1, s3),
                                Inr \<lparr>RunConfig = cfg, RunBackend = b, RunService = service_config cfg,
                                     RunWorker = New_worker (uploader_config cfg),
                                     RunInterval = flush_interval cfg\<rparr>)))))))"

lemma connect_nodes_length:
  "connect_nodes S closer web3 w urls cs = (w', Inr ds) \<Longrightarrow> length ds = length cs + length urls"
  by (induction urls arbitrary: w cs) (auto split: prod.splits sum.splits)

lemma New_backend_ready:
  "New_backend S w opt = (w', Inr b) \<Longrightarrow>
   Nodes opt \<noteq> [] \<and> length (clients b) = length (Nodes opt) \<and> replica b \<noteq> 0"
  by (auto simp: New_backend_def Let_def dest!: connect_nodes_length
      split: prod.splits sum.splits option.splits if_splits)

lemma New_worker_ready: "0 < BatchMax (New_worker W)" "0 < MaxRetries (New_worker W)"
    "PathOf (New_worker W) = PathOf W"
  by (simp_all add: New_worker_def Let_def)

text \<open>The ways through the startup: an early exit, an exit after the database is open, the whole.\<close>

lemma startup_cases:
  assumes "startup E H S path open_err w disk = ((w', s), out)"
  obtains (early) e where "out = Inl e" "s = disk \<or> s = disk\<lparr>tick := Suc (tick disk)\<rparr>"
  | (opened) cfg u e where "loadConfig E path = Inr cfg"
      "Open_store H open_err (db_file_of (sv_store disk)) = Inr u" "out = Inl e"
      "s = disk\<lparr>tick := Suc (tick disk), sv_store := u\<rparr>"
  | (service) cfg u b x where "loadConfig E path = Inr cfg"
      "Open_store H open_err (db_file_of (sv_store disk)) = Inr u"
      "New_service H (service_config cfg) (disk\<lparr>tick := Suc (tick disk), sv_store := u\<rparr>) = (s, x)"
      "New_backend S w (chain_options cfg) = (w', Inr b)"
      "out = (case x of Inl e \<Rightarrow> Inl e
        | Inr _ \<Rightarrow> Inr \<lparr>RunConfig = cfg, RunBackend = b, RunService = service_config cfg,
                        RunWorker = New_worker (uploader_config cfg), RunInterval = flush_interval cfg\<rparr>)"
proof (cases "loadConfig E path")
  case (Inl e)
  then have "out = Inl e" "s = disk" using assms by (auto simp: startup_def)
  then show thesis using early by simp
next
  case cfg: (Inr cfg)
  show thesis
  proof (cases "os_fault H (tick disk)")
    case (Some e)
    then have "out = Inl e" "s = disk\<lparr>tick := Suc (tick disk)\<rparr>"
      using assms cfg by (auto simp: startup_def os_call_def)
    then show thesis using early by simp
  next
    case None
    show thesis
    proof (cases "Open_store H open_err (db_file_of (sv_store disk))")
      case (Inl e)
      then have "out = Inl e" "s = disk\<lparr>tick := Suc (tick disk)\<rparr>"
        using assms cfg None by (auto simp: startup_def os_call_def)
      then show thesis using early by simp
    next
      case db: (Inr u)
      let ?s2 = "disk\<lparr>tick := Suc (tick disk), sv_store := u\<rparr>"
      obtain w1 y where nb: "New_backend S w (chain_options cfg) = (w1, y)" by force
      obtain s3 x where ns: "New_service H (service_config cfg) ?s2 = (s3, x)" by force
      show thesis
      proof (cases y)
        case (Inl e)
        then have "out = Inl e" "s = ?s2"
          using assms cfg None db nb by (auto simp: startup_def os_call_def Let_def)
        then show thesis using opened [OF cfg db] by simp
      next
        case (Inr b)
        then have "w' = w1 \<and> s = s3 \<and> out = (case x of Inl e \<Rightarrow> Inl e
            | Inr _ \<Rightarrow> Inr \<lparr>RunConfig = cfg, RunBackend = b, RunService = service_config cfg,
                RunWorker = New_worker (uploader_config cfg), RunInterval = flush_interval cfg\<rparr>)"
          using assms cfg None db nb ns by (cases x) (auto simp: startup_def os_call_def Let_def)
        then show thesis using service [OF cfg db] ns nb Inr by simp
      qed
    qed
  qed
qed

text \<open>A startup is a crash, a reopened database and a construction of the service, as far as it gets.\<close>

lemma startup_reachable:
  assumes reach: "con_reachable H G (l, disk, ps)"
    and run: "startup E H S path open_err w disk = ((w', s), out)"
    and G: "\<And>cfg. loadConfig E path = Inr cfg \<Longrightarrow> service_config cfg = G"
  shows "\<exists>qs. con_reachable H G (l, s, qs)"
proof -
  let ?s1 = "disk\<lparr>tick := Suc (tick disk)\<rparr>"
  have s1: "con_reachable H G (l, ?s1, ps)"
    by (rule con_reachable_run [OF reach]) (rule r_into_rtranclp, rule con_tick)
  have s2: "con_reachable H G (l, ?s1\<lparr>sv_store := u\<rparr>, [])"
    if "Open_store H e (db_file_of (sv_store disk)) = Inr u" for e u
  proof -
    have "u\<lparr>txn := 1\<rparr> = u" using Open_store_again [OF that] by simp
    then have "con_step H G (l, ?s1, ps) (l, ?s1\<lparr>sv_store := u\<rparr>, [])"
      using con_reopen [of H e ?s1 u G l ps 1] that by simp
    then show ?thesis by (intro con_reachable_run [OF s1] r_into_rtranclp)
  qed
  show ?thesis
    using run
  proof (cases rule: startup_cases)
    case (early e)
    then show ?thesis using reach s1 by auto
  next
    case (opened cfg u e)
    then show ?thesis using s2 by auto
  next
    case (service cfg u b x)
    have "con_step H G (l, ?s1\<lparr>sv_store := u\<rparr>, []) (l, s, [])"
      using service(3) G [OF service(1)] by (intro con_restart) auto
    then show ?thesis using con_reachable_run [OF s2 [OF service(2)] r_into_rtranclp] by blast
  qed
qed

lemma startup_serves:
  assumes "startup E H S path open_err w disk = ((w', s), Inr run)"
  shows "loadConfig E path = Inr (RunConfig run) \<and> RunService run = service_config (RunConfig run)
    \<and> RunWorker run = New_worker (uploader_config (RunConfig run))
    \<and> RunInterval run = flush_interval (RunConfig run)
    \<and> New_backend S w (chain_options (RunConfig run)) = (w', Inr (RunBackend run))
    \<and> (\<exists>u. Open_store H open_err (db_file_of (sv_store disk)) = Inr u
         \<and> New_service H (RunService run) (disk\<lparr>tick := Suc (tick disk), sv_store := u\<rparr>) = (s, Inr ()))"
  using assms
proof (cases rule: startup_cases)
  case (service cfg u b x)
  then show ?thesis by (cases x) auto
qed auto

lemma startup_ready:
  assumes "startup E H S path open_err w disk = ((w', s), Inr run)"
  shows "loadConfig E path = Inr (RunConfig run) \<and> RunService run = service_config (RunConfig run)
    \<and> 0 < BatchMax (RunWorker run) \<and> 0 < MaxRetries (RunWorker run)
    \<and> PathOf (RunWorker run) = CachePath (RunService run)
    \<and> cNodes (RunConfig run) \<noteq> [] \<and> length (clients (RunBackend run)) = length (cNodes (RunConfig run))
    \<and> replica (RunBackend run) \<noteq> 0"
  using startup_serves [OF assms] New_backend_ready [of S w "chain_options (RunConfig run)" w' "RunBackend run"]
  by (auto simp: New_worker_ready uploader_config_def chain_options_def)

context collision_free
begin

text \<open>The startup keeps every record, and serves with the database open.\<close>

lemma startup_store:
  assumes inv: "store_inv H (sv_store disk)" and run: "startup E H S path open_err w disk = ((w', s), out)"
  shows "meta_at H (sv_store s) = meta_at H (sv_store disk)
    \<and> (\<forall>r. out = Inr r \<longrightarrow> \<not> closed (sv_store s))"
proof -
  have db: "store_inv H u \<and> \<not> closed u \<and> meta_at H u = meta_at H (sv_store disk)"
    if "Open_store H open_err (db_file_of (sv_store disk)) = Inr u" for u
  proof -
    have "meta_at H u = meta_at H (sv_store disk)" unfolding Open_store_again [OF that] by (intro meta_at_cong) simp
    then show ?thesis
      using inv unfolding Open_store_again [OF that]
      by (simp add: store_inv_def meta_inv_def queue_inv_def sha_inv_def names_inv_def)
  qed
  show ?thesis
    using run
  proof (cases rule: startup_cases)
    case (opened cfg u e)
    then show ?thesis using db by simp
  next
    case (service cfg u b x)
    then show ?thesis using db [OF service(2)] New_service_shrunk [OF _ service(3)] by simp
  qed auto
qed

end

section \<open>From the signal to the exit\<close>

text \<open>
  The goroutines of the process: \<open>main\<close>, which serves and then runs its deferred calls in reverse
  order; the one that calls \<open>Shutdown\<close>; the worker; and one for each request in flight.
\<close>

datatype main_pc = Serving | ClosingBackend | ClosingStore | Stopping | Exited nat

datatype shutdown_pc = AwaitSignal | Draining | Drained

datatype worker_pc = WaitTick | Working | Stopped

record process =
  MainPc :: main_pc
  ShutPc :: shutdown_pc
  WorkerPc :: worker_pc
  Listening :: bool
  InFlight :: nat
  Signalled :: bool
  BackendOpen :: bool
  StoreOpen :: bool

fun alive :: "main_pc \<Rightarrow> bool" where
  "alive (Exited n) = False"
| "alive _ = True"

definition process_start :: process where
  "process_start =
     \<lparr>MainPc = Serving, ShutPc = AwaitSignal, WorkerPc = WaitTick, Listening = True, InFlight = 0,
      Signalled = False, BackendOpen = True, StoreOpen = True\<rparr>"

text \<open>
  As documented for \<open>net/http\<close>, \<open>Shutdown\<close> first closes the listener, on which \<open>ListenAndServe\<close>
  returns \<open>ErrServerClosed\<close> at once, and then waits for the connections or for its context, which
  ends after ten seconds. The exit of \<open>main\<close> ends every other goroutine where it is.
\<close>

inductive process_step :: "process \<Rightarrow> process \<Rightarrow> bool" where
  p_signal: "alive (MainPc p) \<Longrightarrow> process_step p (p\<lparr>Signalled := True\<rparr>)"
| p_accept: "alive (MainPc p) \<Longrightarrow> Listening p \<Longrightarrow> process_step p (p\<lparr>InFlight := Suc (InFlight p)\<rparr>)"
| p_answer: "alive (MainPc p) \<Longrightarrow> InFlight p = Suc n \<Longrightarrow> process_step p (p\<lparr>InFlight := n\<rparr>)"
| p_tick: "alive (MainPc p) \<Longrightarrow> WorkerPc p = WaitTick \<Longrightarrow> process_step p (p\<lparr>WorkerPc := Working\<rparr>)"
| p_tock: "alive (MainPc p) \<Longrightarrow> WorkerPc p = Working \<Longrightarrow> process_step p (p\<lparr>WorkerPc := WaitTick\<rparr>)"
| p_worker_done: "alive (MainPc p) \<Longrightarrow> WorkerPc p = WaitTick \<Longrightarrow> Signalled p \<Longrightarrow>
    process_step p (p\<lparr>WorkerPc := Stopped\<rparr>)"
| p_shutdown: "alive (MainPc p) \<Longrightarrow> ShutPc p = AwaitSignal \<Longrightarrow> Signalled p \<Longrightarrow>
    process_step p (p\<lparr>ShutPc := Draining, Listening := False\<rparr>)"
| p_drained: "alive (MainPc p) \<Longrightarrow> ShutPc p = Draining \<Longrightarrow> InFlight p = 0 \<Longrightarrow>
    process_step p (p\<lparr>ShutPc := Drained\<rparr>)"
| p_timeout: "alive (MainPc p) \<Longrightarrow> ShutPc p = Draining \<Longrightarrow> process_step p (p\<lparr>ShutPc := Drained\<rparr>)"
| p_serve_fails: "MainPc p = Serving \<Longrightarrow> Listening p \<Longrightarrow> process_step p (p\<lparr>MainPc := Exited 1\<rparr>)"
| p_serve_returns: "MainPc p = Serving \<Longrightarrow> \<not> Listening p \<Longrightarrow> process_step p (p\<lparr>MainPc := ClosingBackend\<rparr>)"
| p_close_backend: "MainPc p = ClosingBackend \<Longrightarrow>
    process_step p (p\<lparr>MainPc := ClosingStore, BackendOpen := False\<rparr>)"
| p_close_store: "MainPc p = ClosingStore \<Longrightarrow> process_step p (p\<lparr>MainPc := Stopping, StoreOpen := False\<rparr>)"
| p_exit: "MainPc p = Stopping \<Longrightarrow> process_step p (p\<lparr>MainPc := Exited 0\<rparr>)"

inductive_cases process_stepE: "process_step p q"

text \<open>What is open at each point of \<open>main\<close>.\<close>

fun main_holds :: "main_pc \<Rightarrow> process \<Rightarrow> bool" where
  "main_holds Serving p = (BackendOpen p \<and> StoreOpen p)"
| "main_holds ClosingBackend p = (\<not> Listening p \<and> BackendOpen p \<and> StoreOpen p)"
| "main_holds ClosingStore p = (\<not> Listening p \<and> \<not> BackendOpen p \<and> StoreOpen p)"
| "main_holds Stopping p = (\<not> Listening p \<and> \<not> BackendOpen p \<and> \<not> StoreOpen p)"
| "main_holds (Exited n) p =
     (if n = 0 then \<not> Listening p \<and> \<not> BackendOpen p \<and> \<not> StoreOpen p
      else Listening p \<and> BackendOpen p \<and> StoreOpen p)"

definition process_inv :: "process \<Rightarrow> bool" where
  "process_inv p \<longleftrightarrow> main_holds (MainPc p) p \<and> (Listening p \<or> Signalled p \<and> ShutPc p \<noteq> AwaitSignal)"

interpretation proc: invariant_system "\<lambda>p. p = process_start" process_step process_inv
proof
  show "process_inv p" if "p = process_start" for p using that by (simp add: process_inv_def process_start_def)
  show "process_inv q" if "process_step p q" "process_inv p" for p q
    using that by (cases "MainPc p") (auto simp: process_inv_def elim!: process_stepE)
qed

text \<open>
  The graceful shutdown does not wait: \<open>main\<close> does not join the goroutine that drains, so the
  process can exit with a request in flight and the worker in the middle of a batch.
\<close>

lemma exit_abandons_requests:
  "\<exists>p. process_step\<^sup>*\<^sup>* process_start p \<and> MainPc p = Exited 0 \<and> ShutPc p = Draining
     \<and> InFlight p = 1 \<and> WorkerPc p = Working"
proof -
  let ?p1 = "process_start\<lparr>InFlight := 1\<rparr>"
  let ?p2 = "?p1\<lparr>WorkerPc := Working\<rparr>"
  let ?p3 = "?p2\<lparr>Signalled := True\<rparr>"
  let ?p4 = "?p3\<lparr>ShutPc := Draining, Listening := False\<rparr>"
  let ?p5 = "?p4\<lparr>MainPc := ClosingBackend\<rparr>"
  let ?p6 = "?p5\<lparr>MainPc := ClosingStore, BackendOpen := False\<rparr>"
  let ?p7 = "?p6\<lparr>MainPc := Stopping, StoreOpen := False\<rparr>"
  let ?p8 = "?p7\<lparr>MainPc := Exited 0\<rparr>"
  have "process_step process_start ?p1" using p_accept [of process_start] by (simp add: process_start_def)
  moreover have "process_step ?p1 ?p2" by (rule p_tick) (simp_all add: process_start_def)
  moreover have "process_step ?p2 ?p3" by (rule p_signal) (simp add: process_start_def)
  moreover have "process_step ?p3 ?p4" by (rule p_shutdown) (simp_all add: process_start_def)
  moreover have "process_step ?p4 ?p5" by (rule p_serve_returns) (simp_all add: process_start_def)
  moreover have "process_step ?p5 ?p6" by (rule p_close_backend) simp
  moreover have "process_step ?p6 ?p7" by (rule p_close_store) simp
  moreover have "process_step ?p7 ?p8" by (rule p_exit) simp
  ultimately have "process_step\<^sup>*\<^sup>* process_start ?p8"
    by (meson converse_rtranclp_into_rtranclp rtranclp.rtrancl_refl)
  then show ?thesis by (intro exI [of _ ?p8]) (simp add: process_start_def)
qed

end
