(* ===== verification/Process_Props.thy ===== *)
theory Process_Props
  imports Process Chain_Props Concurrent_Example
begin

text \<open>Properties of the process: what it serves after a crash, and how it ends.\<close>

text \<open>
  C11: Recovery. Let any process with this configuration, with its requests interleaved in any
  way, have left the database and the directories in any state, and let \<open>main\<close> start on it. Then,
  however far it gets, every object record is as it was and the state is one that the gateway can
  reach, so that no data is lost; and when it serves, the database is open, the worker has a
  positive batch size and retry limit and reads the files where the service writes them, and the
  backend has one client for each configured node and a positive replica count.
\<close>

theorem startup_recovers:
  fixes disk :: "('b, 'd) svc"
  assumes "collision_free H" and "con_reachable H (service_config cfg) (l, disk, ps)"
    and "loadConfig E path = Inr cfg" and "startup E H S path open_err w disk = ((w', s), out)"
  shows "(\<exists>qs. con_reachable H (service_config cfg) (l, s, qs))
    \<and> meta_at H (sv_store s) = meta_at H (sv_store disk)
    \<and> (\<forall>run. out = Inr run \<longrightarrow>
         RunConfig run = cfg \<and> \<not> closed (sv_store s)
         \<and> 0 < BatchMax (RunWorker run) \<and> 0 < MaxRetries (RunWorker run)
         \<and> PathOf (RunWorker run) = CachePath (RunService run) \<and> RunService run = service_config cfg
         \<and> cNodes cfg \<noteq> [] \<and> length (clients (RunBackend run)) = length (cNodes cfg)
         \<and> replica (RunBackend run) \<noteq> 0)"
proof -
  have "store_inv H (sv_store disk)"
    using con_okD(1) con_invD(1) collision_free.con_reachable_inv [OF assms(1,2)] by blast
  note kept = collision_free.startup_store [OF assms(1) this assms(4)]
  have "RunConfig run = cfg \<and> \<not> closed (sv_store s)
         \<and> 0 < BatchMax (RunWorker run) \<and> 0 < MaxRetries (RunWorker run)
         \<and> PathOf (RunWorker run) = CachePath (RunService run) \<and> RunService run = service_config cfg
         \<and> cNodes cfg \<noteq> [] \<and> length (clients (RunBackend run)) = length (cNodes cfg)
         \<and> replica (RunBackend run) \<noteq> 0" if "out = Inr run" for run
    using that kept startup_ready [of E H S path open_err w disk w' s run] assms(3,4) by simp
  moreover have "\<exists>qs. con_reachable H (service_config cfg) (l, s, qs)"
    by (rule startup_reachable [OF assms(2,4)]) (simp add: assms(3))
  ultimately show ?thesis using kept by blast
qed

text \<open>A startup on what the gateway left after one upload.\<close>

definition px_config :: gw_config where
  "px_config = defaultConfig\<lparr>cDataDir := ''data'', cMaxSize := 10, cCacheMaxBytes := 4,
     cNodes := [''n1'', ''n2''], cEthRPC := ''rpc'', cPrivateKey := ''key''\<rparr>"

definition px_env :: config_host where
  "px_env = \<lparr>ReadFile = (\<lambda>_. Inr []), yaml_Unmarshal = (\<lambda>_ _. Inr px_config), Getenv = (\<lambda>_. []), quoted = id\<rparr>"

lemma px_load: "loadConfig px_env [] = Inr px_config"
  by (simp add: loadConfig_def read_config_def px_env_def applyEnvOverrides_def envStr_def envInt_def
      validate_def missing_settings_def px_config_def defaultConfig_def Let_def)

lemma px_service: "service_config px_config = gx_config"
  by (simp add: service_config_def px_config_def gx_config_def)

lemma px_serves: "\<exists>w s run. startup px_env gx_host ref_sdk [] None ex_world gx_stored = ((w, s), Inr run)"
proof -
  have os: "os_fault gx_host = (\<lambda>_. None)" "commit_err gx_host = (\<lambda>_. None)"
    by (simp_all add: gx_host_def ref_svc_def)
  obtain u where u: "Open_store gx_host None (db_file_of (sv_store gx_stored)) = Inr u"
    by (simp add: Open_store_def os)
  have opt: "chain_options px_config
      = \<lparr>Nodes = [''n1'', ''n2''], EthRPC = ''rpc'', PrivateKey = ''key'', ExpectedReplica = 2\<rparr>"
    by (simp add: chain_options_def replica_count_def px_config_def defaultConfig_def)
  have "trim_prefix ''key'' ''0x'' = ''key''" by code_simp
  then obtain w b where b: "New_backend ref_sdk ex_world (chain_options px_config) = (w, Inr b)"
    by (auto simp: New_backend_def opt ref_sdk_def ref_new_def ex_world_def Let_def)
  obtain t where t: "New_service gx_host gx_config (gx_stored\<lparr>tick := Suc (tick gx_stored), sv_store := u\<rparr>) = (t, Inr ())"
    using svc_quiet.New_service_quiet [OF gx_quiet] by metis
  show ?thesis using u b t by (simp add: startup_def px_load px_service os_call_def os)
qed

theorem startup_recovers_witness:
  "\<exists>w s run. startup px_env gx_host ref_sdk [] None ex_world gx_stored = ((w, s), Inr run)
     \<and> meta_at gx_host (sv_store s) gx_root = Some gx_meta \<and> length (clients (RunBackend run)) = 2"
proof -
  obtain w s run where run: "startup px_env gx_host ref_sdk [] None ex_world gx_stored = ((w, s), Inr run)"
    using px_serves by blast
  have "con_reachable gx_host (service_config px_config) ([], gx_stored, [PutDone (Inr (gx_meta, False))])"
    using cx_stored by (simp add: px_service)
  from startup_recovers [OF gx_hosts(1) this px_load run] show ?thesis
    using run by (intro exI [of _ w] exI [of _ s] exI [of _ run]) (simp add: gx_stored_meta px_config_def)
qed

text \<open>
  C40: How the process ends. At every moment between the start and the exit, the backend and the
  database stay open until the listener is closed after a signal; the backend is closed before the
  database; exit status 0 means that both are closed, and status 1 that the listener failed, which
  closes neither.
\<close>

theorem shutdown_order:
  assumes "process_step\<^sup>*\<^sup>* process_start p"
  shows "(\<not> BackendOpen p \<longrightarrow> \<not> Listening p \<and> Signalled p \<and> ShutPc p \<noteq> AwaitSignal)
    \<and> (\<not> StoreOpen p \<longrightarrow> \<not> BackendOpen p)
    \<and> (MainPc p = Exited 0 \<longrightarrow> Signalled p \<and> \<not> BackendOpen p \<and> \<not> StoreOpen p)
    \<and> (\<forall>n. MainPc p = Exited (Suc n) \<longrightarrow> BackendOpen p \<and> StoreOpen p)"
proof -
  have "process_inv p" using proc.inv_reachable [OF refl assms] .
  then show ?thesis by (cases "MainPc p") (auto simp: process_inv_def split: if_splits)
qed

theorem shutdown_order_witness:
  "\<exists>p. process_step\<^sup>*\<^sup>* process_start p \<and> MainPc p = Exited 0 \<and> \<not> StoreOpen p"
proof -
  obtain p where p: "process_step\<^sup>*\<^sup>* process_start p" "MainPc p = Exited 0"
    using exit_abandons_requests by blast
  then show ?thesis using shutdown_order [OF p(1)] by blast
qed

end
