(* ===== verification/Spec2Isabelle.thy ===== *)
theory Spec2Isabelle
  imports Store_Props Uploader_Props Chain_Props Gateway_Props Service_Props S3_Props Middleware_Props Config_Props
    Concurrent_Props Whole_Props Process_Props
begin

text \<open>
  Verification development for the 0G storage gateway: an S3-compatible object store that keeps
  uploads in a local cache directory, records them in a bbolt database, uploads them in batches to
  the 0G storage network, and evicts the local copy once 0G reports it final.

  \<^bold>\<open>The program and its parts.\<close> An HTTP request passes the middlewares (\<open>internal/s3gw/copysource.go\<close>,
  \<open>backpressure.go\<close>, \<open>imageprocess.go\<close>, \<open>xmlcontenttype.go\<close>) to the gofakes3 server, which calls
  the S3 backend (\<open>internal/s3gw/backend.go\<close>). The backend stores and reads contents through the
  object service (\<open>internal/object/service.go\<close>), which owns the cache and the spool directory, and
  maps bucket and key to the root of a content through the store (\<open>internal/store/store.go\<close>). One
  worker (\<open>internal/uploader/worker.go\<close>) takes the queues of the store to the chain backend
  (\<open>internal/chain/backend.go\<close>), which calls the 0G SDK. \<open>cmd/gateway\<close> reads the configuration and
  wires the parts. Everything shared is in the store (one transaction per operation), in the cache
  directory, and in two atomic fields of the object service.

  \<^bold>\<open>Which theory models which part.\<close> Definitions have the names of the source; a name that clashes
  with one of HOL or of another component has a suffix (\<open>Open_store\<close>, \<open>New_service\<close>, \<open>FileStatus_backend\<close>).

  \<^item> \<open>Gateway_Prelude\<close>, \<open>Go_Std\<close>, \<open>Go_Text\<close>, \<open>Go_Net\<close>: error values, \<open>result\<close> as a sum, the locale
    \<open>invariant_system\<close> that every step relation interprets, and the parts of Go's library whose exact
    result matters (JSON text, decimal numbers, \<open>strings\<close>, \<open>net/url\<close>, header maps).
  \<^item> \<open>Bolt\<close>, \<open>Store\<close>: the contract of bbolt (locale \<open>bolt\<close>, with a cursor that may skip entries under
    deletions; \<open>bolt_stable_cursor\<close>), the record \<open>store\<close> of the six buckets, and every exported
    operation of \<open>store.go\<close> as a transaction that commits or changes nothing. \<open>Store_Facts\<close> has the
    effect of each operation, \<open>Store_Inv\<close> the invariant \<open>store_inv\<close> of all reachable databases, and that
    every operation but a force deletion keeps \<open>orphan_free\<close> (with \<open>bolt_stable_cursor\<close>, which bbolt does
    not document and no property uses, a force deletion does too).
  \<^item> \<open>Uploader\<close>: \<open>processBatch\<close>, \<open>reconcileFailedBatch\<close>, \<open>Flush\<close>, \<open>PollFinality\<close> and \<open>Run\<close> over an
    arbitrary chain. \<open>Uploader_Facts\<close> shows that the worker changes the database only by three
    operations on its own roots, \<open>Uploader_Run\<close> the system of clients and worker in any order,
    \<open>Uploader_Progress\<close> the accounting of refused batches and the bound on retries.
  \<^item> \<open>Chain\<close>: \<open>New\<close>, \<open>Close\<close>, \<open>BatchUpload\<close>, \<open>FileStatus\<close>, \<open>Download\<close> over the record \<open>sdk\<close>; the locale
    \<open>sdk_handles\<close> accounts for open handles and gives the worker's contract \<open>chain_keeps\<close>.
    \<open>Chain_Facts\<close> orders the answers of a node (an instance of \<open>linorder\<close>); \<open>FileStatus\<close> is their maximum.
  \<^item> \<open>Object\<close>: \<open>Put\<close>, \<open>Open\<close>, eviction, admission and construction as functions on the record \<open>svc\<close>.
    \<open>Object_Facts\<close>, \<open>Object_Inv\<close>, \<open>Object_Run\<close> and \<open>Object_Put\<close> show that each keeps the invariant
    \<open>svc_inv\<close> and is a sequence of store operations, with any system call failing; \<open>Object_Limits\<close>
    describes the runs without failures; \<open>Object_Host\<close> interprets all contracts.
  \<^item> \<open>Gateway\<close>: requests, flushes, polls, bucket operations and restarts, each one step, on one state.
  \<^item> \<open>Threads\<close>, \<open>Threads_Seq\<close>, \<open>Concurrent\<close>, \<open>Concurrent_Inv\<close>, \<open>Concurrent_Put\<close>, \<open>Concurrent_Run\<close>:
    the object service under concurrency. A request is a thread with a program point between any two
    accesses to shared state; \<open>con_step\<close> interleaves any number of them with the worker's writes, the
    bucket index, answers of the chain, and crashes at any point. The proofs use an assertion at each
    program point (\<open>pc_ok\<close>) and one frame condition that the assertions are stable under (\<open>rely\<close>);
    \<open>put_from\<close> and \<open>open_from\<close> follow one upload and one read, with the value each was called with.
  \<^item> \<open>S3gw\<close>, \<open>S3_Facts\<close>, \<open>S3_Run\<close>: the backend's operations, the proof that each is a run of
    gateway steps, and the gateway as its S3 clients drive it (\<open>s3_step\<close>). \<open>Middleware\<close>: the four handlers and their stack. \<open>Imageproc\<close>, \<open>Float64\<close>: the
    resizer, with a rounding after every floating-point operation.
  \<^item> \<open>Config\<close>, \<open>Process\<close>: \<open>config.go\<close>; the construction of the components in \<open>main\<close>, and its
    goroutines from the signal to the exit.
  \<^item> \<open>Store_Example\<close>, \<open>Gateway_Example\<close>, \<open>S3_Example\<close>, \<open>Concurrent_Example\<close>: concrete runs on the
    reference host, where the witnesses evaluate.

  \<^bold>\<open>What is shown.\<close> The properties are in the theories named \<open>_Props\<close>.

  \<^item> Durability: an object that the chain has not reported final has its cache file with the recorded
    root, hash and size, in every state of the gateway with any failing system calls, and in every
    configuration of interleaved requests with crashes; a restart recovers it; a read returns the
    bytes that were uploaded, under concurrency and through the S3 layer too.
  \<^item> The worker: statuses are justified by what the chain said; a batch has only objects that may be
    uploaded; with a working database and nodes that answer, every refused object is retried or
    failed by the cap, and after enough ticks nothing is outstanding.
  \<^item> The store: queues agree with statuses, failed operations change nothing, no key outlives its
    bucket or names a missing object, listings are exact. (The part on buckets is
    about traffic without force deletions.)
  \<^item> Requests end and the worker returns to its ticker, whatever the others do, and alone they do what
    their functions do (\<open>put_alone\<close>, \<open>open_alone\<close>, \<open>admit_alone\<close>).
  \<^item> Limits: sizes, eviction order and amount, admission, the spool, dimensions of resized images. What
    holds only when no system call fails is stated under the premise \<open>svc_quiet\<close>.
  \<^item> HTTP: which requests are shed and what the others reach, copy sources, content types.
  \<^item> Refinement: an S3 call is a run of the gateway, the gateway's runs are runs of the abstract system
    of clients and worker, and they are among the interleavings.

  \<^bold>\<open>Bounds and fuel.\<close> No fuel is used. Loops over lists are structural; \<open>force_delete_loop\<close> and
  \<open>flush_loop\<close> are \<open>partial_function (option)\<close>, and the properties about them show that they return;
  the termination of requests is a well-founded order on program points. Go's \<open>int\<close> and \<open>int64\<close> are
  \<open>int\<close>, with \<open>int64\<close> applied where a sum or product may leave the range (\<open>MaxSize + 1\<close>, the cache
  counter, durations); \<open>uint\<close> is \<open>64 word\<close>. The field \<open>Retries\<close>, an \<open>int\<close> that grows by one per refused
  batch, is unbounded.

  \<^bold>\<open>Parameters.\<close> Code outside the repository is an argument: bbolt (\<open>host\<close> with the locale \<open>bolt\<close>),
  JSON and the clock (\<open>host\<close>), the operating system (\<open>os_fault\<close> decides for every call whether it
  fails, \<open>temp_name\<close> names new spool files), SHA-256, MD5, the Merkle root and the proof-verified
  download (\<open>svc_host\<close>; the locale \<open>collision_free\<close> assumes that digests of different contents differ
  and that a verified download has the root that was asked for), \<open>sort.Slice\<close>, the 0G SDK, gofakes3,
  the image codecs, YAML, \<open>float64\<close> rounding. Each locale is interpreted by a concrete host.

  \<^bold>\<open>Concurrency and crashes.\<close> What a request does to its own spool file is merged with the access next
  to it, because no other request knows its name. For a cold read this merges the download into its
  temporary file with the rename that follows (\<open>restore_file\<close>), so that two downloads that draw the same
  random name of 63 bits are not seen to collide. In \<open>con_step\<close> a step of the worker is any write that
  some answer in the log justifies; in \<open>whole_step\<close> it is the next access of the goroutine. A crash keeps exactly the database and the
  directories: a rename is taken to be durable when it has returned, although the code does not
  sync the directory. Calls of the chain and of the nodes return, with any answer or error; one that
  never returns blocks the worker's goroutine (worker.go:226-229) and is not modelled. \<open>process_step\<close> starts
  with the listener open; a failing bind is one of the failures of the serving goroutine
  (\<open>p_serve_fails\<close>).

  \<^bold>\<open>Not modelled.\<close> Log output; flag parsing; timeouts and sizes of the HTTP server; cancellation of a
  request's context; contents of the generated XML; the goroutines inside the SDK, gofakes3 and
  \<open>net/http\<close>; floating-point operations other than as correctly rounded, never fused (as compiled for
  amd64); the tests.
\<close>

end
